(* ===== verification/Uroam_Prelude.thy ===== *)
theory Uroam_Prelude
  imports Main "HOL-Library.Word" "HOL-Library.Sublist"
begin

section \<open>Prelude: machine types, error codes, C strings, machines with an invariant\<close>

text \<open>
  What the component theories share:
  the fixed-width types of the C code (an LP64 target: \<open>size_t\<close> and \<open>unsigned long\<close>
  have 64 bits), the error codes it returns, the string functions of the C library it calls
  (modelled on their documented behaviour), the loop \<open>for (i = 0; i < n; i++)\<close> as a fold,
  and two locales for components that run through a sequence of operations and keep an
  invariant or a monotone quantity on the way.
\<close>

subsection \<open>Types\<close>

type_synonym u8 = "8 word"
type_synonym u16 = "16 word"
type_synonym u32 = "32 word"
type_synonym u64 = "64 word"

text \<open>
  A C \<open>int\<close> that is only stored, compared and passed on is an \<open>int\<close>; where the code
  computes with a fixed width, the width is a word type.
\<close>

subsection \<open>Error codes\<close>

abbreviation ENOMEM :: int where "ENOMEM \<equiv> 12"
abbreviation EEXIST :: int where "EEXIST \<equiv> 17"
abbreviation ENODEV :: int where "ENODEV \<equiv> 19"
abbreviation EMSGSIZE :: int where "EMSGSIZE \<equiv> 90"
abbreviation ENOTCONN :: int where "ENOTCONN \<equiv> 107"

subsection \<open>Collections of facts\<close>

named_theorems frame_simps \<open>fields an operation leaves alone\<close>

subsection \<open>C strings\<close>

text \<open>
  A \<open>string\<close> is the content of a C string, up to and without its terminating zero.
  A character buffer is the list of all its characters, zeros included; \<open>cstr\<close> reads the
  C string a buffer holds.
\<close>

abbreviation NUL :: char where "NUL \<equiv> CHR 0x00"

definition cstr :: "char list \<Rightarrow> string" where
  "cstr buf = takeWhile (\<lambda>c. c \<noteq> NUL) buf"

text \<open>\<open>strstr\<close>: the suffix that starts at the first occurrence of the needle.\<close>

fun c_strstr :: "string \<Rightarrow> string \<Rightarrow> string option" where
  "c_strstr [] needle = (if needle = [] then Some [] else None)"
| "c_strstr (c # cs) needle =
     (if prefix needle (c # cs) then Some (c # cs) else c_strstr cs needle)"

text \<open>\<open>strchr\<close>: the suffix that starts at the first occurrence of the character.\<close>

fun c_strchr :: "string \<Rightarrow> char \<Rightarrow> string option" where
  "c_strchr [] x = None"
| "c_strchr (c # cs) x = (if c = x then Some (c # cs) else c_strchr cs x)"

text \<open>
  \<open>strncpy\<close> into a buffer: at most \<open>n\<close> characters of the source, the rest of the first
  \<open>n\<close> filled with zeros, what lies behind them untouched. A source of \<open>n\<close> or more
  characters leaves no terminating zero among them.
\<close>

definition c_strncpy :: "char list \<Rightarrow> string \<Rightarrow> nat \<Rightarrow> char list" where
  "c_strncpy dst src n = take n (src @ replicate (n - length src) NUL) @ drop n dst"

definition is_cdigit :: "char \<Rightarrow> bool" where
  "is_cdigit c \<longleftrightarrow> 48 \<le> (of_char c :: nat) \<and> (of_char c :: nat) \<le> 57"

definition is_cspace :: "char \<Rightarrow> bool" where
  "is_cspace c \<longleftrightarrow> c \<in> set [CHR '' '', CHR 0x09, CHR 0x0A, CHR 0x0B, CHR 0x0C, CHR 0x0D]"

definition digits_value :: "string \<Rightarrow> int" where
  "digits_value ds = foldl (\<lambda>v c. 10 * v + (int (of_char c) - 48)) 0 ds"

text \<open>
  \<open>atoi\<close> and \<open>atoll\<close>: white space, an optional sign, the digits that follow; 0 if there
  are none. The C functions have no defined result where the number does not fit their type;
  the model gives the number.
\<close>

definition c_atoi :: "string \<Rightarrow> int" where
  "c_atoi s =
     (case dropWhile is_cspace s of
        [] \<Rightarrow> 0
      | c # cs \<Rightarrow>
          (if c = CHR ''-'' then - digits_value (takeWhile is_cdigit cs)
           else if c = CHR ''+'' then digits_value (takeWhile is_cdigit cs)
           else digits_value (takeWhile is_cdigit (c # cs))))"

text \<open>\<open>printf\<close>'s \<open>%d\<close> and \<open>%u\<close>: decimal digits without leading zeros.\<close>

fun dec_digits :: "nat \<Rightarrow> string" where
  "dec_digits n =
     (if n < 10 then [char_of (48 + n)] else dec_digits (n div 10) @ [char_of (48 + n mod 10)])"

declare dec_digits.simps [simp del]

definition dec_int :: "int \<Rightarrow> string" where
  "dec_int v = (if v < 0 then CHR ''-'' # dec_digits (nat (- v)) else dec_digits (nat v))"

lemma of_char_digit: "(n :: nat) < 10 \<Longrightarrow> (of_char (char_of (48 + n) :: char) :: nat) = 48 + n"
  by (simp add: of_char_of)

lemma is_cdigit_digit: "(n :: nat) < 10 \<Longrightarrow> is_cdigit (char_of (48 + n))"
  by (simp add: is_cdigit_def of_char_digit)

lemma set_dec_digits: "c \<in> set (dec_digits n) \<Longrightarrow> is_cdigit c"
proof (induction n rule: dec_digits.induct)
  case (1 n)
  then show ?case
    by (cases "n < 10") (auto simp: dec_digits.simps [of n] is_cdigit_digit)
qed

lemma dec_digits_nonempty: "dec_digits n \<noteq> []"
  by (subst dec_digits.simps) simp

lemma digits_value_snoc: "digits_value (ds @ [c]) = 10 * digits_value ds + (int (of_char c) - 48)"
  by (simp add: digits_value_def)

lemma digits_value_dec: "digits_value (dec_digits n) = int n"
proof (induction n rule: dec_digits.induct)
  case (1 n)
  have nat: "(of_char (char_of (48 + m) :: char) :: int) = 48 + int m" if "m < 10" for m :: nat
    using of_char_digit [OF that] by (metis of_nat_add of_nat_numeral of_nat_of_char)
  show ?case
  proof (cases "n < 10")
    case True
    then show ?thesis
      using nat [of n] by (simp add: dec_digits.simps [of n] digits_value_def)
  next
    case False
    then show ?thesis
      using 1 nat [of "n mod 10"]
      by (simp add: dec_digits.simps [of n] digits_value_snoc)
         (metis mult_div_mod_eq of_nat_add of_nat_mult of_nat_numeral)
  qed
qed

lemma c_strstr_self_suffix: "c_strstr h n = Some r \<Longrightarrow> suffix r h \<and> prefix n r"
  by (induction h) (auto split: if_splits simp: suffix_Cons)

lemma c_strstr_None_iff: "c_strstr h n = None \<longleftrightarrow> \<not> sublist n h"
  by (induction h) (auto simp: sublist_Cons_right)

lemma c_strstr_Some_iff: "(\<exists>r. c_strstr h n = Some r) \<longleftrightarrow> sublist n h"
  using c_strstr_None_iff [of h n] by (cases "c_strstr h n") auto

lemma length_c_strncpy: "n \<le> length dst \<Longrightarrow> length (c_strncpy dst src n) = length dst"
  by (simp add: c_strncpy_def)

lemma take_c_strncpy: "m \<le> length src \<Longrightarrow> m \<le> n \<Longrightarrow> take m (c_strncpy dst src n) = take m src"
  by (simp add: c_strncpy_def)

text \<open>A short source is copied whole and the result is terminated.\<close>

lemma takeWhile_all: "NUL \<notin> set src \<Longrightarrow> takeWhile (\<lambda>c. c \<noteq> NUL) (src @ NUL # r) = src"
  by (induction src) auto

lemma cstr_c_strncpy:
  assumes "NUL \<notin> set src" and "length src < n"
  shows "cstr (c_strncpy dst src n) = src"
proof -
  from assms(2) obtain k where k: "n - length src = Suc k"
    by (metis Suc_diff_Suc)
  have "c_strncpy dst src n = src @ NUL # (replicate k NUL @ drop n dst)"
    using assms(2) k by (simp add: c_strncpy_def)
  then show ?thesis using assms(1) by (simp add: cstr_def takeWhile_all)
qed

lemma dropWhile_space_nondigit:
  assumes "\<not> is_cdigit c" "\<not> is_cspace c" "c \<noteq> CHR ''-''" "c \<noteq> CHR ''+''"
  shows "c_atoi (c # cs) = 0"
  using assms by (simp add: c_atoi_def digits_value_def)

subsection \<open>Bytes of a word in memory\<close>

text \<open>
  The representation of a word in the memory of a little-endian machine, and the word that a
  run of bytes represents.
\<close>

definition le_bytes :: "'a::len word \<Rightarrow> u8 list" where
  "le_bytes w = map (\<lambda>i. ucast (drop_bit (8 * i) w)) [0..<LENGTH('a) div 8]"

fun of_le_bytes :: "u8 list \<Rightarrow> 'a::len word" where
  "of_le_bytes [] = 0"
| "of_le_bytes (b # bs) = or (ucast b) (push_bit 8 (of_le_bytes bs))"

lemma length_le_bytes: "length (le_bytes (w :: 'a::len word)) = LENGTH('a) div 8"
  by (simp add: le_bytes_def)

lemma length_le_bytes_8 [simp]: "length (le_bytes (w :: u8)) = 1"
  and length_le_bytes_32 [simp]: "length (le_bytes (v :: u32)) = 4"
  and length_le_bytes_64 [simp]: "length (le_bytes (u :: u64)) = 8"
  by (simp_all add: length_le_bytes)

lemma bit_of_le_bytes:
  "bit (of_le_bytes bs :: 'a::len word) n \<longleftrightarrow>
     n < LENGTH('a) \<and> n div 8 < length bs \<and> bit (bs ! (n div 8)) (n mod 8)"
proof (induction bs arbitrary: n)
  case Nil
  then show ?case by simp
next
  case (Cons b bs)
  show ?case
  proof (cases "n < 8")
    case True
    then show ?thesis
      by (auto simp: bit_or_iff bit_ucast_iff bit_push_bit_iff dest: bit_imp_le_length)
  next
    case False
    then obtain m where m: "n = m + 8"
      by (metis le_add_diff_inverse2 not_less)
    have "\<not> bit b n"
      using False by (auto dest: bit_imp_le_length)
    moreover have "(m + 8) div 8 = Suc (m div 8)" by simp
    ultimately show ?thesis
      by (auto simp: m bit_or_iff bit_ucast_iff bit_push_bit_iff Cons.IH simp del: div_add_self2)
  qed
qed

lemma of_le_bytes_le_bytes:
  assumes "8 dvd LENGTH('a)"
  shows "of_le_bytes (le_bytes w) = (w :: 'a::len word)"
proof (rule bit_word_eqI)
  fix n
  assume n: "n < LENGTH('a)"
  then have "n div 8 < LENGTH('a) div 8"
    using assms by (auto elim!: dvdE)
  moreover have "8 * (n div 8) + n mod 8 = n" and "n mod 8 < LENGTH(8)" by simp_all
  ultimately show "bit (of_le_bytes (le_bytes w) :: 'a word) n = bit w n"
    using n by (simp add: bit_of_le_bytes le_bytes_def bit_ucast_iff bit_drop_bit_eq add.commute)
qed

lemma of_le_bytes_8 [simp]: "of_le_bytes (le_bytes w) = (w :: u8)"
  and of_le_bytes_32 [simp]: "of_le_bytes (le_bytes v) = (v :: u32)"
  and of_le_bytes_64 [simp]: "of_le_bytes (le_bytes u) = (u :: u64)"
  by (simp_all add: of_le_bytes_le_bytes)

subsection \<open>Loops\<close>

text \<open>\<open>for (i = 0; i < n; i++) s = body(i, s);\<close>\<close>

definition for_upto :: "nat \<Rightarrow> (nat \<Rightarrow> 's \<Rightarrow> 's) \<Rightarrow> 's \<Rightarrow> 's" where
  "for_upto n body s = fold body [0..<n] s"

lemma for_upto_0 [simp]: "for_upto 0 body s = s"
  by (simp add: for_upto_def)

lemma for_upto_Suc: "for_upto (Suc n) body s = body n (for_upto n body s)"
  by (simp add: for_upto_def)

lemma for_upto_invariant:
  assumes "P 0 s" and "\<And>i t. i < n \<Longrightarrow> P i t \<Longrightarrow> P (Suc i) (body i t)"
  shows "P n (for_upto n body s)"
  using assms
proof (induction n)
  case 0
  then show ?case by simp
next
  case (Suc n)
  then have "P n (for_upto n body s)" by simp
  with Suc.prems(2) show ?case by (simp add: for_upto_Suc)
qed

lemma for_upto_keeps:
  assumes "\<And>i t. i < n \<Longrightarrow> f (body i t) = f t"
  shows "f (for_upto n body s) = f s"
  by (rule for_upto_invariant [where P = "\<lambda>_ t. f t = f s"]) (simp_all add: assms)

text \<open>A loop whose body writes cell \<open>i\<close> of an array only.\<close>

lemma for_upto_array:
  assumes "\<And>i t. i < n \<Longrightarrow> arr (body i t) = (arr t)(i := v i)"
  shows "arr (for_upto n body s) j = (if j < n then v j else arr s j)"
  using assms by (induction n) (auto simp: for_upto_Suc less_Suc_eq)

subsection \<open>Machines\<close>

text \<open>
  A component as its clients see it: a state, operations, an invariant every operation keeps.
  Whatever sequence of operations the clients issue, the invariant holds afterwards.
\<close>

locale machine =
  fixes step :: "'s \<Rightarrow> 'e \<Rightarrow> 's"
    and inv :: "'s \<Rightarrow> bool"
  assumes inv_step: "inv s \<Longrightarrow> inv (step s e)"
begin

lemma inv_run: "inv s \<Longrightarrow> inv (foldl step s es)"
  by (induction es arbitrary: s) (simp_all add: inv_step)

lemma inv_every_state:
  assumes "inv s" and "prefix es fs"
  shows "inv (foldl step s es)"
  by (rule inv_run) (rule assms(1))

end

text \<open>A machine with a quantity no operation decreases.\<close>

locale monotone_machine = machine step inv
  for step :: "'s \<Rightarrow> 'e \<Rightarrow> 's" and inv :: "'s \<Rightarrow> bool" +
  fixes level :: "'s \<Rightarrow> 'm::order"
  assumes level_step: "inv s \<Longrightarrow> level s \<le> level (step s e)"
begin

lemma level_run: "inv s \<Longrightarrow> level s \<le> level (foldl step s es)"
proof (induction es arbitrary: s)
  case Nil
  then show ?case by simp
next
  case (Cons e es)
  have "level (step s e) \<le> level (foldl step (step s e) es)"
    by (rule Cons.IH) (rule inv_step, rule Cons.prems)
  with level_step [OF Cons.prems, of e] show ?case
    by (simp add: order_trans)
qed

end

subsection \<open>Threads\<close>

text \<open>A sum over the threads of a configuration, and what it becomes when one of them changes.\<close>

definition total_of :: "('t \<Rightarrow> nat) \<Rightarrow> 't list \<Rightarrow> nat" where
  "total_of f ts = sum_list (map f ts)"

lemma total_of_update:
  "i < length ts \<Longrightarrow> total_of f (ts[i := x]) + f (ts ! i) = total_of f ts + f x"
proof (induction ts arbitrary: i)
  case Nil
  then show ?case by simp
next
  case (Cons t ts)
  show ?case
  proof (cases i)
    case 0
    then show ?thesis by (simp add: total_of_def)
  next
    case (Suc j)
    then have "total_of f (ts[j := x]) + f (ts ! j) = total_of f ts + f x"
      using Cons by simp
    then show ?thesis by (simp add: total_of_def Suc)
  qed
qed

lemma total_of_member: "t \<in> set ts \<Longrightarrow> f t \<le> total_of f ts"
  by (induction ts) (auto simp: total_of_def)

lemma set_updateD: "t \<in> set (ts[i := x]) \<Longrightarrow> t = x \<or> t \<in> set ts"
  using set_update_subset_insert [of ts i x] by auto

end
