(* ===== verification/Kernel_State.thy ===== *)
theory Kernel_State
  imports Uroam_Prelude "HOL-Library.Tree"
begin

section \<open>The kernel module's state and the kernel services it calls\<close>

text \<open>
  \<open>kernel/uroam.h\<close>: the levels and message types, the structures of the module, the
  global \<open>uroam_global_state\<close> with its initialiser from \<open>kernel/main.c\<close>.

  The module is a client of the Linux kernel. A kernel service is a parameter: the record
  \<open>kenv\<close> holds, for each service the module calls, a function from the calls made so far
  to the service's answer, so two calls of one service may answer differently and no answer
  is fixed by the model. The calls themselves are recorded, in order and with their answers,
  in the ghost field \<open>klog\<close>: lock operations, messages handed to netlink, everything that
  is acquired or released. What the module does to the kernel is what it adds to \<open>klog\<close>.

  An access outside a fixed-size array is undefined in C. The model lets the array be a total
  function and records the access as \<open>Out_of_bounds\<close> in \<open>klog\<close>; a log without that
  entry is an execution without such an access.
\<close>

subsection \<open>Constants\<close>

definition UROAM_PRIORITY_P0 :: u8 where "UROAM_PRIORITY_P0 = 0"
definition UROAM_PRIORITY_P1 :: u8 where "UROAM_PRIORITY_P1 = 1"
definition UROAM_PRIORITY_P2 :: u8 where "UROAM_PRIORITY_P2 = 2"

definition UROAM_MODE_DEFAULT :: u8 where "UROAM_MODE_DEFAULT = 0"

definition MAX_NUMA_NODES :: nat where "MAX_NUMA_NODES = 8"
definition MAX_TRACKED_PROCESSES :: nat where "MAX_TRACKED_PROCESSES = 1024"

definition NETLINK_UROAM :: nat where "NETLINK_UROAM = 31"

definition UROAM_NL_MSG_PRESSURE :: u16 where "UROAM_NL_MSG_PRESSURE = 1"
definition UROAM_NL_MSG_STATS :: u16 where "UROAM_NL_MSG_STATS = 4"
definition UROAM_NL_MSG_CONFIG :: u16 where "UROAM_NL_MSG_CONFIG = 5"
definition UROAM_NL_MSG_PROCESS :: u16 where "UROAM_NL_MSG_PROCESS = 6"

lemmas priority_defs = UROAM_PRIORITY_P0_def UROAM_PRIORITY_P1_def UROAM_PRIORITY_P2_def
lemmas nl_type_defs = UROAM_NL_MSG_PRESSURE_def UROAM_NL_MSG_STATS_def
  UROAM_NL_MSG_CONFIG_def UROAM_NL_MSG_PROCESS_def

text \<open>\<open>TASK_COMM_LEN\<close> is the kernel's length of a command name buffer.\<close>

abbreviation TASK_COMM_LEN :: nat where "TASK_COMM_LEN \<equiv> 16"

text \<open>
  The enumeration the code takes from \<open>linux/psi.h\<close>. Its three named values occur in the
  code; the numbers behind them are a parameter (\<open>psi_value\<close> of \<open>kenv\<close>), and any other
  number is \<open>PSI_OTHER\<close>.
\<close>

datatype psi_pressure = PSI_MEMORY_NONE | PSI_MEMORY_SOME | PSI_MEMORY_FULL | PSI_OTHER nat

subsection \<open>Calls of the kernel\<close>

datatype lockid = State_lock | Tree_lock | Nl_mutex | Page_table_lock

datatype kthread = Pressure_thread | Tracking_thread

datatype kprobe_id = Kp_mmap | Kp_brk

text \<open>What the module acquires from the kernel and has to give back.\<close>

datatype resource =
    R_skb | R_pid | R_task | R_mm | R_mempolicy
  | R_nlsock
  | R_psi_group | R_psi_trigger
  | R_thread kthread
  | R_proc string | R_kobj | R_sysfs
  | R_ring | R_kprobe kprobe_id
  | R_numa_table

text \<open>Services that are called for what they do or answer and hold nothing.\<close>

datatype kservice =
    Init_waitqueue_head kthread | Wake_up_all kthread | Wait_event kthread
  | Psi_read | Si_meminfo
  | Init_work | Schedule_work | Cancel_work_sync
  | Nlmsg_put u32 u32 bool

text \<open>
  \<open>Acquire r ok\<close> is a call that obtains \<open>r\<close>, with its success; \<open>Unicast\<close> is
  \<open>nlmsg_unicast\<close> with the message's type, port, sequence number and bytes and the call's
  result. \<open>nlmsg_unicast\<close> takes the buffer over whether it succeeds or not. \<open>Null_call\<close> is a
  call through a function pointer that is null.

  Port 0 of a netlink protocol is the kernel's own socket: a message to it that is accepted is
  delivered by running the socket's input handler, in the same thread and before
  \<open>nlmsg_unicast\<close> returns. The module's socket has such a handler, so a delivery is a run of
  module code inside a module call; \<open>Delivery\<close> is that run, the list of its calls.
\<close>

datatype kcall =
    Lock lockid
  | Unlock lockid
  | Acquire resource bool
  | Release resource
  | Unicast u16 u32 u32 "u8 list" int
  | Delivery "kcall list"
  | Service kservice
  | Out_of_bounds string nat
  | Null_call string

subsection \<open>Processes as the kernel shows them\<close>

text \<open>
  The fields of \<open>mm_struct\<close> and \<open>task_struct\<close> the module reads. The counters are the
  three entries of \<open>rss_stat\<close>. A policy is the pair of its mode and its preferred node;
  \<open>t_comm\<close> is what \<open>get_task_comm\<close> copies out.
\<close>

record mm_struct =
  mm_filepages :: u64
  mm_anonpages :: u64
  mm_swapents :: u64
  mm_brk :: u64

datatype mpol_mode = MPOL_DEFAULT | MPOL_PREFERRED | MPOL_BIND | MPOL_INTERLEAVE | MPOL_OTHER int

record mempolicy =
  mpol_mode :: mpol_mode
  mpol_preferred_node :: int

record task_struct =
  t_pid :: int
  t_comm :: string
  t_mm :: "mm_struct option"
  t_mempolicy :: "mempolicy option"
  t_numa_node :: int

record sysinfo =
  totalram :: u64
  freeram :: u64
  bufferram :: u64

text \<open>
  The services. A \<open>struct pid\<close> is the number in its first \<open>numbers\<close> entry;
  \<open>pid_nr_after_put\<close> is what that entry reads as once the reference was given back: the number
  while others keep the structure, anything once its memory was freed.
  The page counts of a node are asked for twice in a row, with nothing of the log in between;
  \<open>node_present_pages_again\<close> and \<open>node_free_pages_again\<close> are the second answers.
  \<open>uninit_comm\<close> is what an uninitialised buffer of 16 characters on the stack holds, \<open>skb_data\<close>
  what the payload of a fresh message holds.
\<close>

record kenv =
  psi_value :: "psi_pressure \<Rightarrow> u32"
  page_size :: u64
  gfp_kernel :: u32
  jiffies :: "kcall list \<Rightarrow> u64"
  nlmsg_new_ok :: "kcall list \<Rightarrow> bool"
  nlmsg_put_ok :: "kcall list \<Rightarrow> bool"
  nlmsg_unicast_ret :: "kcall list \<Rightarrow> int"
  skb_data :: "kcall list \<Rightarrow> nat \<Rightarrow> u8 list"
  netlink_create_ok :: "kcall list \<Rightarrow> bool"
  psi_group_init_ret :: "kcall list \<Rightarrow> int"
  psi_trigger_create_ret :: "kcall list \<Rightarrow> int"
  psi_read :: "kcall list \<Rightarrow> u64 \<times> u64"
  meminfo :: "kcall list \<Rightarrow> sysinfo"
  kthread_run_ret :: "kcall list \<Rightarrow> int"
  proc_mkdir_ok :: "kcall list \<Rightarrow> bool"
  proc_create_ok :: "kcall list \<Rightarrow> bool"
  kobject_create_ok :: "kcall list \<Rightarrow> bool"
  sysfs_create_ret :: "kcall list \<Rightarrow> int"
  ring_buffer_ok :: "kcall list \<Rightarrow> bool"
  register_kprobe_ret :: "kcall list \<Rightarrow> int"
  kzalloc_ok :: "kcall list \<Rightarrow> bool"
  num_possible_nodes :: "kcall list \<Rightarrow> int"
  num_online_nodes :: "kcall list \<Rightarrow> int"
  node_online :: "kcall list \<Rightarrow> nat \<Rightarrow> bool"
  node_present_pages :: "kcall list \<Rightarrow> nat \<Rightarrow> u64"
  node_free_pages :: "kcall list \<Rightarrow> nat \<Rightarrow> u64"
  node_present_pages_again :: "kcall list \<Rightarrow> nat \<Rightarrow> u64"
  node_free_pages_again :: "kcall list \<Rightarrow> nat \<Rightarrow> u64"
  node_distance :: "kcall list \<Rightarrow> int \<Rightarrow> int \<Rightarrow> int"
  find_get_pid :: "kcall list \<Rightarrow> int \<Rightarrow> int option"
  get_pid_task :: "kcall list \<Rightarrow> int \<Rightarrow> task_struct option"
  pid_nr_after_put :: "kcall list \<Rightarrow> int \<Rightarrow> int"
  mpol_new_ok :: "kcall list \<Rightarrow> bool"
  uninit_comm :: "kcall list \<Rightarrow> char list"
  rb_insert_color :: "nat \<Rightarrow> nat tree \<Rightarrow> nat tree"
  rb_erase :: "nat \<Rightarrow> nat tree \<Rightarrow> nat tree"


text \<open>
  A kernel for examples: every service succeeds, the clock stands at 100, the machine has
  \<open>n\<close> nodes of 1000 pages with half of them free, the processes are given, and the tree is
  not rebalanced (rebalancing is optional for a search tree).
\<close>

definition kernel_ok :: "int \<Rightarrow> (int \<Rightarrow> task_struct option) \<Rightarrow> kenv" where
  "kernel_ok n tasks = \<lparr>
     psi_value = (\<lambda>l. case l of PSI_MEMORY_NONE \<Rightarrow> 0 | PSI_MEMORY_SOME \<Rightarrow> 1
                    | PSI_MEMORY_FULL \<Rightarrow> 2 | PSI_OTHER k \<Rightarrow> of_nat k),
     page_size = 4096, gfp_kernel = 0xcc0,
     jiffies = (\<lambda>_. 100),
     nlmsg_new_ok = (\<lambda>_. True), nlmsg_put_ok = (\<lambda>_. True), nlmsg_unicast_ret = (\<lambda>_. 0),
     skb_data = (\<lambda>_ n. replicate n 0),
     netlink_create_ok = (\<lambda>_. True),
     psi_group_init_ret = (\<lambda>_. 0), psi_trigger_create_ret = (\<lambda>_. 0),
     psi_read = (\<lambda>_. (1, 1)), meminfo = (\<lambda>_. \<lparr>totalram = 1000, freeram = 500, bufferram = 100\<rparr>),
     kthread_run_ret = (\<lambda>_. 0),
     proc_mkdir_ok = (\<lambda>_. True), proc_create_ok = (\<lambda>_. True),
     kobject_create_ok = (\<lambda>_. True), sysfs_create_ret = (\<lambda>_. 0),
     ring_buffer_ok = (\<lambda>_. True), register_kprobe_ret = (\<lambda>_. 0), kzalloc_ok = (\<lambda>_. True),
     num_possible_nodes = (\<lambda>_. n), num_online_nodes = (\<lambda>_. n), node_online = (\<lambda>_ _. True),
     node_present_pages = (\<lambda>_ _. 1000), node_free_pages = (\<lambda>_ _. 500),
     node_present_pages_again = (\<lambda>_ _. 1000), node_free_pages_again = (\<lambda>_ _. 500),
     node_distance = (\<lambda>_ i j. if i = j then 10 else 20 + \<bar>i - j\<bar>),
     find_get_pid = (\<lambda>_ p. case tasks p of None \<Rightarrow> None | Some _ \<Rightarrow> Some p),
     get_pid_task = (\<lambda>_ p. tasks p), pid_nr_after_put = (\<lambda>_ q. q),
     mpol_new_ok = (\<lambda>_. True),
     uninit_comm = (\<lambda>_. replicate TASK_COMM_LEN CHR ''?''),
     rb_insert_color = (\<lambda>_ t. t), rb_erase = (\<lambda>_ t. t)\<rparr>"

subsection \<open>The module's structures\<close>

record uroam_allocation =
  al_address :: u64
  al_size :: u64
  al_gfp_flags :: u32
  al_numa_node :: int
  al_pid :: int
  al_timestamp :: u64

text \<open>The red-black tree node inside the structure is the entry's place in the tree (below).\<close>

record uroam_process_info =
  pi_pid :: int
  pi_comm :: "char list"
  pi_memory_usage :: u64
  pi_rss :: u64
  pi_swap :: u64
  pi_priority :: u8
  pi_numa_node :: u8
  pi_is_ai_workload :: bool
  pi_is_gaming :: bool

record uroam_numa_info =
  ni_total_memory :: u64
  ni_free_memory :: u64
  ni_used_memory :: u64
  ni_nr_pages :: u32
  ni_nr_free_pages :: u32
  ni_distance :: "nat \<Rightarrow> u32"

text \<open>The ghost log comes first, so that every component's state carries it.\<close>

record kworld =
  klog :: "kcall list"

record uroam_state = kworld +
  enabled :: bool
  pressure_level :: psi_pressure
  last_pressure_time :: u64
  pressure_count :: u64
  allocation_count :: u64
  reclaim_count :: u64
  allocation_list :: "uroam_allocation list"
  tracked_processes :: "nat \<Rightarrow> uroam_process_info"
  tracked_count :: u32
  numa_nodes :: "nat \<Rightarrow> uroam_numa_info"
  numa_node_count :: u32
  optimization_mode :: u8
  numa_aware :: bool
  compression_enabled :: bool
  dedup_enabled :: bool

text \<open>Static storage the initialiser does not name is zero.\<close>

definition zero_process :: uroam_process_info where
  "zero_process = \<lparr>pi_pid = 0, pi_comm = replicate TASK_COMM_LEN NUL, pi_memory_usage = 0,
     pi_rss = 0, pi_swap = 0, pi_priority = 0, pi_numa_node = 0,
     pi_is_ai_workload = False, pi_is_gaming = False\<rparr>"

definition zero_numa :: uroam_numa_info where
  "zero_numa = \<lparr>ni_total_memory = 0, ni_free_memory = 0, ni_used_memory = 0,
     ni_nr_pages = 0, ni_nr_free_pages = 0, ni_distance = (\<lambda>_. 0)\<rparr>"

definition uroam_global_state :: uroam_state where
  "uroam_global_state = \<lparr>
     klog = [],
     enabled = False,
     pressure_level = PSI_MEMORY_SOME,
     last_pressure_time = 0,
     pressure_count = 0,
     allocation_count = 0,
     reclaim_count = 0,
     allocation_list = [],
     tracked_processes = (\<lambda>_. zero_process),
     tracked_count = 0,
     numa_nodes = (\<lambda>_. zero_numa),
     numa_node_count = 0,
     optimization_mode = UROAM_MODE_DEFAULT,
     numa_aware = True,
     compression_enabled = True,
     dedup_enabled = True\<rparr>"

subsection \<open>The log of calls\<close>

definition kdo :: "kcall \<Rightarrow> 'a kworld_scheme \<Rightarrow> 'a kworld_scheme" where
  "kdo c s = s\<lparr>klog := klog s @ [c]\<rparr>"

definition kdo_if :: "bool \<Rightarrow> kcall \<Rightarrow> 'a kworld_scheme \<Rightarrow> 'a kworld_scheme" where
  "kdo_if b c s = (if b then kdo c s else s)"

lemma klog_kdo [simp]: "klog (kdo c s) = klog s @ [c]"
  by (simp add: kdo_def)

lemma kdo_frame [simp]:
  "enabled (kdo c t) = enabled t"
  "pressure_level (kdo c t) = pressure_level t"
  "last_pressure_time (kdo c t) = last_pressure_time t"
  "pressure_count (kdo c t) = pressure_count t"
  "allocation_count (kdo c t) = allocation_count t"
  "reclaim_count (kdo c t) = reclaim_count t"
  "allocation_list (kdo c t) = allocation_list t"
  "tracked_processes (kdo c t) = tracked_processes t"
  "tracked_count (kdo c t) = tracked_count t"
  "numa_nodes (kdo c t) = numa_nodes t"
  "numa_node_count (kdo c t) = numa_node_count t"
  "optimization_mode (kdo c t) = optimization_mode t"
  "numa_aware (kdo c t) = numa_aware t"
  "compression_enabled (kdo c t) = compression_enabled t"
  "dedup_enabled (kdo c t) = dedup_enabled t"
  by (simp_all add: kdo_def)

subsubsection \<open>Locks\<close>

text \<open>
  The locks held after a run of calls, the last one taken first. Taking a lock that is held
  is a self-deadlock and giving back one that is not the last is an error: both are \<open>None\<close>.
  This and the other accounts below are of the calls the module makes itself; what its handler
  does inside a \<open>Delivery\<close> they skip (\<open>whole\<close> has it).
\<close>

fun lock_run :: "lockid list \<Rightarrow> kcall list \<Rightarrow> lockid list option" where
  "lock_run h [] = Some h"
| "lock_run h (Lock l # cs) = (if l \<in> set h then None else lock_run (l # h) cs)"
| "lock_run h (Unlock l # cs) =
     (case h of [] \<Rightarrow> None | m # h' \<Rightarrow> if m = l then lock_run h' cs else None)"
| "lock_run h (_ # cs) = lock_run h cs"

lemma lock_run_append:
  "lock_run h (xs @ ys) = (case lock_run h xs of None \<Rightarrow> None | Some h' \<Rightarrow> lock_run h' ys)"
  by (induction h xs rule: lock_run.induct) (auto split: list.splits)

text \<open>
  The order in which the module takes locks: the mutex of the netlink socket is the innermost
  lock, and none of the others is taken inside another. \<open>rank_run\<close> is \<open>lock_run\<close> where a lock
  may be taken only if it ranks above all that are held.
\<close>

fun lock_rank :: "lockid \<Rightarrow> nat" where
  "lock_rank Nl_mutex = 1"
| "lock_rank _ = 0"

fun rank_run :: "lockid list \<Rightarrow> kcall list \<Rightarrow> lockid list option" where
  "rank_run h [] = Some h"
| "rank_run h (Lock l # cs) =
     (if list_all (\<lambda>m. lock_rank m < lock_rank l) h then rank_run (l # h) cs else None)"
| "rank_run h (Unlock l # cs) =
     (case h of [] \<Rightarrow> None | m # h' \<Rightarrow> if m = l then rank_run h' cs else None)"
| "rank_run h (_ # cs) = rank_run h cs"

lemma rank_run_append:
  "rank_run h (xs @ ys) = (case rank_run h xs of None \<Rightarrow> None | Some h' \<Rightarrow> rank_run h' ys)"
  by (induction h xs rule: rank_run.induct) (auto split: list.splits)

lemma rank_run_lock_run: "rank_run h cs = Some h' \<Longrightarrow> lock_run h cs = Some h'"
  by (induction h cs rule: rank_run.induct) (auto simp: list_all_iff split: if_splits list.splits)

text \<open>Calls that may put the caller to sleep: allocations with \<open>GFP_KERNEL\<close>, the mutex,
  waiting for a thread or for a work item, the last reference to an \<open>mm\<close>.\<close>

fun may_sleep :: "kcall \<Rightarrow> bool" where
  "may_sleep (Lock l) = (l = Nl_mutex)"
| "may_sleep (Acquire r _) = (r \<in> {R_skb, R_numa_table})"
| "may_sleep (Release r) = (r \<in> {R_mm, R_thread Pressure_thread, R_thread Tracking_thread})"
| "may_sleep (Service v) = (v = Cancel_work_sync)"
| "may_sleep _ = False"

fun spin_delta :: "kcall \<Rightarrow> int" where
  "spin_delta (Lock l) = (if l = Nl_mutex then 0 else 1)"
| "spin_delta (Unlock l) = (if l = Nl_mutex then 0 else - 1)"
| "spin_delta _ = 0"

text \<open>Does some call of the run sleep while a spinlock is held (\<open>d\<close> of them at the start)?\<close>

fun sleeps_atomic :: "int \<Rightarrow> kcall list \<Rightarrow> bool" where
  "sleeps_atomic d [] = False"
| "sleeps_atomic d (c # cs) = (0 < d \<and> may_sleep c \<or> sleeps_atomic (d + spin_delta c) cs)"

subsubsection \<open>Resources\<close>

fun res_delta :: "resource \<Rightarrow> kcall \<Rightarrow> int" where
  "res_delta r (Acquire q ok) = (if q = r \<and> ok then 1 else 0)"
| "res_delta r (Release q) = (if q = r then - 1 else 0)"
| "res_delta r (Unicast _ _ _ _ _) = (if r = R_skb then - 1 else 0)"
| "res_delta r _ = 0"

text \<open>How many of \<open>r\<close> a run of calls acquired and did not give back.\<close>

definition held :: "resource \<Rightarrow> kcall list \<Rightarrow> int" where
  "held r cs = sum_list (map (res_delta r) cs)"

lemma held_Nil [simp]: "held r [] = 0"
  and held_Cons [simp]: "held r (c # cs) = res_delta r c + held r cs"
  and held_append [simp]: "held r (xs @ ys) = held r xs + held r ys"
  by (simp_all add: held_def)

subsubsection \<open>Deliveries\<close>

text \<open>The calls of a run in the order in which its thread makes them, those inside deliveries
  included.\<close>

fun whole :: "kcall list \<Rightarrow> kcall list" where
  "whole [] = []"
| "whole (Delivery ds # cs) = whole ds @ whole cs"
| "whole (c # cs) = c # whole cs"

lemma whole_append: "whole (xs @ ys) = whole xs @ whole ys"
  by (induction xs rule: whole.induct) simp_all

text \<open>
  The first lock a thread asks for while it holds it. The locks of the module cannot be taken
  twice: the call never returns, and the thread waits for itself for ever. The functions of the
  model compute on past such a call; what the program does is the log up to there.
\<close>

fun self_wait :: "lockid list \<Rightarrow> kcall list \<Rightarrow> lockid option" where
  "self_wait h [] = None"
| "self_wait h (Lock l # cs) = (if l \<in> set h then Some l else self_wait (l # h) cs)"
| "self_wait h (Unlock l # cs) = self_wait (remove1 l h) cs"
| "self_wait h (_ # cs) = self_wait h cs"

lemma self_wait_append: "self_wait h xs = Some l \<Longrightarrow> self_wait h (xs @ ys) = Some l"
  by (induction h xs rule: self_wait.induct) (auto split: if_splits)

lemma self_wait_after: "lock_run h xs = Some h' \<Longrightarrow> self_wait h (xs @ ys) = self_wait h' ys"
  by (induction h xs rule: lock_run.induct) (auto split: if_splits list.splits)

lemma self_wait_lock_run: "self_wait h cs = Some l \<Longrightarrow> lock_run h cs = None"
  by (induction h cs rule: self_wait.induct) (auto split: if_splits list.splits)

text \<open>A run whose deliveries touch no lock: the accounts of the run are those of all its calls.\<close>

fun lock_call :: "kcall \<Rightarrow> bool" where
  "lock_call (Lock _) = True"
| "lock_call (Unlock _) = True"
| "lock_call (Delivery _) = True"
| "lock_call _ = False"

fun quiet :: "kcall \<Rightarrow> bool" where
  "quiet (Delivery ds) = list_all (\<lambda>c. \<not> lock_call c) ds"
| "quiet _ = True"

definition echo_free :: "kcall list \<Rightarrow> bool" where
  "echo_free cs \<longleftrightarrow> list_all quiet cs"

lemma echo_free_simps [simp]: "echo_free []" "echo_free (c # cs) \<longleftrightarrow> quiet c \<and> echo_free cs"
  "echo_free (xs @ ys) \<longleftrightarrow> echo_free xs \<and> echo_free ys"
  by (simp_all add: echo_free_def)

lemma runs_skip:
  assumes "list_all (\<lambda>c. \<not> lock_call c) ds"
  shows "whole ds = ds" "lock_run h (ds @ cs) = lock_run h cs" "rank_run h (ds @ cs) = rank_run h cs"
proof -
  have "whole ds = ds \<and> lock_run h (ds @ cs) = lock_run h cs \<and> rank_run h (ds @ cs) = rank_run h cs"
    using assms
  proof (induction ds)
    case Nil
    then show ?case by simp
  next
    case (Cons c ds)
    then show ?case by (cases c) simp_all
  qed
  then show "whole ds = ds" "lock_run h (ds @ cs) = lock_run h cs" "rank_run h (ds @ cs) = rank_run h cs"
    by simp_all
qed

lemma echo_free_runs:
  assumes "echo_free cs"
  shows "lock_run h (whole cs) = lock_run h cs" "rank_run h (whole cs) = rank_run h cs"
proof -
  have "lock_run h (whole cs) = lock_run h cs \<and> rank_run h (whole cs) = rank_run h cs"
    using assms
  proof (induction cs arbitrary: h)
    case Nil
    then show ?case by simp
  next
    case (Cons c cs)
    then show ?case by (cases c) (auto simp: runs_skip split: list.splits)
  qed
  then show "lock_run h (whole cs) = lock_run h cs" "rank_run h (whole cs) = rank_run h cs"
    by simp_all
qed

subsubsection \<open>Array bounds\<close>

fun is_oob :: "kcall \<Rightarrow> bool" where
  "is_oob (Out_of_bounds _ _) = True"
| "is_oob (Null_call _) = True"
| "is_oob _ = False"

definition in_bounds :: "kcall list \<Rightarrow> bool" where
  "in_bounds cs \<longleftrightarrow> (\<forall>c \<in> set cs. \<not> is_oob c)"

lemma in_bounds_Nil [simp]: "in_bounds []"
  and in_bounds_Cons [simp]: "in_bounds (c # cs) \<longleftrightarrow> \<not> is_oob c \<and> in_bounds cs"
  and in_bounds_append [simp]: "in_bounds (xs @ ys) \<longleftrightarrow> in_bounds xs \<and> in_bounds ys"
  by (auto simp: in_bounds_def)

subsection \<open>The contract of an operation that takes locks\<close>

text \<open>
  An operation of the module, with its argument, appends to the log a run of calls that
  returns to the locks it started with, provided the caller holds none of \<open>needs\<close>.
  What the contract gives: any sequence of such operations does too. Every component
  interprets it on its operations.
\<close>

locale locked_op =
  fixes f :: "'e \<Rightarrow> 's \<Rightarrow> 's" and lg :: "'s \<Rightarrow> kcall list" and needs :: "lockid set"
  assumes appends: "\<exists>cs. lg (f e s) = lg s @ cs \<and>
    (\<forall>h. set h \<inter> needs = {} \<longrightarrow> lock_run h cs = Some h)"
begin

lemma run_appends:
  "\<exists>cs. lg (fold f es s) = lg s @ cs \<and> (\<forall>h. set h \<inter> needs = {} \<longrightarrow> lock_run h cs = Some h)"
proof (induction es arbitrary: s)
  case Nil
  then show ?case by simp
next
  case (Cons e es)
  obtain cs where cs: "lg (f e s) = lg s @ cs"
    and lcs: "\<And>h. set h \<inter> needs = {} \<Longrightarrow> lock_run h cs = Some h"
    using appends [of e s] by blast
  obtain ds where ds: "lg (fold f es (f e s)) = lg (f e s) @ ds"
    and lds: "\<And>h. set h \<inter> needs = {} \<Longrightarrow> lock_run h ds = Some h"
    using Cons.IH [of "f e s"] by blast
  show ?case
    by (rule exI [of _ "cs @ ds"]) (simp add: cs ds lcs lds lock_run_append)
qed

lemma run_balanced:
  assumes "lock_run [] (lg s) = Some []"
  shows "lock_run [] (lg (fold f es s)) = Some []"
proof -
  obtain cs where "lg (fold f es s) = lg s @ cs"
    and "set [] \<inter> needs = {} \<longrightarrow> lock_run [] cs = Some []"
    using run_appends [of es s] by blast
  with assms show ?thesis by (simp add: lock_run_append)
qed

end

end
