(* ===== verification/Kernel_Ipc.thy ===== *)
theory Kernel_Ipc
  imports Kernel_State
begin

section \<open>Netlink messages: kernel/ipc.c\<close>

text \<open>
  The messages the module sends to user space, their bytes on the wire (the structures are
  packed and copied as they lie in the memory of a little-endian machine), the sender with
  its error paths, the receiver and the socket's life. The socket pointer is a flag: is it
  non-null.
\<close>

record nl_state = uroam_state +
  uroam_nl_sock :: bool
  uroam_nl_seq :: u32

text \<open>The state at load: the global state and the static variables of the file.\<close>

definition nl_boot :: nl_state where
  "nl_boot = uroam_state.extend uroam_global_state (nl_state.fields False 0)"

lemma kdo_nl_frame [simp]:
  "uroam_nl_sock (kdo c t) = uroam_nl_sock t"
  "uroam_nl_seq (kdo c t) = uroam_nl_seq t"
  by (simp_all add: kdo_def)

subsection \<open>Messages and their bytes\<close>

record uroam_nl_msg_pressure =
  mp_level :: u8
  mp_timestamp :: u64
  mp_count :: u64

record uroam_nl_msg_stats =
  ms_allocation_count :: u64
  ms_reclaim_count :: u64
  ms_pressure_count :: u64
  ms_pressure_level :: u32
  ms_tracked_processes :: u32

record uroam_nl_msg_process =
  mq_pid :: u32
  mq_comm :: "char list"
  mq_memory_usage :: u64
  mq_rss :: u64
  mq_priority :: u8
  mq_numa_node :: u8
  mq_is_ai_workload :: u8
  mq_is_gaming :: u8

definition bytes_of_chars :: "char list \<Rightarrow> u8 list" where
  "bytes_of_chars cs = map of_char cs"

definition bytes_pressure :: "uroam_nl_msg_pressure \<Rightarrow> u8 list" where
  "bytes_pressure m = le_bytes (mp_level m) @ le_bytes (mp_timestamp m) @ le_bytes (mp_count m)"

definition bytes_stats :: "uroam_nl_msg_stats \<Rightarrow> u8 list" where
  "bytes_stats m = le_bytes (ms_allocation_count m) @ le_bytes (ms_reclaim_count m) @
     le_bytes (ms_pressure_count m) @ le_bytes (ms_pressure_level m) @
     le_bytes (ms_tracked_processes m)"

definition bytes_process :: "uroam_nl_msg_process \<Rightarrow> u8 list" where
  "bytes_process m = le_bytes (mq_pid m) @ bytes_of_chars (mq_comm m) @
     le_bytes (mq_memory_usage m) @ le_bytes (mq_rss m) @
     [mq_priority m, mq_numa_node m, mq_is_ai_workload m, mq_is_gaming m]"

text \<open>What a reader of the message's bytes recovers: the fields at their offsets.\<close>

definition slice :: "nat \<Rightarrow> nat \<Rightarrow> 'a list \<Rightarrow> 'a list" where
  "slice off n xs = take n (drop off xs)"

definition read_pressure :: "u8 list \<Rightarrow> uroam_nl_msg_pressure" where
  "read_pressure bs = \<lparr>mp_level = of_le_bytes (slice 0 1 bs),
     mp_timestamp = of_le_bytes (slice 1 8 bs), mp_count = of_le_bytes (slice 9 8 bs)\<rparr>"

definition read_stats :: "u8 list \<Rightarrow> uroam_nl_msg_stats" where
  "read_stats bs = \<lparr>ms_allocation_count = of_le_bytes (slice 0 8 bs),
     ms_reclaim_count = of_le_bytes (slice 8 8 bs),
     ms_pressure_count = of_le_bytes (slice 16 8 bs),
     ms_pressure_level = of_le_bytes (slice 24 4 bs),
     ms_tracked_processes = of_le_bytes (slice 28 4 bs)\<rparr>"

definition read_process :: "u8 list \<Rightarrow> uroam_nl_msg_process" where
  "read_process bs = \<lparr>mq_pid = of_le_bytes (slice 0 4 bs),
     mq_comm = map (\<lambda>b. char_of (unat b)) (slice 4 16 bs),
     mq_memory_usage = of_le_bytes (slice 20 8 bs),
     mq_rss = of_le_bytes (slice 28 8 bs),
     mq_priority = bs ! 36, mq_numa_node = bs ! 37,
     mq_is_ai_workload = bs ! 38, mq_is_gaming = bs ! 39\<rparr>"

lemma slice_append1: "off + n \<le> length xs \<Longrightarrow> slice off n (xs @ ys) = slice off n xs"
  by (simp add: slice_def)

lemma slice_append2: "length xs \<le> off \<Longrightarrow> slice off n (xs @ ys) = slice (off - length xs) n ys"
  by (simp add: slice_def)

lemma slice_all: "n = length xs \<Longrightarrow> slice 0 n xs = xs"
  by (simp add: slice_def)

lemmas slice_simps = slice_append1 slice_append2 slice_all

lemma length_bytes_of_chars [simp]: "length (bytes_of_chars cs) = length cs"
  by (simp add: bytes_of_chars_def)

lemma char_of_byte [simp]: "char_of (unat (of_char c :: u8)) = c"
proof -
  have "unat (of_char c :: u8) = unat (of_nat (of_char c) :: u8)"
    by (simp add: of_nat_of_char)
  also have "\<dots> = of_char c"
    by (simp add: unat_of_nat del: of_nat_of_char)
  finally show ?thesis by simp
qed

lemma chars_of_bytes_of_chars: "map (\<lambda>b. char_of (unat b)) (bytes_of_chars cs) = cs"
  by (induction cs) (simp_all add: bytes_of_chars_def)

lemma length_bytes_pressure: "length (bytes_pressure m) = 17"
  by (simp add: bytes_pressure_def)

lemma length_bytes_stats: "length (bytes_stats m) = 32"
  by (simp add: bytes_stats_def)

lemma length_bytes_process: "length (mq_comm m) = 16 \<Longrightarrow> length (bytes_process m) = 40"
  by (simp add: bytes_process_def)

lemma read_bytes_pressure: "read_pressure (bytes_pressure m) = m"
  by (cases m) (simp add: read_pressure_def bytes_pressure_def slice_simps)

lemma read_bytes_stats: "read_stats (bytes_stats m) = m"
  by (cases m) (simp add: read_stats_def bytes_stats_def slice_simps)

lemma read_bytes_process: "length (mq_comm m) = 16 \<Longrightarrow> read_process (bytes_process m) = m"
  by (cases m) (simp add: read_process_def bytes_process_def slice_simps nth_append
    chars_of_bytes_of_chars)


subsection \<open>The sender\<close>

text \<open>
  \<open>uroam_netlink_send\<close> and the receiver call each other: the messages go to port 0, the port of
  the module's own socket, so one that netlink accepts is delivered to \<open>uroam_netlink_rcv\<close> inside
  \<open>nlmsg_unicast\<close>, with the mutex held. The first part of a send, up to the mutex, is
  \<open>send_prepared\<close>: allocate a buffer, put the header with the next sequence number. Its result is
  0 or a negative error.
\<close>

definition send_prepared :: "kenv \<Rightarrow> u32 \<Rightarrow> 'a nl_state_scheme \<Rightarrow> int \<times> 'a nl_state_scheme" where
  "send_prepared K portid s =
     (let new_ok = nlmsg_new_ok K (klog s);
          s1 = kdo (Acquire R_skb new_ok) s
      in if \<not> new_ok then (- ENOMEM, s1)
         else
           let seq = uroam_nl_seq s1;
               put_ok = nlmsg_put_ok K (klog s1);
               s2 = kdo (Service (Nlmsg_put portid seq put_ok)) (s1\<lparr>uroam_nl_seq := seq + 1\<rparr>)
           in if \<not> put_ok then (- EMSGSIZE, kdo (Release R_skb) s2) else (0, s2))"

text \<open>
  The receiver run inside a send. It holds the mutex the send it starts asks for: where that send
  gets as far as the mutex, it never returns, and neither do the receiver and the outer send.
\<close>

definition rcv_inside :: "kenv \<Rightarrow> u16 \<Rightarrow> 'a nl_state_scheme \<Rightarrow> 'a nl_state_scheme" where
  "rcv_inside K ty s =
     (if ty = UROAM_NL_MSG_PRESSURE \<or> ty = UROAM_NL_MSG_STATS then
        let s1 = (if ty = UROAM_NL_MSG_STATS then kdo (Unlock State_lock) (kdo (Lock State_lock) s) else s);
            (ret, s2) = send_prepared K 0 s1
        in (if ret < 0 then kdo (Release R_skb) s2 else kdo (Lock Nl_mutex) s2)
      else kdo (Release R_skb) s)"

text \<open>A delivery: the handler's calls go into the log as one entry.\<close>

definition delivered :: "('a nl_state_scheme \<Rightarrow> 'a nl_state_scheme) \<Rightarrow> 'a nl_state_scheme \<Rightarrow> 'a nl_state_scheme" where
  "delivered f s =
     (let t = f s in t\<lparr>klog := klog s @ [Delivery (drop (length (klog s)) (klog t))]\<rparr>)"

text \<open>The payload: what \<open>data\<close> points to, or the buffer as it is when \<open>data\<close> is null.\<close>

definition payload :: "kenv \<Rightarrow> u8 list option \<Rightarrow> u64 \<Rightarrow> kcall list \<Rightarrow> u8 list" where
  "payload K data len h = (case data of Some bs \<Rightarrow> bs | None \<Rightarrow> skb_data K h (unat len))"

definition uroam_netlink_send ::
  "kenv \<Rightarrow> u16 \<Rightarrow> u8 list option \<Rightarrow> u64 \<Rightarrow> u32 \<Rightarrow> 'a nl_state_scheme \<Rightarrow> int \<times> 'a nl_state_scheme" where
  "uroam_netlink_send K ty data len portid s =
     (let (err, s2) = send_prepared K portid s
      in if err < 0 then (err, s2)
         else
           let bytes = payload K data len (klog s2);
               s3 = kdo (Lock Nl_mutex) s2;
               (ret, s4) =
                 (if uroam_nl_sock s3
                  then let r = nlmsg_unicast_ret K (klog s3);
                           t = kdo (Unicast ty portid (uroam_nl_seq s) bytes r) s3
                       in (r, if portid = 0 \<and> 0 \<le> r then delivered (rcv_inside K ty) t else t)
                  else (- ENOTCONN, s3));
               s5 = kdo (Unlock Nl_mutex) s4
           in (if ret < 0 then ret else 0, s5))"

definition uroam_netlink_send_pressure ::
  "kenv \<Rightarrow> psi_pressure \<Rightarrow> 'a nl_state_scheme \<Rightarrow> 'a nl_state_scheme" where
  "uroam_netlink_send_pressure K level s =
     (let msg = \<lparr>mp_level = ucast (psi_value K level), mp_timestamp = jiffies K (klog s),
                 mp_count = pressure_count s\<rparr>
      in snd (uroam_netlink_send K UROAM_NL_MSG_PRESSURE (Some (bytes_pressure msg)) 17 0 s))"

definition uroam_netlink_send_stats :: "kenv \<Rightarrow> 'a nl_state_scheme \<Rightarrow> int \<times> 'a nl_state_scheme" where
  "uroam_netlink_send_stats K s =
     (let s1 = kdo (Lock State_lock) s;
          msg = \<lparr>ms_allocation_count = allocation_count s1,
                 ms_reclaim_count = reclaim_count s1,
                 ms_pressure_count = pressure_count s1,
                 ms_pressure_level = psi_value K (pressure_level s1),
                 ms_tracked_processes = tracked_count s1\<rparr>;
          s2 = kdo (Unlock State_lock) s1
      in uroam_netlink_send K UROAM_NL_MSG_STATS (Some (bytes_stats msg)) 32 0 s2)"

definition process_msg :: "char list \<Rightarrow> int \<Rightarrow> uroam_process_info option \<Rightarrow> uroam_nl_msg_process" where
  "process_msg junk pid info =
     (case info of
        Some i \<Rightarrow> \<lparr>mq_pid = word_of_int pid,
           mq_comm = c_strncpy junk (cstr (pi_comm i)) TASK_COMM_LEN,
           mq_memory_usage = pi_memory_usage i, mq_rss = pi_rss i,
           mq_priority = pi_priority i, mq_numa_node = pi_numa_node i,
           mq_is_ai_workload = of_bool (pi_is_ai_workload i),
           mq_is_gaming = of_bool (pi_is_gaming i)\<rparr>
      | None \<Rightarrow> \<lparr>mq_pid = word_of_int pid, mq_comm = junk[0 := NUL],
           mq_memory_usage = 0, mq_rss = 0, mq_priority = UROAM_PRIORITY_P2,
           mq_numa_node = 0, mq_is_ai_workload = 0, mq_is_gaming = 0\<rparr>)"

definition uroam_netlink_send_process_update ::
  "kenv \<Rightarrow> int \<Rightarrow> uroam_process_info option \<Rightarrow> 'a nl_state_scheme \<Rightarrow> int \<times> 'a nl_state_scheme" where
  "uroam_netlink_send_process_update K pid info s =
     uroam_netlink_send K UROAM_NL_MSG_PROCESS
       (Some (bytes_process (process_msg (uninit_comm K (klog s)) pid info))) 40 0 s"

subsection \<open>The receiver and the socket\<close>

text \<open>The buffer that arrives is represented by the type in its header and the port it came from,
  which the code reads and does not use; \<open>None\<close> is a null pointer.\<close>

definition uroam_netlink_rcv :: "kenv \<Rightarrow> (u16 \<times> u32) option \<Rightarrow> 'a nl_state_scheme \<Rightarrow> 'a nl_state_scheme" where
  "uroam_netlink_rcv K skb s =
     (case skb of
        None \<Rightarrow> s
      | Some (ty, pid) \<Rightarrow>
          let s1 = (if ty = UROAM_NL_MSG_PRESSURE
                    then uroam_netlink_send_pressure K (pressure_level s) s
                    else if ty = UROAM_NL_MSG_STATS then snd (uroam_netlink_send_stats K s)
                    else s)
          in kdo (Release R_skb) s1)"

definition uroam_netlink_init :: "kenv \<Rightarrow> 'a nl_state_scheme \<Rightarrow> int \<times> 'a nl_state_scheme" where
  "uroam_netlink_init K s =
     (let ok = netlink_create_ok K (klog s);
          s1 = kdo (Acquire R_nlsock ok) (s\<lparr>uroam_nl_sock := ok\<rparr>)
      in (if ok then 0 else - ENOMEM, s1))"

definition uroam_netlink_exit :: "'a nl_state_scheme \<Rightarrow> 'a nl_state_scheme" where
  "uroam_netlink_exit s =
     (if uroam_nl_sock s then kdo (Release R_nlsock) (s\<lparr>uroam_nl_sock := False\<rparr>) else s)"

subsection \<open>What the sender appends to the log\<close>

text \<open>
  The calls of the receiver inside a send, from a log \<open>h\<close> and a sequence number; the calls of one
  send, in order, and its result: the four ways through the function.
\<close>

definition echo_calls :: "kenv \<Rightarrow> u16 \<Rightarrow> kcall list \<Rightarrow> u32 \<Rightarrow> kcall list" where
  "echo_calls K ty h n =
     (if ty = UROAM_NL_MSG_PRESSURE \<or> ty = UROAM_NL_MSG_STATS then
        let pre = (if ty = UROAM_NL_MSG_STATS then [Lock State_lock, Unlock State_lock] else [])
        in pre @
           (if \<not> nlmsg_new_ok K (h @ pre) then [Acquire R_skb False, Release R_skb]
            else if \<not> nlmsg_put_ok K (h @ pre @ [Acquire R_skb True])
            then [Acquire R_skb True, Service (Nlmsg_put 0 n False), Release R_skb, Release R_skb]
            else [Acquire R_skb True, Service (Nlmsg_put 0 n True), Lock Nl_mutex])
      else [Release R_skb])"

definition send_calls :: "kenv \<Rightarrow> u16 \<Rightarrow> u8 list \<Rightarrow> u32 \<Rightarrow> 'a nl_state_scheme \<Rightarrow> int \<times> kcall list" where
  "send_calls K ty bytes portid s =
     (let h = klog s; h1 = h @ [Acquire R_skb True];
          put = Service (Nlmsg_put portid (uroam_nl_seq s) True);
          h3 = h1 @ [put, Lock Nl_mutex]; r = nlmsg_unicast_ret K h3;
          msg = Unicast ty portid (uroam_nl_seq s) bytes r;
          echo = (if portid = 0 \<and> 0 \<le> r
                  then [Delivery (echo_calls K ty (h3 @ [msg]) (uroam_nl_seq s + 1))] else [])
      in if \<not> nlmsg_new_ok K h then (- ENOMEM, [Acquire R_skb False])
         else if \<not> nlmsg_put_ok K h1
         then (- EMSGSIZE, [Acquire R_skb True,
                 Service (Nlmsg_put portid (uroam_nl_seq s) False), Release R_skb])
         else if uroam_nl_sock s
         then (min r 0, [Acquire R_skb True, put, Lock Nl_mutex, msg] @ echo @ [Unlock Nl_mutex])
         else (- ENOTCONN, [Acquire R_skb True, put, Lock Nl_mutex, Unlock Nl_mutex]))"

text \<open>The bytes of the message, as the log before the send determines them, and the number the
  next send starts from.\<close>

definition sent_bytes :: "kenv \<Rightarrow> u8 list option \<Rightarrow> u64 \<Rightarrow> u32 \<Rightarrow> 'a nl_state_scheme \<Rightarrow> u8 list" where
  "sent_bytes K data len portid s =
     payload K data len (klog s @ [Acquire R_skb True, Service (Nlmsg_put portid (uroam_nl_seq s) True)])"

definition next_seq :: "kenv \<Rightarrow> u16 \<Rightarrow> u8 list \<Rightarrow> u32 \<Rightarrow> 'a nl_state_scheme \<Rightarrow> u32" where
  "next_seq K ty bytes portid s =
     uroam_nl_seq (snd (uroam_netlink_send K ty (Some bytes) 0 portid s))"

lemma sent_bytes_Some [simp]: "sent_bytes K (Some bs) len portid s = bs"
  by (simp add: sent_bytes_def payload_def)

lemma rcv_inside_klog:
  "klog (rcv_inside K ty s) = klog s @ echo_calls K ty (klog s) (uroam_nl_seq s)"
  by (simp add: rcv_inside_def send_prepared_def echo_calls_def Let_def)

lemma rcv_inside_frame:
  "\<exists>l n. rcv_inside K ty s = s\<lparr>klog := l, uroam_nl_seq := n\<rparr>"
proof -
  have "rcv_inside K ty s = s\<lparr>klog := klog (rcv_inside K ty s), uroam_nl_seq := uroam_nl_seq (rcv_inside K ty s)\<rparr>"
    by (simp add: rcv_inside_def send_prepared_def kdo_def Let_def)
  then show ?thesis by blast
qed

lemma delivered_rcv:
  "delivered (rcv_inside K ty) s =
     s\<lparr>klog := klog s @ [Delivery (echo_calls K ty (klog s) (uroam_nl_seq s))],
       uroam_nl_seq := uroam_nl_seq (rcv_inside K ty s)\<rparr>"
proof -
  obtain l n where "rcv_inside K ty s = s\<lparr>klog := l, uroam_nl_seq := n\<rparr>"
    using rcv_inside_frame by blast
  then show ?thesis
    using rcv_inside_klog [of K ty s] by (simp add: delivered_def Let_def)
qed

lemma kdo_then_delivered:
  "klog (delivered (rcv_inside K ty) s) = klog s @ [Delivery (echo_calls K ty (klog s) (uroam_nl_seq s))]"
  by (simp add: delivered_rcv)

lemma send_klog:
  "klog (snd (uroam_netlink_send K ty data len portid s)) =
     klog s @ snd (send_calls K ty (sent_bytes K data len portid s) portid s)"
  by (cases "portid = 0") (simp_all add: uroam_netlink_send_def send_prepared_def send_calls_def sent_bytes_def
      kdo_then_delivered Let_def)

lemma send_ret:
  "fst (uroam_netlink_send K ty data len portid s) =
     fst (send_calls K ty (sent_bytes K data len portid s) portid s)"
  by (simp add: uroam_netlink_send_def send_prepared_def send_calls_def Let_def min_def)

lemma send_frame:
  "\<exists>l n. snd (uroam_netlink_send K ty data len portid s) = s\<lparr>klog := l, uroam_nl_seq := n\<rparr>"
proof -
  have "snd (uroam_netlink_send K ty data len portid s) =
      s\<lparr>klog := klog (snd (uroam_netlink_send K ty data len portid s)),
        uroam_nl_seq := uroam_nl_seq (snd (uroam_netlink_send K ty data len portid s))\<rparr>"
    by (simp add: uroam_netlink_send_def send_prepared_def delivered_rcv kdo_def Let_def)
  then show ?thesis by blast
qed

lemma send_klog_eq:
  "snd (uroam_netlink_send K ty (Some bs) len portid s) =
     s\<lparr>klog := klog s @ snd (send_calls K ty bs portid s), uroam_nl_seq := next_seq K ty bs portid s\<rparr>"
proof -
  have "payload K (Some bs) len = payload K (Some bs) 0"
    by (simp add: payload_def fun_eq_iff)
  then have "uroam_netlink_send K ty (Some bs) len portid s = uroam_netlink_send K ty (Some bs) 0 portid s"
    by (simp only: uroam_netlink_send_def)
  moreover obtain l n where "snd (uroam_netlink_send K ty (Some bs) len portid s) =
      s\<lparr>klog := l, uroam_nl_seq := n\<rparr>"
    using send_frame by blast
  ultimately show ?thesis
    using send_klog [of K ty "Some bs" len portid s] by (simp add: next_seq_def)
qed

lemma lock_run_send_calls:
  "Nl_mutex \<notin> set h \<Longrightarrow> lock_run h (snd (send_calls K ty bs portid s)) = Some h"
  by (simp add: send_calls_def Let_def)

lemma rank_run_send_calls:
  "list_all (\<lambda>m. lock_rank m = 0) h \<Longrightarrow> rank_run h (snd (send_calls K ty bs portid s)) = Some h"
  by (simp add: send_calls_def Let_def)

lemma in_bounds_send_calls: "in_bounds (snd (send_calls K ty bs portid s))"
  by (simp add: send_calls_def Let_def)

text \<open>The buffer's account: given back or handed over on every path but one.\<close>

lemma held_send_calls:
  "held r (snd (send_calls K ty bs portid s)) =
     (if r = R_skb \<and> fst (send_calls K ty bs portid s) = - ENOTCONN \<and> \<not> uroam_nl_sock s then 1 else 0)"
  by (simp add: send_calls_def Let_def)

lemma locked_op_send:
  "\<exists>cs. klog (snd (uroam_netlink_send K ty data len portid s)) = klog s @ cs \<and>
     (\<forall>h. set h \<inter> {Nl_mutex} = {} \<longrightarrow> lock_run h cs = Some h)"
  by (auto simp: send_klog lock_run_send_calls)

text \<open>The messages a run of calls handed to netlink: type, port and bytes.\<close>

fun unicasts :: "kcall list \<Rightarrow> (u16 \<times> u32 \<times> u8 list) list" where
  "unicasts [] = []"
| "unicasts (Unicast ty portid _ bs _ # cs) = (ty, portid, bs) # unicasts cs"
| "unicasts (_ # cs) = unicasts cs"

lemma unicasts_append [simp]: "unicasts (xs @ ys) = unicasts xs @ unicasts ys"
  by (induction xs rule: unicasts.induct) simp_all

text \<open>An environment in which buffers can be allocated and headers fit, and one whose netlink
  accepts every message.\<close>

definition nl_ready :: "kenv \<Rightarrow> bool" where
  "nl_ready K \<longleftrightarrow> (\<forall>h. nlmsg_new_ok K h \<and> nlmsg_put_ok K h)"

definition nl_accepts :: "kenv \<Rightarrow> bool" where
  "nl_accepts K \<longleftrightarrow> (\<forall>h. 0 \<le> nlmsg_unicast_ret K h)"

lemma unicasts_send_calls:
  "nl_ready K \<Longrightarrow> uroam_nl_sock s \<Longrightarrow>
   unicasts (snd (send_calls K ty bs portid s)) = [(ty, portid, bs)]"
  by (simp add: nl_ready_def send_calls_def Let_def)

text \<open>The echo: a send to port 0 of a type the receiver answers waits for the mutex it holds.\<close>

lemma send_waits_for_itself:
  assumes "nl_ready K" and "nl_accepts K" and "uroam_nl_sock s" and "Nl_mutex \<notin> set h"
    and "ty = UROAM_NL_MSG_PRESSURE \<or> ty = UROAM_NL_MSG_STATS \<and> State_lock \<notin> set h"
  shows "self_wait h (whole (snd (send_calls K ty bs 0 s))) = Some Nl_mutex"
  using assms by (auto simp: send_calls_def echo_calls_def nl_ready_def nl_accepts_def nl_type_defs Let_def)

text \<open>A message of any other type is dropped by the receiver, and the send returns.\<close>

lemma send_other_returns:
  assumes "ty \<noteq> UROAM_NL_MSG_PRESSURE" and "ty \<noteq> UROAM_NL_MSG_STATS"
  shows "echo_free (snd (send_calls K ty bs portid s))"
  using assms by (simp add: send_calls_def echo_calls_def Let_def)

definition stats_msg :: "kenv \<Rightarrow> 'a nl_state_scheme \<Rightarrow> uroam_nl_msg_stats" where
  "stats_msg K s = \<lparr>ms_allocation_count = allocation_count s, ms_reclaim_count = reclaim_count s,
     ms_pressure_count = pressure_count s, ms_pressure_level = psi_value K (pressure_level s),
     ms_tracked_processes = tracked_count s\<rparr>"

definition pressure_msg :: "kenv \<Rightarrow> psi_pressure \<Rightarrow> 'a nl_state_scheme \<Rightarrow> uroam_nl_msg_pressure" where
  "pressure_msg K level s =
     \<lparr>mp_level = ucast (psi_value K level), mp_timestamp = jiffies K (klog s),
      mp_count = pressure_count s\<rparr>"

lemma netlink_send_pressure_eq:
  "uroam_netlink_send_pressure K level s =
     snd (uroam_netlink_send K UROAM_NL_MSG_PRESSURE (Some (bytes_pressure (pressure_msg K level s))) 17 0 s)"
  by (simp add: uroam_netlink_send_pressure_def pressure_msg_def)

lemma netlink_send_stats_eq:
  "uroam_netlink_send_stats K s =
     uroam_netlink_send K UROAM_NL_MSG_STATS (Some (bytes_stats (stats_msg K s))) 32 0
       (kdo (Unlock State_lock) (kdo (Lock State_lock) s))"
  by (simp add: uroam_netlink_send_stats_def stats_msg_def)

lemma rcv_locks:
  "\<exists>cs. klog (uroam_netlink_rcv K skb s) = klog s @ cs \<and>
     (\<forall>h. set h \<inter> {State_lock, Nl_mutex} = {} \<longrightarrow> lock_run h cs = Some h)"
  by (cases skb) (auto simp: uroam_netlink_rcv_def netlink_send_pressure_eq netlink_send_stats_eq
    send_klog lock_run_append lock_run_send_calls)

text \<open>The calls of the receiver.\<close>

definition rcv_calls :: "kenv \<Rightarrow> u16 \<Rightarrow> 'a nl_state_scheme \<Rightarrow> kcall list" where
  "rcv_calls K ty s =
     (if ty = UROAM_NL_MSG_PRESSURE
      then snd (send_calls K ty (bytes_pressure (pressure_msg K (pressure_level s) s)) 0 s)
      else if ty = UROAM_NL_MSG_STATS
      then [Lock State_lock, Unlock State_lock] @
           snd (send_calls K ty (bytes_stats (stats_msg K s)) 0
             (kdo (Unlock State_lock) (kdo (Lock State_lock) s)))
      else []) @ [Release R_skb]"

lemma rcv_klog: "klog (uroam_netlink_rcv K (Some (ty, pid)) s) = klog s @ rcv_calls K ty s"
  by (simp add: uroam_netlink_rcv_def rcv_calls_def netlink_send_pressure_eq netlink_send_stats_eq
      send_klog)

lemma rcv_calls_wait:
  assumes "nl_ready K" and "nl_accepts K" and "uroam_nl_sock s"
    and ty: "ty = UROAM_NL_MSG_PRESSURE \<or> ty = UROAM_NL_MSG_STATS"
  shows "self_wait [] (whole (rcv_calls K ty s)) = Some Nl_mutex"
proof -
  have echo: "self_wait [] (whole (snd (send_calls K ty bs 0 u)) @ cs) = Some Nl_mutex"
    if "uroam_nl_sock u" for bs cs and u :: "'a nl_state_scheme"
    by (rule self_wait_append, rule send_waits_for_itself [OF assms(1,2) that])
       (use ty in auto)
  show ?thesis
    using ty assms(3)
    by (cases "ty = UROAM_NL_MSG_PRESSURE")
       (use echo in \<open>simp_all add: rcv_calls_def whole_append nl_type_defs\<close>)
qed

interpretation rcv: locked_op "uroam_netlink_rcv K" klog "{State_lock, Nl_mutex}" for K
  by unfold_locales (rule rcv_locks)

subsection \<open>Properties\<close>

text \<open>C19: Every buffer \<open>uroam_netlink_send\<close> allocates is freed or handed over to netlink, on
  every path but one: when the buffer and its header are ready and the socket is gone
  (\<open>-ENOTCONN\<close>), the buffer is neither sent nor freed.\<close>

theorem netlink_send_skb_account:
  "held R_skb (klog (snd (uroam_netlink_send K ty data len portid s))) - held R_skb (klog s) =
     (if nlmsg_new_ok K (klog s) \<and> nlmsg_put_ok K (klog s @ [Acquire R_skb True]) \<and>
         \<not> uroam_nl_sock s then 1 else 0)"
  by (simp add: send_klog send_calls_def Let_def)

text \<open>C16: A reader that takes the fields of a message at their offsets gets back what the module
  put in: for the pressure and the statistics message all fields, for a process update the
  process number, the counters, the flags and the command name (when it is terminated in its
  buffer), and the bytes are as many as the length passed to netlink.\<close>

theorem netlink_messages_roundtrip:
  assumes "length junk = TASK_COMM_LEN" and "length (cstr (pi_comm i)) < TASK_COMM_LEN"
  shows "read_pressure (bytes_pressure mp) = mp \<and> length (bytes_pressure mp) = 17 \<and>
    read_stats (bytes_stats ms) = ms \<and> length (bytes_stats ms) = 32 \<and>
    (let bs = bytes_process (process_msg junk pid (Some i)); m = read_process bs in
      length bs = 40 \<and>
      mq_pid m = word_of_int pid \<and> cstr (mq_comm m) = cstr (pi_comm i) \<and>
      mq_memory_usage m = pi_memory_usage i \<and> mq_rss m = pi_rss i \<and>
      mq_priority m = pi_priority i \<and> mq_numa_node m = pi_numa_node i \<and>
      mq_is_ai_workload m = of_bool (pi_is_ai_workload i) \<and>
      mq_is_gaming m = of_bool (pi_is_gaming i))"
proof -
  have "length (mq_comm (process_msg junk pid (Some i))) = 16"
    using assms(1) by (simp add: process_msg_def length_c_strncpy)
  moreover have "NUL \<notin> set (cstr (pi_comm i))"
    by (auto simp: cstr_def dest: set_takeWhileD)
  ultimately show ?thesis
    using assms(2)
    by (simp add: Let_def read_bytes_process length_bytes_process read_bytes_pressure
        length_bytes_pressure read_bytes_stats length_bytes_stats)
       (simp add: process_msg_def cstr_c_strncpy)
qed

theorem netlink_messages_roundtrip_witness:
  "(let i = \<lparr>pi_pid = 7, pi_comm = ''bash'' @ replicate 12 NUL, pi_memory_usage = 3, pi_rss = 2,
        pi_swap = 1, pi_priority = 2, pi_numa_node = 0, pi_is_ai_workload = False,
        pi_is_gaming = True\<rparr>;
        m = read_process (bytes_process (process_msg (replicate 16 CHR ''x'') 7 (Some i)))
    in cstr (mq_comm m) = ''bash'' \<and> mq_is_gaming m = 1 \<and> mq_pid m = 7)"
proof -
  define i :: uroam_process_info where "i = \<lparr>pi_pid = 7, pi_comm = ''bash'' @ replicate 12 NUL,
    pi_memory_usage = 3, pi_rss = 2, pi_swap = 1, pi_priority = 2, pi_numa_node = 0,
    pi_is_ai_workload = False, pi_is_gaming = True\<rparr>"
  have c: "cstr (pi_comm i) = ''bash''"
    by (simp add: i_def cstr_def)
  then show ?thesis
    using netlink_messages_roundtrip [of "replicate 16 CHR ''x''" i undefined undefined 7]
    unfolding i_def [symmetric] by (simp add: Let_def i_def)
qed

text \<open>C17: A query is not answered. Whatever port it comes from, with the socket open and buffers
  available, a pressure or a statistics query makes the module hand netlink exactly one message, with
  the current level, time and count or the current counters, and addressed to port 0, its own
  socket; any other type makes it send nothing. The counters, the level and the tracked
  processes stay as they are. When netlink accepts the message it delivers it to the handler
  itself, whose own send asks for the mutex the handler's thread holds: the query never returns.
  A query of another type takes no lock and returns.\<close>

theorem netlink_rcv_reply:
  assumes "nl_ready K" and "uroam_nl_sock s"
  shows "\<exists>cs. klog (uroam_netlink_rcv K (Some (ty, pid)) s) = klog s @ cs \<and>
    unicasts cs =
      (if ty = UROAM_NL_MSG_PRESSURE
       then [(ty, 0, bytes_pressure (pressure_msg K (pressure_level s) s))]
       else if ty = UROAM_NL_MSG_STATS then [(ty, 0, bytes_stats (stats_msg K s))] else []) \<and>
    stats_msg K (uroam_netlink_rcv K (Some (ty, pid)) s) = stats_msg K s \<and>
    uroam_netlink_rcv K (Some (ty, pid)) s = uroam_netlink_rcv K (Some (ty, 0)) s \<and>
    (if ty = UROAM_NL_MSG_PRESSURE \<or> ty = UROAM_NL_MSG_STATS
     then nl_accepts K \<longrightarrow> self_wait [] (whole cs) = Some Nl_mutex
     else whole cs = [Release R_skb])"
proof -
  have stats: "stats_msg K (uroam_netlink_rcv K (Some (ty, pid)) s) = stats_msg K s"
    by (auto simp: uroam_netlink_rcv_def netlink_send_pressure_eq netlink_send_stats_eq send_klog_eq
        stats_msg_def)
  have uni: "unicasts (rcv_calls K ty s) =
      (if ty = UROAM_NL_MSG_PRESSURE
       then [(ty, 0, bytes_pressure (pressure_msg K (pressure_level s) s))]
       else if ty = UROAM_NL_MSG_STATS then [(ty, 0, bytes_stats (stats_msg K s))] else [])"
    using assms by (simp add: rcv_calls_def unicasts_send_calls)
  have "whole (rcv_calls K ty s) = [Release R_skb]"
    if "\<not> (ty = UROAM_NL_MSG_PRESSURE \<or> ty = UROAM_NL_MSG_STATS)"
    using that by (simp add: rcv_calls_def)
  moreover have "uroam_netlink_rcv K (Some (ty, pid)) s = uroam_netlink_rcv K (Some (ty, 0)) s"
    by (simp add: uroam_netlink_rcv_def)
  ultimately show ?thesis
    using stats uni rcv_klog [of K ty pid s] rcv_calls_wait [OF assms(1) _ assms(2), of ty] by (intro exI [of _ "rcv_calls K ty s"]) simp
qed

theorem netlink_rcv_reply_witness:
  "let K = kernel_ok 1 (\<lambda>_. None); s = nl_boot\<lparr>uroam_nl_sock := True, allocation_count := 5\<rparr>;
       cs = klog (uroam_netlink_rcv K (Some (UROAM_NL_MSG_STATS, 4711)) s)
   in unicasts cs = [(UROAM_NL_MSG_STATS, 0, bytes_stats (stats_msg K s))] \<and>
      self_wait [] (whole cs) = Some Nl_mutex \<and> ms_allocation_count (stats_msg K s) = 5"
proof -
  let ?K = "kernel_ok 1 (\<lambda>_. None)" and ?s = "nl_boot\<lparr>uroam_nl_sock := True, allocation_count := 5\<rparr>"
  have K: "nl_ready ?K" "nl_accepts ?K"
    by (simp_all add: nl_ready_def nl_accepts_def kernel_ok_def)
  have s: "klog ?s = []" "uroam_nl_sock ?s" "ms_allocation_count (stats_msg ?K ?s) = 5"
    by (simp_all add: nl_boot_def nl_state.defs uroam_state.defs uroam_global_state_def stats_msg_def)
  from netlink_rcv_reply [OF K(1) s(2), of UROAM_NL_MSG_STATS 4711]
  have "unicasts (klog (uroam_netlink_rcv ?K (Some (UROAM_NL_MSG_STATS, 4711)) ?s)) =
      [(UROAM_NL_MSG_STATS, 0, bytes_stats (stats_msg ?K ?s))] \<and>
    self_wait [] (whole (klog (uroam_netlink_rcv ?K (Some (UROAM_NL_MSG_STATS, 4711)) ?s))) = Some Nl_mutex"
    using K(2) unfolding s(1) by (auto simp: nl_type_defs)
  then show ?thesis using s(3) by (simp add: Let_def)
qed

text \<open>The receiver frees the message it is given, which netlink frees as well once the receiver
  has returned: a process update the module sends to itself is freed once more than it was obtained.\<close>

theorem delivered_message_freed_twice:
  assumes "nl_ready K" and "nl_accepts K" and "uroam_nl_sock s"
    and "ty \<noteq> UROAM_NL_MSG_PRESSURE" and "ty \<noteq> UROAM_NL_MSG_STATS"
  shows "held R_skb (whole (snd (send_calls K ty bs 0 s))) = - 1"
  using assms by (simp add: send_calls_def echo_calls_def nl_ready_def nl_accepts_def Let_def)

theorem delivered_message_freed_twice_witness:
  "held R_skb (whole (snd (send_calls (kernel_ok 1 (\<lambda>_. None)) UROAM_NL_MSG_PROCESS [] 0
     (nl_boot\<lparr>uroam_nl_sock := True\<rparr>)))) = - 1"
  by (rule delivered_message_freed_twice)
     (simp_all add: nl_ready_def nl_accepts_def kernel_ok_def nl_type_defs)

end
