(* ===== verification/Kernel_Core.thy ===== *)
theory Kernel_Core
  imports Kernel_Ipc
begin

section \<open>Notification, recording and the status files: kernel/main.c\<close>

text \<open>
  The operations of \<open>main.c\<close> the other components call, the handlers of the sysfs
  attribute and of the three files under \<open>/proc/uroam\<close>. The module's start and stop are in
  \<open>Kernel_Main\<close>.
\<close>

definition uroam_get_pressure_level_str :: "psi_pressure \<Rightarrow> string" where
  "uroam_get_pressure_level_str level =
     (case level of
        PSI_MEMORY_NONE \<Rightarrow> ''NONE''
      | PSI_MEMORY_SOME \<Rightarrow> ''SOME''
      | PSI_MEMORY_FULL \<Rightarrow> ''FULL''
      | PSI_OTHER _ \<Rightarrow> ''UNKNOWN'')"

subsection \<open>Notification and recording\<close>

definition uroam_notify_pressure ::
  "kenv \<Rightarrow> psi_pressure \<Rightarrow> 'a nl_state_scheme \<Rightarrow> 'a nl_state_scheme" where
  "uroam_notify_pressure K level s =
     (let s1 = kdo (Lock State_lock) s;
          s2 = s1\<lparr>pressure_level := level, pressure_count := pressure_count s1 + 1,
                  last_pressure_time := jiffies K (klog s1)\<rparr>;
          s3 = uroam_netlink_send_pressure K level s2
      in kdo (Unlock State_lock) s3)"

definition uroam_record_allocation ::
  "u64 \<Rightarrow> u32 \<Rightarrow> int \<Rightarrow> 'a nl_state_scheme \<Rightarrow> 'a nl_state_scheme" where
  "uroam_record_allocation sz gfp_flags numa_node s =
     (let s1 = kdo (Lock State_lock) s
      in kdo (Unlock State_lock) (s1\<lparr>allocation_count := allocation_count s1 + 1\<rparr>))"

definition uroam_record_reclaim :: "u64 \<Rightarrow> 'a nl_state_scheme \<Rightarrow> 'a nl_state_scheme" where
  "uroam_record_reclaim reclaimed s =
     (let s1 = kdo (Lock State_lock) s
      in kdo (Unlock State_lock) (s1\<lparr>reclaim_count := reclaim_count s1 + 1\<rparr>))"

subsection \<open>The sysfs attribute\<close>

text \<open>\<open>kstrtoint\<close> is the kernel's parser: \<open>Inl\<close> an error code, \<open>Inr\<close> the number.\<close>

definition uroam_enabled_show :: "'a uroam_state_scheme \<Rightarrow> string" where
  "uroam_enabled_show s = dec_int (of_bool (enabled s)) @ [CHR 0x0A]"

definition uroam_enabled_store ::
  "(string \<Rightarrow> int + int) \<Rightarrow> string \<Rightarrow> int \<Rightarrow> 'a uroam_state_scheme \<Rightarrow> int \<times> 'a uroam_state_scheme" where
  "uroam_enabled_store kstrtoint buf count s =
     (case kstrtoint buf of
        Inl ret \<Rightarrow> (ret, s)
      | Inr val \<Rightarrow>
          (let s1 = kdo (Lock State_lock) s;
               s2 = s1\<lparr>enabled := (val \<noteq> 0)\<rparr>
           in (count, kdo (Unlock State_lock) s2)))"

subsection \<open>The files under /proc/uroam\<close>

abbreviation newline :: string where "newline \<equiv> [CHR 0x0A]"

definition dec_u64 :: "u64 \<Rightarrow> string" where
  "dec_u64 w = dec_digits (unat w)"

definition uroam_proc_status_show :: "'a uroam_state_scheme \<Rightarrow> string \<times> 'a uroam_state_scheme" where
  "uroam_proc_status_show s =
     (let s1 = kdo (Lock State_lock) s;
          out = ''Module Status: '' @ (if enabled s1 then ''Enabled'' else ''Disabled'') @ newline @
                ''Pressure Level: '' @ uroam_get_pressure_level_str (pressure_level s1) @ newline @
                ''Pressure Count: '' @ dec_u64 (pressure_count s1) @ newline @
                ''Allocation Count: '' @ dec_u64 (allocation_count s1) @ newline @
                ''Reclaim Count: '' @ dec_u64 (reclaim_count s1) @ newline
      in (out, kdo (Unlock State_lock) s1))"

definition uroam_proc_config_show :: "bool \<Rightarrow> bool \<Rightarrow> bool \<Rightarrow> string" where
  "uroam_proc_config_show pressure_monitor allocation_hooks numa =
     ''enable_pressure_monitor='' @ dec_int (of_bool pressure_monitor) @ newline @
     ''enable_allocation_hooks='' @ dec_int (of_bool allocation_hooks) @ newline @
     ''enable_numa_aware='' @ dec_int (of_bool numa) @ newline"

definition uroam_proc_stats_show :: "kenv \<Rightarrow> u64 \<Rightarrow> u64 \<Rightarrow> u64 \<Rightarrow> 'a kworld_scheme \<Rightarrow> string" where
  "uroam_proc_stats_show K file_pages anon_mapped swapcache s =
     (let si = meminfo K (klog s)
      in ''System Memory Statistics:'' @ newline @
         ''  Total RAM: '' @ dec_u64 (totalram si) @ '' kB'' @ newline @
         ''  Free RAM: '' @ dec_u64 (freeram si) @ '' kB'' @ newline @
         ''  Used RAM: '' @ dec_u64 (totalram si - freeram si) @ '' kB'' @ newline @
         ''  Buffer RAM: '' @ dec_u64 (bufferram si) @ '' kB'' @ newline @
         ''  Cached RAM: '' @ dec_u64 (totalram si - freeram si - bufferram si) @ '' kB'' @ newline @
         newline @ ''Kernel Memory Statistics:'' @ newline @
         ''  Page Cache: '' @ dec_u64 (file_pages * page_size K div 1024) @ ''kB'' @ newline @
         ''  Anonymous: '' @ dec_u64 (anon_mapped * page_size K div 1024) @ ''kB'' @ newline @
         ''  Swap Cache: '' @ dec_u64 (swapcache * page_size K div 1024) @ ''kB'' @ newline)"

subsection \<open>Lemmas\<close>

text \<open>What a notification does, in one record update.\<close>

definition notified :: "kenv \<Rightarrow> psi_pressure \<Rightarrow> 'a nl_state_scheme \<Rightarrow> 'a nl_state_scheme" where
  "notified K level s =
     s\<lparr>klog := klog s @ [Lock State_lock], pressure_level := level,
       pressure_count := pressure_count s + 1,
       last_pressure_time := jiffies K (klog s @ [Lock State_lock])\<rparr>"

definition notify_calls :: "kenv \<Rightarrow> psi_pressure \<Rightarrow> 'a nl_state_scheme \<Rightarrow> kcall list" where
  "notify_calls K level s =
     Lock State_lock #
     snd (send_calls K UROAM_NL_MSG_PRESSURE
            (bytes_pressure (pressure_msg K level (notified K level s))) 0 (notified K level s)) @
     [Unlock State_lock]"

lemma notify_pressure_eq:
  "uroam_notify_pressure K level s =
     s\<lparr>klog := klog s @ notify_calls K level s, pressure_level := level,
       pressure_count := pressure_count s + 1,
       last_pressure_time := jiffies K (klog s @ [Lock State_lock]),
       uroam_nl_seq := next_seq K UROAM_NL_MSG_PRESSURE
         (bytes_pressure (pressure_msg K level (notified K level s))) 0 (notified K level s)\<rparr>"
  by (simp add: uroam_notify_pressure_def netlink_send_pressure_eq send_klog_eq notify_calls_def
      notified_def kdo_def Let_def)

lemma lock_run_notify_calls:
  "set h \<inter> {State_lock, Nl_mutex} = {} \<Longrightarrow> lock_run h (notify_calls K level s) = Some h"
  by (simp add: notify_calls_def lock_run_append lock_run_send_calls)

lemma rank_run_notify_calls: "rank_run [] (notify_calls K level s) = Some []"
  by (simp add: notify_calls_def rank_run_append rank_run_send_calls)

lemma held_notify_calls:
  "held r (notify_calls K level s) =
     held r (snd (send_calls K UROAM_NL_MSG_PRESSURE
            (bytes_pressure (pressure_msg K level (notified K level s))) 0 (notified K level s)))"
  by (simp add: notify_calls_def)

interpretation notify: locked_op "uroam_notify_pressure K" klog "{State_lock, Nl_mutex}" for K
  by unfold_locales (auto simp: notify_pressure_eq lock_run_notify_calls)

lemma record_allocation_eq:
  "uroam_record_allocation sz gf node s =
     s\<lparr>klog := klog s @ [Lock State_lock, Unlock State_lock],
       allocation_count := allocation_count s + 1\<rparr>"
  by (simp add: uroam_record_allocation_def kdo_def Let_def)

lemma record_reclaim_eq:
  "uroam_record_reclaim n s =
     s\<lparr>klog := klog s @ [Lock State_lock, Unlock State_lock],
       reclaim_count := reclaim_count s + 1\<rparr>"
  by (simp add: uroam_record_reclaim_def kdo_def Let_def)

interpretation reclaim: locked_op uroam_record_reclaim klog "{State_lock}"
  by unfold_locales (auto simp: record_reclaim_eq)


subsection \<open>Events\<close>

text \<open>What other parts of the kernel tell the module, in any order.\<close>

datatype core_event = Ev_pressure psi_pressure | Ev_alloc u64 u32 int | Ev_reclaim u64

fun core_step :: "kenv \<Rightarrow> 'a nl_state_scheme \<Rightarrow> core_event \<Rightarrow> 'a nl_state_scheme" where
  "core_step K s (Ev_pressure l) = uroam_notify_pressure K l s"
| "core_step K s (Ev_alloc n g i) = uroam_record_allocation n g i s"
| "core_step K s (Ev_reclaim n) = uroam_record_reclaim n s"

fun is_pressure :: "core_event \<Rightarrow> bool" where
  "is_pressure (Ev_pressure _) = True"
| "is_pressure _ = False"

fun is_alloc :: "core_event \<Rightarrow> bool" where
  "is_alloc (Ev_alloc _ _ _) = True"
| "is_alloc _ = False"

fun is_reclaim :: "core_event \<Rightarrow> bool" where
  "is_reclaim (Ev_reclaim _) = True"
| "is_reclaim _ = False"

text \<open>The level after a run: the last one notified.\<close>

fun last_level :: "psi_pressure \<Rightarrow> core_event list \<Rightarrow> psi_pressure" where
  "last_level l [] = l"
| "last_level l (Ev_pressure m # es) = last_level m es"
| "last_level l (_ # es) = last_level l es"

lemma core_step_locks:
  "\<exists>cs. klog (core_step K s e) = klog s @ cs \<and>
     (\<forall>h. set h \<inter> {State_lock, Nl_mutex} = {} \<longrightarrow> lock_run h cs = Some h)"
  by (cases e) (auto simp: notify_pressure_eq record_allocation_eq record_reclaim_eq
    lock_run_notify_calls)

interpretation core: locked_op "\<lambda>e s. core_step K s e" klog "{State_lock, Nl_mutex}" for K
  by unfold_locales (rule core_step_locks)

lemma lock_free_machine: "lock_run [] (klog s) = Some [] \<Longrightarrow> lock_run [] (klog (core_step K s e)) = Some []"
  using core.run_balanced [of s K "[e]"] by simp

interpretation core_machine: machine "core_step K" "\<lambda>s. lock_run [] (klog s) = Some []" for K
  by unfold_locales (rule lock_free_machine)

subsection \<open>Properties\<close>

text \<open>A notification stores the level, counts it, stamps it with the time and, with the socket
  open and buffers available, hands netlink exactly one message, to port 0, whose level and time are the
  notified ones and whose count is the count after the increment. No other counter and no
  tracked process changes.\<close>

theorem notify_pressure_spec:
  assumes "nl_ready K" and "uroam_nl_sock s"
  defines "now \<equiv> jiffies K (klog s @ [Lock State_lock])"
  shows "unicasts (klog (uroam_notify_pressure K level s)) = unicasts (klog s) @
      [(UROAM_NL_MSG_PRESSURE, 0, bytes_pressure \<lparr>mp_level = ucast (psi_value K level),
          mp_timestamp = now, mp_count = pressure_count s + 1\<rparr>)] \<and>
    (\<exists>log seq. uroam_notify_pressure K level s =
       s\<lparr>klog := log, pressure_level := level, pressure_count := pressure_count s + 1,
         last_pressure_time := now, uroam_nl_seq := seq\<rparr>)"
proof -
  have "nlmsg_new_ok K (klog s @ [Lock State_lock])"
    using assms(1) by (simp add: nl_ready_def)
  moreover have "unicasts (notify_calls K level s) =
      [(UROAM_NL_MSG_PRESSURE, 0, bytes_pressure (pressure_msg K level (notified K level s)))]"
    using assms(1,2) by (simp add: notify_calls_def unicasts_send_calls notified_def)
  ultimately show ?thesis
    by (auto simp: notify_pressure_eq pressure_msg_def notified_def now_def)
qed

theorem notify_pressure_spec_witness:
  "let K = kernel_ok 1 (\<lambda>_. None); s = nl_boot\<lparr>uroam_nl_sock := True\<rparr>
   in unicasts (klog (uroam_notify_pressure K PSI_MEMORY_FULL s)) =
        [(UROAM_NL_MSG_PRESSURE, 0, bytes_pressure \<lparr>mp_level = 2, mp_timestamp = 100, mp_count = 1\<rparr>)]"
proof -
  have "nl_ready (kernel_ok 1 (\<lambda>_. None))"
    by (simp add: nl_ready_def kernel_ok_def)
  then show ?thesis
    using notify_pressure_spec [of "kernel_ok 1 (\<lambda>_. None)" "nl_boot\<lparr>uroam_nl_sock := True\<rparr>"
        PSI_MEMORY_FULL]
    by (simp add: nl_boot_def nl_state.defs uroam_state.defs uroam_global_state_def kernel_ok_def)
qed

text \<open>C15: Whatever the kernel reports, in whatever order: after any run of events the pressure,
  allocation and reclaim counters have grown by the number of events of their kind (modulo
  2 to the 64), the level is the last one notified, and the operations' own calls leave no lock
  held. (Where netlink delivers a notification to the module itself, the run ends there:
  \<open>notification_waits_for_itself\<close>.)\<close>

theorem counters_count_events:
  assumes "lock_run [] (klog s) = Some []"
  shows "let t = foldl (core_step K) s es in
    pressure_count t = pressure_count s + of_nat (length (filter is_pressure es)) \<and>
    allocation_count t = allocation_count s + of_nat (length (filter is_alloc es)) \<and>
    reclaim_count t = reclaim_count s + of_nat (length (filter is_reclaim es)) \<and>
    pressure_level t = last_level (pressure_level s) es \<and>
    lock_run [] (klog t) = Some []"
proof -
  have "pressure_count (foldl (core_step K) s es) =
        pressure_count s + of_nat (length (filter is_pressure es)) \<and>
    allocation_count (foldl (core_step K) s es) =
        allocation_count s + of_nat (length (filter is_alloc es)) \<and>
    reclaim_count (foldl (core_step K) s es) =
        reclaim_count s + of_nat (length (filter is_reclaim es)) \<and>
    pressure_level (foldl (core_step K) s es) = last_level (pressure_level s) es" for s :: "'a nl_state_scheme"
  proof (induction es arbitrary: s)
    case Nil
    then show ?case by simp
  next
    case (Cons e es)
    then show ?case
      by (cases e) (simp_all add: notify_pressure_eq record_allocation_eq record_reclaim_eq)
  qed
  moreover have "lock_run [] (klog (foldl (core_step K) s es)) = Some []"
    by (rule core_machine.inv_run) (rule assms(1))
  ultimately show ?thesis by (simp add: Let_def)
qed

theorem counters_count_events_witness:
  "let K = kernel_ok 1 (\<lambda>_. None);
       t = foldl (core_step K) nl_boot [Ev_alloc 10 0 0, Ev_pressure PSI_MEMORY_FULL, Ev_alloc 20 0 0]
   in allocation_count t = 2 \<and> pressure_count t = 1 \<and> pressure_level t = PSI_MEMORY_FULL"
  using counters_count_events [of nl_boot "kernel_ok 1 (\<lambda>_. None)"
      "[Ev_alloc 10 0 0, Ev_pressure PSI_MEMORY_FULL, Ev_alloc 20 0 0]"]
  by (simp add: nl_boot_def nl_state.defs uroam_state.defs uroam_global_state_def Let_def)

text \<open>A notification allocates its message (\<open>GFP_KERNEL\<close>, which may sleep) while it holds the
  spinlock of the state, and where the allocation and the header succeed it takes a mutex there
  as well: it always sleeps in atomic context. The locks themselves are balanced.\<close>

theorem notify_pressure_sleeps_in_atomic:
  "\<exists>cs. klog (uroam_notify_pressure K level s) = klog s @ cs \<and> sleeps_atomic 0 cs \<and>
     lock_run [] cs = Some []"
  by (rule exI [of _ "notify_calls K level s"])
     (simp add: notify_pressure_eq lock_run_notify_calls,
      simp add: notify_calls_def send_calls_def Let_def)

text \<open>A notification waits for itself: with the socket open and buffers available, when netlink
  accepts its message it is delivered to the module's own receiver, which asks for the mutex the
  notification holds. The notification never returns, and the state lock is held for ever as well.\<close>

theorem notification_waits_for_itself:
  assumes "nl_ready K" and "nl_accepts K" and "uroam_nl_sock s"
  shows "\<exists>cs. klog (uroam_notify_pressure K level s) = klog s @ cs \<and>
    self_wait [] (whole cs) = Some Nl_mutex"
proof -
  have "uroam_nl_sock (notified K level s)" using assms(3) by (simp add: notified_def)
  then have echo: "self_wait [State_lock] (whole (snd (send_calls K UROAM_NL_MSG_PRESSURE bs 0
      (notified K level s))) @ cs) = Some Nl_mutex" for bs cs
    by (intro self_wait_append send_waits_for_itself [OF assms(1,2)]) simp_all
  then have "self_wait [] (whole (notify_calls K level s)) = Some Nl_mutex"
    by (simp add: notify_calls_def whole_append)
  then show ?thesis by (simp add: notify_pressure_eq)
qed

theorem notification_waits_for_itself_witness:
  "\<exists>cs. klog (uroam_notify_pressure (kernel_ok 1 (\<lambda>_. None)) PSI_MEMORY_FULL
      (nl_boot\<lparr>uroam_nl_sock := True\<rparr>)) = cs \<and> self_wait [] (whole cs) = Some Nl_mutex"
  using notification_waits_for_itself [of "kernel_ok 1 (\<lambda>_. None)" "nl_boot\<lparr>uroam_nl_sock := True\<rparr>"
      PSI_MEMORY_FULL]
  by (simp add: nl_ready_def nl_accepts_def kernel_ok_def nl_boot_def nl_state.defs uroam_state.defs
      uroam_global_state_def)

text \<open>Writing to the sysfs attribute what reading it printed changes nothing but the log; any
  number other than 0 enables the module, and what does not parse leaves the state as it is
  and returns the parser's error.\<close>

theorem enabled_attribute:
  assumes "\<And>b. kstrtoint (dec_int (of_bool b) @ newline) = Inr (of_bool b)"
  shows "snd (uroam_enabled_store kstrtoint (uroam_enabled_show s) n s) =
      s\<lparr>klog := klog s @ [Lock State_lock, Unlock State_lock]\<rparr> \<and>
    (kstrtoint buf = Inr v \<longrightarrow> fst (uroam_enabled_store kstrtoint buf n s) = n \<and>
       enabled (snd (uroam_enabled_store kstrtoint buf n s)) = (v \<noteq> 0)) \<and>
    (kstrtoint buf = Inl e \<longrightarrow> uroam_enabled_store kstrtoint buf n s = (e, s))"
  by (cases s) (simp add: uroam_enabled_store_def uroam_enabled_show_def assms kdo_def Let_def)


theorem enabled_attribute_witness:
  "enabled (snd (uroam_enabled_store (\<lambda>b. Inr (c_atoi b)) (uroam_enabled_show nl_boot) 2
      (nl_boot\<lparr>enabled := False\<rparr>))) = False \<and>
   enabled (snd (uroam_enabled_store (\<lambda>b. Inr (c_atoi b)) ''-3'' 2 nl_boot))"
proof -
  have "\<And>b. (Inr (c_atoi (dec_int (of_bool b) @ newline)) :: int + int) = Inr (of_bool b)"
    by (case_tac b, simp_all only: sum.inject of_bool_eq) code_simp+
  from enabled_attribute [of "\<lambda>b. Inr (c_atoi b)" "nl_boot\<lparr>enabled := False\<rparr>" 2, OF this]
    enabled_attribute [of "\<lambda>b. Inr (c_atoi b)" nl_boot 2 "''-3''" "- 3", OF this]
  show ?thesis
    by (simp add: uroam_enabled_show_def nl_boot_def nl_state.defs uroam_state.defs
        uroam_global_state_def c_atoi_def is_cspace_def is_cdigit_def digits_value_def)
qed

end
