(* ===== verification/Proc_Text.thy ===== *)
theory Proc_Text
  imports Kernel_Core
begin

section \<open>Reading the files under /proc/uroam: kernel/main.c\<close>

text \<open>
  What a program that reads the files can tell of the module's state: a reader that splits the text
  into lines and takes the number behind a separator gets the numbers back that the module
  printed. The status file is printed under the state lock, so its lines belong to one state.
\<close>

subsection \<open>The reader\<close>

fun text_lines :: "string \<Rightarrow> string list" where
  "text_lines [] = []"
| "text_lines (c # cs) =
     (if c = CHR 0x0A then [] # text_lines cs
      else case text_lines cs of [] \<Rightarrow> [[c]] | l # ls \<Rightarrow> (c # l) # ls)"

definition number_behind :: "char \<Rightarrow> string \<Rightarrow> int" where
  "number_behind sep line =
     digits_value (dropWhile (\<lambda>c. c = CHR '' '') (tl (dropWhile (\<lambda>c. c \<noteq> sep) line)))"

lemma text_lines_line: "CHR 0x0A \<notin> set l \<Longrightarrow> text_lines (l @ CHR 0x0A # rest) = l # text_lines rest"
  by (induction l) auto

lemma dec_no_newline: "CHR 0x0A \<notin> set (dec_digits n)"
  using set_dec_digits [of "CHR 0x0A" n] by (auto simp: is_cdigit_def)

lemma dec_first: "dropWhile (\<lambda>c. c = CHR '' '') (dec_digits n) = dec_digits n"
proof (cases "dec_digits n")
  case (Cons c cs)
  then have "is_cdigit c" using set_dec_digits [of c n] by simp
  then have "c \<noteq> CHR '' ''" by (auto simp: is_cdigit_def)
  with Cons show ?thesis by simp
qed simp

lemma level_no_newline: "CHR 0x0A \<notin> set (uroam_get_pressure_level_str l)"
  by (cases l) (simp_all add: uroam_get_pressure_level_str_def)

lemmas text_simps = text_lines_line dec_no_newline level_no_newline dec_first digits_value_dec

lemma status_lines:
  "text_lines (fst (uroam_proc_status_show s)) =
     [''Module Status: '' @ (if enabled s then ''Enabled'' else ''Disabled''),
      ''Pressure Level: '' @ uroam_get_pressure_level_str (pressure_level s),
      ''Pressure Count: '' @ dec_digits (unat (pressure_count s)),
      ''Allocation Count: '' @ dec_digits (unat (allocation_count s)),
      ''Reclaim Count: '' @ dec_digits (unat (reclaim_count s))]"
  using text_lines_line [of "''Module Status: '' @ (if enabled s then ''Enabled'' else ''Disabled'')"]
    text_lines_line [of "''Pressure Level: '' @ uroam_get_pressure_level_str (pressure_level s)"]
    text_lines_line [of "''Pressure Count: '' @ dec_digits (unat (pressure_count s))"]
    text_lines_line [of "''Allocation Count: '' @ dec_digits (unat (allocation_count s))"]
    text_lines_line [of "''Reclaim Count: '' @ dec_digits (unat (reclaim_count s))" "[]"]
  by (simp add: uroam_proc_status_show_def dec_u64_def Let_def dec_no_newline level_no_newline del: text_lines.simps(2))

lemma config_lines:
  "text_lines (uroam_proc_config_show a b c) =
     [''enable_pressure_monitor='' @ dec_digits (of_bool a),
      ''enable_allocation_hooks='' @ dec_digits (of_bool b),
      ''enable_numa_aware='' @ dec_digits (of_bool c)]"
proof -
  have bit: "dec_int (of_bool x) = dec_digits (of_bool x)" for x
    by (cases x) (simp_all add: dec_int_def)
  show ?thesis
    using text_lines_line [of "''enable_pressure_monitor='' @ dec_digits (of_bool a)"]
      text_lines_line [of "''enable_allocation_hooks='' @ dec_digits (of_bool b)"]
      text_lines_line [of "''enable_numa_aware='' @ dec_digits (of_bool c)" "[]"]
    by (simp add: uroam_proc_config_show_def bit dec_no_newline del: text_lines.simps(2))
qed

subsection \<open>Properties\<close>

text \<open>C18: The files tell the state. A reader of the status file gets back whether the module is enabled,
  the pressure level, as long as it is one of the three the module itself reports, and the three
  counters exactly, up to the largest; the print takes and gives back the state lock and changes
  nothing else. A reader of the configuration file gets back the three parameters.\<close>

theorem proc_files_tell_state:
  "(let (out, s') = uroam_proc_status_show s; ls = text_lines out in
     length ls = 5 \<and>
     (ls ! 0 = ''Module Status: Enabled'' \<longleftrightarrow> enabled s) \<and>
     (ls ! 1 = ''Pressure Level: FULL'' \<longleftrightarrow> pressure_level s = PSI_MEMORY_FULL) \<and>
     (ls ! 1 = ''Pressure Level: SOME'' \<longleftrightarrow> pressure_level s = PSI_MEMORY_SOME) \<and>
     (ls ! 1 = ''Pressure Level: NONE'' \<longleftrightarrow> pressure_level s = PSI_MEMORY_NONE) \<and>
     map (number_behind CHR '':'') (drop 2 ls) =
       [uint (pressure_count s), uint (allocation_count s), uint (reclaim_count s)] \<and>
     s' = s\<lparr>klog := klog s @ [Lock State_lock, Unlock State_lock]\<rparr>) \<and>
   map (number_behind CHR ''='') (text_lines (uroam_proc_config_show a b c)) =
     [of_bool a, of_bool b, of_bool c]"
proof -
  obtain out s' where out: "uroam_proc_status_show s = (out, s')" by fastforce
  have s': "s' = s\<lparr>klog := klog s @ [Lock State_lock, Unlock State_lock]\<rparr>"
    using out by (auto simp: uroam_proc_status_show_def Let_def kdo_def)
  have level: "(uroam_get_pressure_level_str l = ''FULL'' \<longleftrightarrow> l = PSI_MEMORY_FULL) \<and>
      (uroam_get_pressure_level_str l = ''SOME'' \<longleftrightarrow> l = PSI_MEMORY_SOME) \<and>
      (uroam_get_pressure_level_str l = ''NONE'' \<longleftrightarrow> l = PSI_MEMORY_NONE)" for l
    by (cases l) (simp_all add: uroam_get_pressure_level_str_def)
  show ?thesis
    using status_lines [of s] level [of "pressure_level s"] out s'
    by (simp add: number_behind_def dec_first digits_value_dec config_lines)
qed

end
