(* ===== verification/Kernel_Pressure.thy ===== *)
theory Kernel_Pressure
  imports Kernel_Core
begin

section \<open>Memory pressure monitoring: kernel/pressure.c\<close>

text \<open>
  The callback and the poll that turn the kernel's pressure information into notifications,
  the monitoring thread, and the start and stop of the component. A thread pointer is a flag:
  is it non-null. The monitoring thread sleeps between two polls; a wait is represented by what
  it returns and by the value the flag \<open>pressure_monitor_running\<close> has then (another thread
  clears it), so a run of the thread is a function of the list of its waits.
\<close>

record psi_trigger =
  pt_state :: psi_pressure
  pt_threshold :: u32
  pt_state_mask :: u32

record pressure_state = nl_state +
  pressure_monitor_running :: bool
  pressure_monitor_thread :: bool
  the_psi_trigger :: "psi_trigger option"

text \<open>The state at load.\<close>

definition pressure_boot :: pressure_state where
  "pressure_boot = nl_state.extend nl_boot (pressure_state.fields False False None)"

definition pressure_threshold :: u32 where "pressure_threshold = 80"

lemma kdo_pressure_frame [simp]:
  "pressure_monitor_running (kdo c t) = pressure_monitor_running t"
  "pressure_monitor_thread (kdo c t) = pressure_monitor_thread t"
  "the_psi_trigger (kdo c t) = the_psi_trigger t"
  by (simp_all add: kdo_def)

subsection \<open>The poll\<close>

definition uroam_psi_update :: "kenv \<Rightarrow> bool \<Rightarrow> 'a nl_state_scheme \<Rightarrow> 'a nl_state_scheme" where
  "uroam_psi_update K st s =
     (if st then uroam_notify_pressure K PSI_MEMORY_FULL s
      else uroam_notify_pressure K PSI_MEMORY_NONE s)"

definition uroam_psi_monitor :: "kenv \<Rightarrow> 'a nl_state_scheme \<Rightarrow> 'a nl_state_scheme" where
  "uroam_psi_monitor K s =
     (let (some_avail, full_avail) = psi_read K (klog s);
          s1 = kdo (Service Psi_read) s
      in if full_avail = 0 then uroam_notify_pressure K PSI_MEMORY_FULL s1
         else if some_avail = 0 then uroam_notify_pressure K PSI_MEMORY_SOME s1
         else uroam_notify_pressure K PSI_MEMORY_NONE s1)"

text \<open>
  The three numbers the optimisation step computes for its debug message (total, free,
  available, in pages). The actions behind its switch are comments, so its effect on the
  state is the call of \<open>si_meminfo\<close>.
\<close>

definition optimization_numbers :: "sysinfo \<Rightarrow> u64 \<times> u64 \<times> u64" where
  "optimization_numbers si =
     (totalram si,
      freeram si + bufferram si + totalram si - freeram si - bufferram si,
      freeram si + bufferram si)"

definition uroam_pressure_based_optimization ::
  "kenv \<Rightarrow> psi_pressure \<Rightarrow> 'a kworld_scheme \<Rightarrow> (u64 \<times> u64 \<times> u64) \<times> 'a kworld_scheme" where
  "uroam_pressure_based_optimization K level s =
     (optimization_numbers (meminfo K (klog s)), kdo (Service Si_meminfo) s)"

definition uroam_pressure_check :: "kenv \<Rightarrow> 'a nl_state_scheme \<Rightarrow> 'a nl_state_scheme" where
  "uroam_pressure_check K s =
     (if \<not> enabled s then s
      else
        let (some_avail, full_avail) = psi_read K (klog s);
            s1 = kdo (Service Psi_read) s
        in if full_avail = 0
           then snd (uroam_pressure_based_optimization K PSI_MEMORY_FULL
                  (uroam_notify_pressure K PSI_MEMORY_FULL s1))
           else if some_avail = 0
           then snd (uroam_pressure_based_optimization K PSI_MEMORY_SOME
                  (uroam_notify_pressure K PSI_MEMORY_SOME s1))
           else snd (uroam_pressure_based_optimization K PSI_MEMORY_NONE
                  (uroam_notify_pressure K PSI_MEMORY_NONE s1)))"

subsection \<open>The monitoring thread\<close>

text \<open>
  \<open>pressure_monitor_fn\<close>: one element \<open>(ret, running)\<close> per wait. The second component of
  the result is whether the thread function has returned; with no wait left it sleeps.
\<close>

fun pressure_monitor_fn ::
  "kenv \<Rightarrow> (int \<times> bool) list \<Rightarrow> 'a pressure_state_scheme \<Rightarrow> 'a pressure_state_scheme \<times> bool" where
  "pressure_monitor_fn K ws s =
     (if \<not> pressure_monitor_running s then (s, True)
      else
        let s1 = kdo (Service (Wait_event Pressure_thread)) (uroam_pressure_check K s)
        in (case ws of
              [] \<Rightarrow> (s1, False)
            | (ret, running) # ws' \<Rightarrow>
                let s2 = s1\<lparr>pressure_monitor_running := running\<rparr>
                in if ret = 0 then pressure_monitor_fn K ws' s2 else (s2, True)))"

declare pressure_monitor_fn.simps [simp del]

subsection \<open>Start and stop\<close>

definition uroam_pressure_init ::
  "kenv \<Rightarrow> 'a pressure_state_scheme \<Rightarrow> int \<times> 'a pressure_state_scheme" where
  "uroam_pressure_init K s =
     (let ret = psi_group_init_ret K (klog s);
          s1 = kdo (Acquire R_psi_group (0 \<le> ret)) s
      in if ret < 0 then (ret, s1)
         else
           let s2 = s1\<lparr>the_psi_trigger := Some \<lparr>pt_state = PSI_MEMORY_SOME,
                 pt_threshold = pressure_threshold,
                 pt_state_mask = or (push_bit (unat (psi_value K PSI_MEMORY_SOME)) 1)
                                    (push_bit (unat (psi_value K PSI_MEMORY_FULL)) 1)\<rparr>\<rparr>;
               ret = psi_trigger_create_ret K (klog s2);
               s3 = kdo (Acquire R_psi_trigger (0 \<le> ret)) s2
           in if ret < 0 then (ret, kdo (Release R_psi_group) s3)
              else
                let s4 = kdo (Service (Init_waitqueue_head Pressure_thread)) s3;
                    s5 = s4\<lparr>pressure_monitor_running := True\<rparr>;
                    err = kthread_run_ret K (klog s5);
                    s6 = kdo (Acquire (R_thread Pressure_thread) (0 \<le> err))
                           (s5\<lparr>pressure_monitor_thread := True\<rparr>)
                in if err < 0
                   then (ret, kdo (Release R_psi_group) (kdo (Release R_psi_trigger)
                                (s6\<lparr>pressure_monitor_running := False\<rparr>)))
                   else (0, s6))"

definition uroam_pressure_exit :: "'a pressure_state_scheme \<Rightarrow> 'a pressure_state_scheme" where
  "uroam_pressure_exit s =
     (let s1 =
        (if pressure_monitor_running s
         then
           let s2 = kdo (Service (Wake_up_all Pressure_thread)) (s\<lparr>pressure_monitor_running := False\<rparr>)
           in (if pressure_monitor_thread s2
               then (kdo (Release (R_thread Pressure_thread)) s2)\<lparr>pressure_monitor_thread := False\<rparr>
               else s2)
         else s)
      in kdo (Release R_psi_group) (kdo (Release R_psi_trigger) s1))"

subsection \<open>Lemmas\<close>

text \<open>The level a poll finds.\<close>

definition polled_level :: "u64 \<times> u64 \<Rightarrow> psi_pressure" where
  "polled_level r =
     (if snd r = 0 then PSI_MEMORY_FULL else if fst r = 0 then PSI_MEMORY_SOME else PSI_MEMORY_NONE)"

lemma pressure_check_eq:
  "uroam_pressure_check K s =
     (if enabled s
      then kdo (Service Si_meminfo) (uroam_notify_pressure K (polled_level (psi_read K (klog s)))
             (kdo (Service Psi_read) s))
      else s)"
  by (simp add: uroam_pressure_check_def polled_level_def uroam_pressure_based_optimization_def
      split: prod.splits)

lemma psi_monitor_eq:
  "uroam_psi_monitor K s = uroam_notify_pressure K (polled_level (psi_read K (klog s)))
     (kdo (Service Psi_read) s)"
  by (simp add: uroam_psi_monitor_def polled_level_def split: prod.splits)

lemma pressure_check_running [simp]:
  "pressure_monitor_running (uroam_pressure_check K s) = pressure_monitor_running s"
  by (simp add: pressure_check_eq notify_pressure_eq)

lemma notify_frame [simp]:
  "enabled (uroam_notify_pressure K l s) = enabled s"
  "uroam_nl_sock (uroam_notify_pressure K l s) = uroam_nl_sock s"
  "tracked_count (uroam_notify_pressure K l s) = tracked_count s"
  by (simp_all add: notify_pressure_eq)

lemma pressure_check_locks:
  "\<exists>cs. klog (uroam_pressure_check K s) = klog s @ cs \<and>
     (\<forall>h. set h \<inter> {State_lock, Nl_mutex} = {} \<longrightarrow> lock_run h cs = Some h)"
  by (auto simp: pressure_check_eq notify_pressure_eq lock_run_append lock_run_notify_calls)

interpretation check: locked_op "\<lambda>_ :: unit. uroam_pressure_check K" klog "{State_lock, Nl_mutex}" for K
  by unfold_locales (rule pressure_check_locks)

text \<open>Group and trigger come up and the thread cannot be created, from the log \<open>h\<close> on.\<close>

definition thread_refused :: "kenv \<Rightarrow> kcall list \<Rightarrow> bool" where
  "thread_refused K h \<longleftrightarrow>
     0 \<le> psi_group_init_ret K h \<and>
     0 \<le> psi_trigger_create_ret K (h @ [Acquire R_psi_group True]) \<and>
     kthread_run_ret K (h @ [Acquire R_psi_group True, Acquire R_psi_trigger True,
       Service (Init_waitqueue_head Pressure_thread)]) < 0"

subsection \<open>Properties\<close>

text \<open>A poll of a disabled module does nothing. A poll of an enabled one notifies exactly once,
  by the level the reading stands for: FULL when no task can run for want of memory
  (the second number is 0), else SOME when the first is 0, else NONE; the poll changes nothing
  else but the log and the sequence number of messages.\<close>

theorem pressure_check_spec:
  "(let s' = uroam_pressure_check K s; (some_avail, full_avail) = psi_read K (klog s) in
    if enabled s
    then pressure_level s' =
        (if full_avail = 0 then PSI_MEMORY_FULL
         else if some_avail = 0 then PSI_MEMORY_SOME else PSI_MEMORY_NONE) \<and>
      pressure_count s' = pressure_count s + 1 \<and>
      (\<exists>log seq now. s' = s\<lparr>klog := log, pressure_level := pressure_level s',
         pressure_count := pressure_count s', last_pressure_time := now, uroam_nl_seq := seq\<rparr>)
    else s' = s)"
proof (cases "enabled s")
  case True
  let ?s1 = "kdo (Service Psi_read) s"
  let ?l = "polled_level (psi_read K (klog s))"
  have "uroam_pressure_check K s =
    s\<lparr>klog := klog s @ Service Psi_read # notify_calls K ?l ?s1 @ [Service Si_meminfo],
      pressure_level := ?l, pressure_count := pressure_count s + 1,
      last_pressure_time := jiffies K (klog s @ [Service Psi_read, Lock State_lock]),
      uroam_nl_seq := next_seq K UROAM_NL_MSG_PRESSURE
        (bytes_pressure (pressure_msg K ?l (notified K ?l ?s1))) 0 (notified K ?l ?s1)\<rparr>"
    using True by (simp add: pressure_check_eq notify_pressure_eq) (simp add: kdo_def)
  then obtain log now seq where eq: "uroam_pressure_check K s =
    s\<lparr>klog := log, pressure_level := ?l, pressure_count := pressure_count s + 1,
      last_pressure_time := now, uroam_nl_seq := seq\<rparr>"
    by blast
  then show ?thesis
    using True by (auto simp: eq Let_def polled_level_def split: prod.splits)
next
  case False
  then show ?thesis by (simp add: pressure_check_eq)
qed

text \<open>The monitoring thread ends: as soon as one of its waits returns something other than the
  time-out, or the flag is found cleared after a wait, the thread function returns, whatever
  the kernel answered before (unless a notification it makes waits for itself,
  \<open>notification_waits_for_itself\<close>).\<close>

theorem pressure_monitor_returns:
  assumes "(ret, running) \<in> set ws" and "ret \<noteq> 0 \<or> \<not> running"
  shows "snd (pressure_monitor_fn K ws s)"
  using assms
proof (induction ws arbitrary: s)
  case Nil
  then show ?case by simp
next
  case (Cons w ws)
  obtain r b where w: "w = (r, b)" by fastforce
  let ?t = "(kdo (Service (Wait_event Pressure_thread)) (uroam_pressure_check K s))
    \<lparr>pressure_monitor_running := b\<rparr>"
  have "snd (pressure_monitor_fn K ws ?t)" if "r = 0"
  proof (cases b)
    case True
    with that w Cons.prems have "(ret, running) \<in> set ws" by auto
    then show ?thesis using Cons.prems(2) by (rule Cons.IH)
  next
    case False
    then show ?thesis by (simp add: pressure_monitor_fn.simps)
  qed
  then show ?case
    by (simp add: w pressure_monitor_fn.simps [of K "(r, b) # ws"] Let_def)
qed

theorem pressure_monitor_returns_witness:
  "snd (pressure_monitor_fn (kernel_ok 1 (\<lambda>_. None)) [(0, True), (0, True), (1, True)]
     (pressure_boot\<lparr>pressure_monitor_running := True\<rparr>))"
  by (rule pressure_monitor_returns [of 1 True]) simp_all

text \<open>C31: Start and stop of the component are balanced in every case but one: after a successful
  start, stopping gives everything back, and a start that fails leaves nothing behind. When the
  thread cannot be created (\<open>thread_refused\<close>), the start has given everything back but reports
  success (the non-negative result of creating the trigger), so that stopping gives trigger and
  group back a second time.\<close>

theorem pressure_start_stop_account:
  assumes "\<not> pressure_monitor_running s"
  shows "let (ret, t) = uroam_pressure_init K s in
    (ret < 0 \<longrightarrow> held r (klog t) = held r (klog s)) \<and>
    (0 \<le> ret \<longrightarrow> held r (klog (uroam_pressure_exit t)) =
       held r (klog s) - (if thread_refused K (klog s) \<and> r \<in> {R_psi_trigger, R_psi_group} then 1 else 0)) \<and>
    (thread_refused K (klog s) \<longrightarrow> 0 \<le> ret \<and> held r (klog t) = held r (klog s))"
  using assms
  by (auto simp: thread_refused_def uroam_pressure_init_def uroam_pressure_exit_def Let_def
      not_less)

theorem pressure_start_stop_account_witness:
  "let K = (kernel_ok 1 (\<lambda>_. None))\<lparr>kthread_run_ret := (\<lambda>_. - 12)\<rparr>;
       (ret, t) = uroam_pressure_init K pressure_boot
   in thread_refused K [] \<and> ret = 0 \<and> held R_psi_trigger (klog (uroam_pressure_exit t)) = - 1"
proof -
  let ?K = "(kernel_ok 1 (\<lambda>_. None))\<lparr>kthread_run_ret := (\<lambda>_. - 12)\<rparr>"
  have "\<not> pressure_monitor_running pressure_boot" and k: "klog pressure_boot = []"
    by (simp_all add: pressure_boot_def pressure_state.defs nl_boot_def nl_state.defs
        uroam_state.defs uroam_global_state_def)
  from pressure_start_stop_account [OF this(1), of ?K R_psi_trigger]
  show ?thesis
    by (simp add: thread_refused_def kernel_ok_def k)
       (simp add: uroam_pressure_init_def Let_def)
qed

text \<open>The amount the optimisation step calls free memory is the total memory, whatever is
  free: the free and the buffer pages are added and subtracted again.\<close>

theorem optimization_free_is_total:
  "fst (snd (fst (uroam_pressure_based_optimization K level s))) = totalram (meminfo K (klog s))"
  by (simp add: uroam_pressure_based_optimization_def optimization_numbers_def)

end
