(* ===== verification/Kernel_Hooks.thy ===== *)
theory Kernel_Hooks
  imports Kernel_Pressure
begin

section \<open>Allocation hooks: kernel/hooks.c\<close>

text \<open>
  The counters the hooks keep, the two ways to install hooks (a trace buffer, or probes on the
  system calls), the replacement system calls and the probe handler. Pointers to the buffer
  and to functions are flags and addresses (0 is null). What a hook finds about its caller is
  its argument \<open>hook_ctx\<close>; the original system call behind a pointer is an argument too, as
  the result it returns.
\<close>

record uroam_alloc_record =
  ar_address :: u64
  ar_size :: u64
  ar_gfp_flags :: u32
  ar_numa_node :: int
  ar_pid :: int
  ar_timestamp :: u64
  ar_type :: int

definition zero_alloc_record :: uroam_alloc_record where
  "zero_alloc_record = \<lparr>ar_address = 0, ar_size = 0, ar_gfp_flags = 0, ar_numa_node = 0,
     ar_pid = 0, ar_timestamp = 0, ar_type = 0\<rparr>"

record hooks_state = pressure_state +
  alloc_records :: "nat \<Rightarrow> uroam_alloc_record"
  ftrace_buffer :: bool
  ftrace_enabled :: bool
  use_ftrace :: bool
  total_mmap_bytes :: u64
  total_brk_bytes :: u64
  total_malloc_bytes :: u64
  original_sys_mmap :: u64
  original_sys_brk :: u64
  kp_mmap_addr :: u64
  kp_brk_addr :: u64
  mmap_hooked :: bool
  brk_hooked :: bool

record hook_ctx =
  hc_cpu :: nat
  hc_pid :: int
  hc_ktime :: u64
  hc_numa_node :: int
  hc_mm :: "mm_struct option"

definition hooks_boot :: hooks_state where
  "hooks_boot = pressure_state.extend pressure_boot
     (hooks_state.fields (\<lambda>_. zero_alloc_record) False False True 0 0 0 0 0 0 0 False False)"

lemma kdo_hooks_frame [simp]:
  "alloc_records (kdo c t) = alloc_records t"
  "ftrace_buffer (kdo c t) = ftrace_buffer t"
  "ftrace_enabled (kdo c t) = ftrace_enabled t"
  "use_ftrace (kdo c t) = use_ftrace t"
  "total_mmap_bytes (kdo c t) = total_mmap_bytes t"
  "total_brk_bytes (kdo c t) = total_brk_bytes t"
  "total_malloc_bytes (kdo c t) = total_malloc_bytes t"
  "original_sys_mmap (kdo c t) = original_sys_mmap t"
  "original_sys_brk (kdo c t) = original_sys_brk t"
  "mmap_hooked (kdo c t) = mmap_hooked t"
  "brk_hooked (kdo c t) = brk_hooked t"
  by (simp_all add: kdo_def)

subsection \<open>Hooks and counters\<close>

definition uroam_ftrace_hook_mmap_entry :: "u64 \<Rightarrow> 'a hooks_state_scheme \<Rightarrow> 'a hooks_state_scheme" where
  "uroam_ftrace_hook_mmap_entry len s =
     (if \<not> enabled s then s else s\<lparr>total_mmap_bytes := total_mmap_bytes s + len\<rparr>)"

definition uroam_ftrace_hook_brk_entry ::
  "hook_ctx \<Rightarrow> u64 \<Rightarrow> 'a hooks_state_scheme \<Rightarrow> 'a hooks_state_scheme" where
  "uroam_ftrace_hook_brk_entry c brk s =
     (if \<not> enabled s then s
      else case hc_mm c of
          None \<Rightarrow> s
        | Some mm \<Rightarrow>
            let old_brk = mm_brk mm;
                delta = (if old_brk < brk then brk - old_brk else 0)
            in s\<lparr>total_brk_bytes := total_brk_bytes s + delta\<rparr>)"

definition uroam_record_alloc_event ::
  "hook_ctx \<Rightarrow> int \<Rightarrow> u64 \<Rightarrow> u32 \<Rightarrow> int \<Rightarrow> 'a hooks_state_scheme \<Rightarrow> 'a hooks_state_scheme" where
  "uroam_record_alloc_event c ty sz gfp_flags numa_node s =
     s\<lparr>alloc_records := (alloc_records s)(hc_cpu c :=
         (alloc_records s (hc_cpu c))\<lparr>ar_type := ty, ar_size := sz, ar_gfp_flags := gfp_flags,
           ar_numa_node := numa_node, ar_pid := hc_pid c, ar_timestamp := hc_ktime c\<rparr>)\<rparr>"

definition uroam_get_hook_stats :: "'a hooks_state_scheme \<Rightarrow> u64 \<times> u64 \<times> u64" where
  "uroam_get_hook_stats s = (total_mmap_bytes s, total_brk_bytes s, total_malloc_bytes s)"

definition uroam_get_alloc_stats :: "'a hooks_state_scheme \<Rightarrow> u64 \<times> u64 \<times> u64" where
  "uroam_get_alloc_stats s =
     (total_mmap_bytes s, total_brk_bytes s, total_mmap_bytes s + total_brk_bytes s)"

text \<open>
  The replacement of \<open>mmap\<close>: \<open>ret\<close> is what the original call returns. The original is called
  through a pointer that is null until the probe handler has set it.
\<close>

definition uroam_hooked_mmap ::
  "kenv \<Rightarrow> hook_ctx \<Rightarrow> int \<Rightarrow> u64 \<Rightarrow> 'a hooks_state_scheme \<Rightarrow> int \<times> 'a hooks_state_scheme" where
  "uroam_hooked_mmap K c ret len s =
     (let numa_node = hc_numa_node c
      in if original_sys_mmap s = 0 then (ret, kdo (Null_call ''original_sys_mmap'') s)
         else
         (ret,
          if 0 \<le> ret \<and> enabled s
          then uroam_record_alloc_event c 0 len (gfp_kernel K) numa_node
                 (uroam_record_allocation len (gfp_kernel K) numa_node
                   (s\<lparr>total_mmap_bytes := total_mmap_bytes s + len\<rparr>))
          else s))"

text \<open>\<open>old_brk\<close> is the break of the calling process before the call. The test \<open>0 \<le> ret\<close> is the
  code's; \<open>sys_brk\<close> reports failure by returning the break as it was, which passes it.\<close>

definition uroam_hooked_brk ::
  "kenv \<Rightarrow> hook_ctx \<Rightarrow> int \<Rightarrow> u64 \<Rightarrow> u64 \<Rightarrow> 'a hooks_state_scheme \<Rightarrow> int \<times> 'a hooks_state_scheme" where
  "uroam_hooked_brk K c ret old_brk brk s =
     (if original_sys_brk s = 0 then (ret, kdo (Null_call ''original_sys_brk'') s)
      else
     (ret,
      if 0 \<le> ret \<and> enabled s
      then
        let sz = (if old_brk < brk then brk - old_brk else 0)
        in if 0 < sz
           then uroam_record_alloc_event c 1 sz (gfp_kernel K) 0
                  (uroam_record_allocation sz (gfp_kernel K) 0
                    (s\<lparr>total_brk_bytes := total_brk_bytes s + sz\<rparr>))
           else s
      else s))"

text \<open>The handler: \<open>hooked\<close> is the address of the replacement of the probed call.\<close>

definition uroam_kprobe_handler ::
  "u64 \<Rightarrow> kprobe_id \<Rightarrow> 'a hooks_state_scheme \<Rightarrow> 'a hooks_state_scheme" where
  "uroam_kprobe_handler hooked p s =
     (if \<not> enabled s then s
      else case p of
          Kp_mmap \<Rightarrow>
            (if original_sys_mmap s = 0 \<and> kp_mmap_addr s \<noteq> 0
             then s\<lparr>original_sys_mmap := kp_mmap_addr s, kp_mmap_addr := hooked\<rparr>
             else s\<lparr>kp_mmap_addr := hooked\<rparr>)
        | Kp_brk \<Rightarrow>
            (if original_sys_brk s = 0 \<and> kp_brk_addr s \<noteq> 0
             then s\<lparr>original_sys_brk := kp_brk_addr s, kp_brk_addr := hooked\<rparr>
             else s\<lparr>kp_brk_addr := hooked\<rparr>))"

subsection \<open>Start and stop\<close>

definition uroam_ftrace_init :: "kenv \<Rightarrow> 'a hooks_state_scheme \<Rightarrow> int \<times> 'a hooks_state_scheme" where
  "uroam_ftrace_init K s =
     (if \<not> use_ftrace s then (- ENODEV, s)
      else
        let ok = ring_buffer_ok K (klog s);
            s1 = kdo (Acquire R_ring ok) (s\<lparr>ftrace_buffer := ok\<rparr>)
        in if \<not> ok then (- ENOMEM, s1) else (0, s1\<lparr>ftrace_enabled := True\<rparr>))"

definition uroam_ftrace_exit :: "'a hooks_state_scheme \<Rightarrow> 'a hooks_state_scheme" where
  "uroam_ftrace_exit s =
     (let s1 = (if ftrace_buffer s then kdo (Release R_ring) (s\<lparr>ftrace_buffer := False\<rparr>) else s)
      in s1\<lparr>ftrace_enabled := False\<rparr>)"

definition uroam_install_kprobes :: "kenv \<Rightarrow> 'a hooks_state_scheme \<Rightarrow> int \<times> 'a hooks_state_scheme" where
  "uroam_install_kprobes K s =
     (if use_ftrace s \<and> ftrace_enabled s then (0, s)
      else
        let ret = register_kprobe_ret K (klog s);
            s1 = kdo (Acquire (R_kprobe Kp_mmap) (0 \<le> ret)) s
        in if ret < 0 then (ret, s1)
           else
             let s2 = s1\<lparr>mmap_hooked := True\<rparr>;
                 ret = register_kprobe_ret K (klog s2);
                 s3 = kdo (Acquire (R_kprobe Kp_brk) (0 \<le> ret)) s2
             in if ret < 0
                then (ret, (kdo (Release (R_kprobe Kp_mmap)) s3)\<lparr>mmap_hooked := False\<rparr>)
                else (0, s3\<lparr>brk_hooked := True\<rparr>))"

definition uroam_remove_kprobes :: "'a hooks_state_scheme \<Rightarrow> 'a hooks_state_scheme" where
  "uroam_remove_kprobes s =
     (let s1 = (if mmap_hooked s
                then (kdo (Release (R_kprobe Kp_mmap)) s)\<lparr>mmap_hooked := False\<rparr> else s)
      in if brk_hooked s1
         then (kdo (Release (R_kprobe Kp_brk)) s1)\<lparr>brk_hooked := False\<rparr> else s1)"

definition uroam_enable_hook_tracing :: "kenv \<Rightarrow> 'a hooks_state_scheme \<Rightarrow> int \<times> 'a hooks_state_scheme" where
  "uroam_enable_hook_tracing K s =
     (if use_ftrace s
      then let (ret, s1) = uroam_ftrace_init K s
           in if ret = 0 then (ret, s1) else uroam_install_kprobes K s1
      else uroam_install_kprobes K s)"

definition uroam_disable_hook_tracing :: "'a hooks_state_scheme \<Rightarrow> 'a hooks_state_scheme" where
  "uroam_disable_hook_tracing s =
     uroam_remove_kprobes (if ftrace_enabled s then uroam_ftrace_exit s else s)"

definition uroam_hooks_init :: "kenv \<Rightarrow> 'a hooks_state_scheme \<Rightarrow> int \<times> 'a hooks_state_scheme" where
  "uroam_hooks_init K s =
     (let (ret, s1) = uroam_enable_hook_tracing K s
      in if ret < 0 then (0, s1) else (ret, s1))"

definition uroam_hooks_exit :: "'a hooks_state_scheme \<Rightarrow> 'a hooks_state_scheme" where
  "uroam_hooks_exit s = uroam_disable_hook_tracing s"

subsection \<open>Lemmas\<close>

lemmas hooks_start_defs = uroam_hooks_init_def uroam_enable_hook_tracing_def uroam_ftrace_init_def
  uroam_install_kprobes_def
lemmas hooks_stop_defs = uroam_hooks_exit_def uroam_disable_hook_tracing_def uroam_ftrace_exit_def
  uroam_remove_kprobes_def

text \<open>No hook installed.\<close>

definition hooks_idle :: "'a hooks_state_scheme \<Rightarrow> bool" where
  "hooks_idle s \<longleftrightarrow> \<not> ftrace_buffer s \<and> \<not> ftrace_enabled s \<and> \<not> mmap_hooked s \<and> \<not> brk_hooked s"

text \<open>The flags tell what is held, relative to a log \<open>h\<close> in which nothing was.\<close>

definition hooks_account :: "kcall list \<Rightarrow> 'a hooks_state_scheme \<Rightarrow> bool" where
  "hooks_account h s \<longleftrightarrow> (ftrace_buffer s \<longleftrightarrow> ftrace_enabled s) \<and>
     (\<forall>r. held r (klog s) = held r h +
        (case r of R_ring \<Rightarrow> of_bool (ftrace_buffer s)
         | R_kprobe Kp_mmap \<Rightarrow> of_bool (mmap_hooked s)
         | R_kprobe Kp_brk \<Rightarrow> of_bool (brk_hooked s) | _ \<Rightarrow> 0))"

lemma hooks_init_account:
  assumes "hooks_idle s"
  shows "hooks_account (klog s) (snd (uroam_hooks_init K s)) \<and> fst (uroam_hooks_init K s) = 0"
  using assms
  by (auto simp: hooks_account_def hooks_idle_def hooks_start_defs Let_def split: resource.splits
      kprobe_id.splits)

lemma hooks_exit_account:
  assumes "hooks_account h s"
  shows "held r (klog (uroam_hooks_exit s)) = held r h \<and> hooks_idle (uroam_hooks_exit s)"
  using assms
  by (auto simp: hooks_account_def hooks_idle_def hooks_stop_defs Let_def split: resource.splits
      kprobe_id.splits)

subsection \<open>Calls that pass through the hooks\<close>

datatype hooked_call =
    Call_mmap hook_ctx int u64
  | Call_brk hook_ctx int u64 u64

fun hooked_step :: "kenv \<Rightarrow> 'a hooks_state_scheme \<Rightarrow> hooked_call \<Rightarrow> 'a hooks_state_scheme" where
  "hooked_step K s (Call_mmap c ret len) = snd (uroam_hooked_mmap K c ret len s)"
| "hooked_step K s (Call_brk c ret old brk) = snd (uroam_hooked_brk K c ret old brk s)"

text \<open>What a call adds to the two counters, and whether it counts as an allocation.\<close>

fun mmap_part :: "hooked_call \<Rightarrow> u64" where
  "mmap_part (Call_mmap c ret len) = (if 0 \<le> ret then len else 0)"
| "mmap_part _ = 0"

fun brk_part :: "hooked_call \<Rightarrow> u64" where
  "brk_part (Call_brk c ret old brk) = (if 0 \<le> ret \<and> old < brk then brk - old else 0)"
| "brk_part _ = 0"

fun counts :: "hooked_call \<Rightarrow> bool" where
  "counts (Call_mmap c ret len) = (0 \<le> ret)"
| "counts (Call_brk c ret old brk) = (0 \<le> ret \<and> old < brk)"

text \<open>The probe handler has set the pointers to the original calls.\<close>

definition originals_known :: "'a hooks_state_scheme \<Rightarrow> bool" where
  "originals_known s \<longleftrightarrow> original_sys_mmap s \<noteq> 0 \<and> original_sys_brk s \<noteq> 0"

lemma hooked_step_counters:
  assumes "enabled s" and "originals_known s"
  shows "enabled (hooked_step K s x)" and "originals_known (hooked_step K s x)"
    and "total_mmap_bytes (hooked_step K s x) = total_mmap_bytes s + mmap_part x"
    and "total_brk_bytes (hooked_step K s x) = total_brk_bytes s + brk_part x"
    and "total_malloc_bytes (hooked_step K s x) = total_malloc_bytes s"
    and "allocation_count (hooked_step K s x) = allocation_count s + of_bool (counts x)"
proof -
  have "0 < b - a" if "a < b" for a b :: u64
    using that by (simp add: word_gt_0)
  then show "enabled (hooked_step K s x)" and "originals_known (hooked_step K s x)"
    and "total_mmap_bytes (hooked_step K s x) = total_mmap_bytes s + mmap_part x"
    and "total_brk_bytes (hooked_step K s x) = total_brk_bytes s + brk_part x"
    and "total_malloc_bytes (hooked_step K s x) = total_malloc_bytes s"
    and "allocation_count (hooked_step K s x) = allocation_count s + of_bool (counts x)"
    using assms
    by (cases x; simp add: uroam_hooked_mmap_def uroam_hooked_brk_def uroam_record_alloc_event_def
        record_allocation_eq originals_known_def Let_def)+
qed

lemma hooked_step_disabled: "\<not> enabled s \<Longrightarrow> originals_known s \<Longrightarrow> hooked_step K s x = s"
  by (cases x) (simp_all add: uroam_hooked_mmap_def uroam_hooked_brk_def originals_known_def)

lemma hooked_run_disabled: "\<not> enabled s \<Longrightarrow> originals_known s \<Longrightarrow> foldl (hooked_step K) s xs = s"
  by (induction xs) (simp_all add: hooked_step_disabled)

interpretation hooked: machine "hooked_step K" "\<lambda>s. (enabled s \<and> originals_known s) \<and> total_malloc_bytes s = 0" for K
  by unfold_locales (simp add: hooked_step_counters)

subsection \<open>Properties\<close>

text \<open>Starting the hooks from idle always reports success, whatever fails inside, and stopping
  them afterwards gives back the trace buffer and the probes that were obtained, each once,
  and leaves the hooks idle.\<close>

theorem hooks_start_stop_account:
  assumes "hooks_idle s"
  shows "let (ret, t) = uroam_hooks_init K s; u = uroam_hooks_exit t in
    ret = 0 \<and> held r (klog u) = held r (klog s) \<and> hooks_idle u"
  using hooks_init_account [OF assms, of K] hooks_exit_account [of "klog s" "snd (uroam_hooks_init K s)" r]
  by (simp add: case_prod_beta Let_def)

theorem hooks_start_stop_account_witness:
  "hooks_idle hooks_boot \<and>
   held (R_kprobe Kp_mmap) (klog (uroam_hooks_exit (snd (uroam_hooks_init
     ((kernel_ok 1 (\<lambda>_. None))\<lparr>ring_buffer_ok := (\<lambda>_. False)\<rparr>) hooks_boot)))) = 0"
proof -
  have idle: "hooks_idle hooks_boot" and k: "klog hooks_boot = []"
    by (simp_all add: hooks_idle_def hooks_boot_def hooks_state.defs pressure_boot_def
        pressure_state.defs nl_boot_def nl_state.defs uroam_state.defs uroam_global_state_def)
  from hooks_start_stop_account [OF idle,
      of "(kernel_ok 1 (\<lambda>_. None))\<lparr>ring_buffer_ok := (\<lambda>_. False)\<rparr>" "R_kprobe Kp_mmap"]
  show ?thesis by (simp add: idle k case_prod_beta Let_def)
qed

text \<open>C10: While the module is enabled and the probe handler knows the original calls, after any run of
  hooked calls the mmap counter has grown by the lengths of the mappings whose call returned no
  negative number; the brk counter by the difference between the break asked for and the break
  before, over the calls that asked for a larger break and returned no negative number (a
  \<open>sys_brk\<close> that fails returns the old break and is among them); the allocation counter by one for
  each of those calls; and the reported total is the sum of the two (all modulo 2 to the 64).
  The counter for malloc never moves. Disabled, nothing is counted.\<close>

theorem hooks_count_calls:
  assumes "enabled s" and "originals_known s"
  shows "let t = foldl (hooked_step K) s xs in
    uroam_get_alloc_stats t =
      (total_mmap_bytes s + sum_list (map mmap_part xs),
       total_brk_bytes s + sum_list (map brk_part xs),
       total_mmap_bytes s + sum_list (map mmap_part xs) +
         (total_brk_bytes s + sum_list (map brk_part xs))) \<and>
    allocation_count t = allocation_count s + of_nat (length (filter counts xs)) \<and>
    (total_malloc_bytes s = 0 \<longrightarrow> snd (snd (uroam_get_hook_stats t)) = 0) \<and>
    foldl (hooked_step K) (s\<lparr>enabled := False\<rparr>) xs = s\<lparr>enabled := False\<rparr>"
proof -
  let ?t = "foldl (hooked_step K) s xs"
  have "total_mmap_bytes ?t = total_mmap_bytes s + sum_list (map mmap_part xs) \<and>
    total_brk_bytes ?t = total_brk_bytes s + sum_list (map brk_part xs) \<and>
    allocation_count ?t = allocation_count s + of_nat (length (filter counts xs))"
    using assms
  proof (induction xs arbitrary: s)
    case Nil
    then show ?case by simp
  next
    case (Cons x xs)
    from Cons.IH [of "hooked_step K s x"] Cons.prems show ?case
      by (simp add: hooked_step_counters ac_simps)
  qed
  moreover have "foldl (hooked_step K) (s\<lparr>enabled := False\<rparr>) xs = s\<lparr>enabled := False\<rparr>"
    by (rule hooked_run_disabled) (use assms(2) in \<open>simp_all add: originals_known_def\<close>)
  moreover have "total_malloc_bytes s = 0 \<longrightarrow> total_malloc_bytes ?t = 0"
    using hooked.inv_run [of s K xs] assms by simp
  ultimately show ?thesis
    by (simp add: Let_def uroam_get_alloc_stats_def uroam_get_hook_stats_def)
qed


theorem hooks_count_calls_witness:
  "let c = \<lparr>hc_cpu = 0, hc_pid = 7, hc_ktime = 1, hc_numa_node = 0, hc_mm = None\<rparr>;
       s = hooks_boot\<lparr>enabled := True, original_sys_mmap := 4096, original_sys_brk := 8192\<rparr>;
       t = foldl (hooked_step (kernel_ok 1 (\<lambda>_. None))) s
             [Call_mmap c 4096 100, Call_mmap c (- 12) 50, Call_brk c 30 10 30]
   in uroam_get_alloc_stats t = (100, 20, 120) \<and> allocation_count t = 2"
  using hooks_count_calls [of "hooks_boot\<lparr>enabled := True, original_sys_mmap := 4096,
      original_sys_brk := 8192\<rparr>" "kernel_ok 1 (\<lambda>_. None)"
    "[Call_mmap \<lparr>hc_cpu = 0, hc_pid = 7, hc_ktime = 1, hc_numa_node = 0, hc_mm = None\<rparr> 4096 100,
      Call_mmap \<lparr>hc_cpu = 0, hc_pid = 7, hc_ktime = 1, hc_numa_node = 0, hc_mm = None\<rparr> (- 12) 50,
      Call_brk \<lparr>hc_cpu = 0, hc_pid = 7, hc_ktime = 1, hc_numa_node = 0, hc_mm = None\<rparr> 30 10 30]"]
  by (simp add: Let_def originals_known_def hooks_boot_def hooks_state.defs pressure_boot_def pressure_state.defs
      nl_boot_def nl_state.defs uroam_state.defs uroam_global_state_def)

text \<open>A \<open>brk\<close> that fails is counted as an allocation: the call asks for the break \<open>brk\<close>, returns the
  break \<open>old\<close> there was, and the counters grow all the same.\<close>

theorem failed_brk_is_counted:
  assumes "enabled s" and "originals_known s" and "old < brk" and "0 \<le> sint old"
  shows "let t = hooked_step K s (Call_brk c (sint old) old brk) in
    total_brk_bytes t = total_brk_bytes s + (brk - old) \<and> allocation_count t = allocation_count s + 1"
  using hooked_step_counters [OF assms(1,2), of K "Call_brk c (sint old) old brk"] assms(3,4)
  by (simp add: Let_def)

theorem failed_brk_is_counted_witness:
  "total_brk_bytes (hooked_step (kernel_ok 1 (\<lambda>_. None))
     (hooks_boot\<lparr>enabled := True, original_sys_mmap := 4096, original_sys_brk := 8192\<rparr>)
     (Call_brk \<lparr>hc_cpu = 0, hc_pid = 7, hc_ktime = 1, hc_numa_node = 0, hc_mm = None\<rparr> (sint (10 :: u64)) 10 30)) = 20"
  using failed_brk_is_counted [of "hooks_boot\<lparr>enabled := True, original_sys_mmap := 4096,
      original_sys_brk := 8192\<rparr>" 10 30 "kernel_ok 1 (\<lambda>_. None)"
      "\<lparr>hc_cpu = 0, hc_pid = 7, hc_ktime = 1, hc_numa_node = 0, hc_mm = None\<rparr>"]
  by (simp add: Let_def originals_known_def hooks_boot_def hooks_state.defs pressure_boot_def pressure_state.defs
      nl_boot_def nl_state.defs uroam_state.defs uroam_global_state_def)

text \<open>In the default mode no hook is installed: with \<open>use_ftrace\<close> set and the trace buffer
  created, the start reports success and marks tracing as enabled, but registers no probe; the
  calls it makes to the kernel are the one that creates the buffer.\<close>

theorem ftrace_mode_installs_no_hook:
  assumes "use_ftrace s" and "ring_buffer_ok K (klog s)"
  shows "let (ret, t) = uroam_hooks_init K s in
    ret = 0 \<and> ftrace_enabled t \<and> klog t = klog s @ [Acquire R_ring True] \<and>
    mmap_hooked t = mmap_hooked s \<and> brk_hooked t = brk_hooked s"
  using assms by (simp add: hooks_start_defs Let_def)

theorem ftrace_mode_installs_no_hook_witness:
  "let (ret, t) = uroam_hooks_init (kernel_ok 1 (\<lambda>_. None)) hooks_boot
   in ret = 0 \<and> ftrace_enabled t \<and> klog t = [Acquire R_ring True] \<and> \<not> mmap_hooked t"
  using ftrace_mode_installs_no_hook [of hooks_boot "kernel_ok 1 (\<lambda>_. None)"]
  by (simp add: case_prod_beta Let_def hooks_boot_def hooks_state.defs pressure_boot_def pressure_state.defs
      nl_boot_def nl_state.defs uroam_state.defs uroam_global_state_def kernel_ok_def)

end
