(* ===== verification/Kernel_Numa.thy ===== *)
theory Kernel_Numa
  imports Kernel_Hooks
begin

section \<open>NUMA information: kernel/numa.c\<close>

text \<open>
  The distance table, the refresh of the per-node information, the choice of a node for an
  allocation, the policy of a task, and the start and stop of the component. The table is
  \<open>None\<close> while its pointer is null. Node numbers are natural numbers; the module's arrays
  have \<open>MAX_NUMA_NODES\<close> entries and its loops run to \<open>nr_numa_nodes\<close>, which the kernel
  decides, so an access behind the array is possible and is recorded as \<open>Out_of_bounds\<close>.
\<close>

record numa_state = hooks_state +
  nr_numa_nodes :: int
  numa_distance_table :: "(nat \<Rightarrow> u8) option"
  numa_balancer_enabled :: bool

definition numa_boot :: numa_state where
  "numa_boot = hooks_state.extend hooks_boot (numa_state.fields 1 None False)"

lemma kdo_numa_frame [simp]:
  "nr_numa_nodes (kdo c t) = nr_numa_nodes t"
  "numa_distance_table (kdo c t) = numa_distance_table t"
  "numa_balancer_enabled (kdo c t) = numa_balancer_enabled t"
  by (simp_all add: kdo_def)

subsection \<open>Node information\<close>

text \<open>An access to entry \<open>i\<close> of an array of \<open>n\<close> entries.\<close>

definition access :: "string \<Rightarrow> nat \<Rightarrow> nat \<Rightarrow> 'a kworld_scheme \<Rightarrow> 'a kworld_scheme" where
  "access name n i s = kdo_if (n \<le> i) (Out_of_bounds name i) s"

lemma klog_access [simp]: "klog (access a n i s) = klog s @ (if n \<le> i then [Out_of_bounds a i] else [])"
  by (simp add: access_def kdo_if_def)

lemma access_frame [simp]:
  "numa_nodes (access a n i t) = numa_nodes t"
  "numa_distance_table (access a n i t) = numa_distance_table t"
  "nr_numa_nodes (access a n i t) = nr_numa_nodes t"
  by (simp_all add: access_def kdo_if_def)

text \<open>The loops' bound \<open>i < MAX_NUMA_NODES && i < nr_numa_nodes\<close>.\<close>

definition node_bound :: "'a numa_state_scheme \<Rightarrow> nat" where
  "node_bound s = min MAX_NUMA_NODES (nat (nr_numa_nodes s))"

text \<open>Write one field group of entry \<open>node\<close>.\<close>

definition set_numa_node ::
  "nat \<Rightarrow> (uroam_numa_info \<Rightarrow> uroam_numa_info) \<Rightarrow> 'a uroam_state_scheme \<Rightarrow> 'a uroam_state_scheme" where
  "set_numa_node node f s = s\<lparr>numa_nodes := (numa_nodes s)(node := f (numa_nodes s node))\<rparr>"

definition copy_distances :: "nat \<Rightarrow> 'a numa_state_scheme \<Rightarrow> 'a numa_state_scheme" where
  "copy_distances node s =
     (case numa_distance_table s of
        None \<Rightarrow> s
      | Some table \<Rightarrow>
          for_upto (node_bound s)
            (\<lambda>i. for_upto (node_bound s)
              (\<lambda>j t. set_numa_node node
                 (\<lambda>n. n\<lparr>ni_distance := (ni_distance n)
                     (i := ucast (table (node * MAX_NUMA_NODES + j)))\<rparr>)
                 (access ''numa_distance_table'' (MAX_NUMA_NODES * MAX_NUMA_NODES)
                    (node * MAX_NUMA_NODES + j) t)))
            s)"

definition update_one_node :: "kenv \<Rightarrow> nat \<Rightarrow> 'a numa_state_scheme \<Rightarrow> 'a numa_state_scheme" where
  "update_one_node K node s =
     (if \<not> node_online K (klog s) node then s
      else
        let present = node_present_pages K (klog s) node;
            free = node_free_pages K (klog s) node;
            present' = node_present_pages_again K (klog s) node;
            free' = node_free_pages_again K (klog s) node;
            s1 = access ''numa_nodes'' MAX_NUMA_NODES node s;
            s2 = set_numa_node node
                   (\<lambda>n. n\<lparr>ni_total_memory := present * page_size K,
                          ni_free_memory := free * page_size K,
                          ni_used_memory := present * page_size K - free * page_size K,
                          ni_nr_pages := ucast present',
                          ni_nr_free_pages := ucast free'\<rparr>) s1
        in copy_distances node s2)"

definition uroam_numa_update_node_info :: "kenv \<Rightarrow> 'a numa_state_scheme \<Rightarrow> 'a numa_state_scheme" where
  "uroam_numa_update_node_info K s =
     (let s1 = for_upto (nat (nr_numa_nodes s)) (update_one_node K) s
      in s1\<lparr>numa_node_count := word_of_int (nr_numa_nodes s1)\<rparr>)"

definition uroam_numa_init_distance_table :: "kenv \<Rightarrow> 'a numa_state_scheme \<Rightarrow> 'a numa_state_scheme" where
  "uroam_numa_init_distance_table K s =
     (case numa_distance_table s of
        Some _ \<Rightarrow> s
      | None \<Rightarrow>
          let ok = kzalloc_ok K (klog s);
              s1 = kdo (Acquire R_numa_table ok) s
          in if \<not> ok then s1
             else
               let possible = num_possible_nodes K (klog s1);
                   n = node_bound s1;
                   table = for_upto n
                     (\<lambda>i. for_upto n
                       (\<lambda>j t. t(i * MAX_NUMA_NODES + j :=
                          (if int i < possible \<and> int j < possible
                           then word_of_int (node_distance K (klog s1) (int i) (int j))
                           else 20))))
                     (\<lambda>_. 0)
               in s1\<lparr>numa_distance_table := Some table\<rparr>)"

subsection \<open>The node for an allocation\<close>

text \<open>
  The first loop looks for the task's own node, online and with enough free memory; \<open>Some\<close>
  is its early return. The second loop runs over the variable that is to hold the result:
  it returns the variable's value behind the loop. The entries the loops read are those of the
  online nodes (the first loop's: the task's own).
\<close>

fun best_node_local ::
  "kenv \<Rightarrow> kcall list \<Rightarrow> (nat \<Rightarrow> uroam_numa_info) \<Rightarrow> int \<Rightarrow> u64 \<Rightarrow> nat list \<Rightarrow> nat option" where
  "best_node_local K h nodes current_node sz [] = None"
| "best_node_local K h nodes current_node sz (best # rest) =
     (if node_online K h best \<and> int best = current_node \<and> sz \<le> ni_free_memory (nodes best)
      then Some best
      else best_node_local K h nodes current_node sz rest)"

function best_node_scan ::
  "kenv \<Rightarrow> kcall list \<Rightarrow> (nat \<Rightarrow> uroam_numa_info) \<Rightarrow> int \<Rightarrow> u64 \<Rightarrow> nat \<Rightarrow> nat \<Rightarrow> u64 \<Rightarrow> nat" where
  "best_node_scan K h nodes current_node sz n best min_distance =
     (if best < n
      then
        if node_online K h best \<and> sz \<le> ni_free_memory (nodes best)
        then
          let distance = word_of_int (node_distance K h current_node (int best)) :: u64
          in if min_distance = - 1 \<or> distance < min_distance
             then best_node_scan K h nodes current_node sz n (Suc best) distance
             else best_node_scan K h nodes current_node sz n (Suc best) min_distance
        else best_node_scan K h nodes current_node sz n (Suc best) min_distance
      else best)"
  by pat_completeness auto
termination
  by (relation "measure (\<lambda>(K, h, nodes, c, sz, n, best, m). n - best)") auto

declare best_node_scan.simps [simp del]

definition uroam_numa_get_best_node ::
  "kenv \<Rightarrow> int \<Rightarrow> u64 \<Rightarrow> 'a numa_state_scheme \<Rightarrow> int \<times> 'a numa_state_scheme" where
  "uroam_numa_get_best_node K pid sz s =
     (let p = find_get_pid K (klog s) pid;
          s1 = kdo (Acquire R_pid (p \<noteq> None)) s;
          t = (case p of None \<Rightarrow> None | Some q \<Rightarrow> get_pid_task K (klog s1) q);
          s2 = kdo (Acquire R_task (t \<noteq> None)) s1
      in case t of
           None \<Rightarrow> (0, s2)
         | Some task \<Rightarrow>
             let n = nat (nr_numa_nodes s2); current_node = t_numa_node task;
                 online = filter (node_online K (klog s2)) [0..<n];
                 s3 = fold (access ''numa_nodes'' MAX_NUMA_NODES)
                        (filter (\<lambda>i. int i = current_node) online) s2
             in case best_node_local K (klog s2) (numa_nodes s2) current_node sz [0..<n] of
                  Some best \<Rightarrow> (int best, kdo (Release R_task) s3)
                | None \<Rightarrow>
                    (int (best_node_scan K (klog s2) (numa_nodes s2) current_node sz n 0 (- 1)),
                     kdo (Release R_task) (fold (access ''numa_nodes'' MAX_NUMA_NODES) online s3)))"

subsection \<open>Migration, balancing, policy\<close>

text \<open>
  The migration walks over the areas of the process without collecting a page, so its list
  stays empty; what it does to the kernel is to take and give back the references.
\<close>

definition uroam_numa_migrate_pages ::
  "kenv \<Rightarrow> int \<Rightarrow> int \<Rightarrow> int \<Rightarrow> 'a kworld_scheme \<Rightarrow> 'a kworld_scheme" where
  "uroam_numa_migrate_pages K pid from_node to_node s =
     (let p = find_get_pid K (klog s) pid;
          s1 = kdo (Acquire R_pid (p \<noteq> None)) s;
          t = (case p of None \<Rightarrow> None | Some q \<Rightarrow> get_pid_task K (klog s1) q);
          s2 = kdo (Acquire R_task (t \<noteq> None)) s1
      in case t of
           None \<Rightarrow> s2
         | Some task \<Rightarrow>
             let s3 = kdo (Acquire R_mm (t_mm task \<noteq> None)) s2
             in case t_mm task of
                  None \<Rightarrow> kdo (Release R_task) s3
                | Some mm \<Rightarrow>
                    kdo (Release R_task) (kdo (Release R_mm)
                      (kdo (Unlock Page_table_lock) (kdo (Lock Page_table_lock) s3))))"

definition uroam_numa_enable_balancer :: "bool \<Rightarrow> 'a numa_state_scheme \<Rightarrow> 'a numa_state_scheme" where
  "uroam_numa_enable_balancer enable s =
     (let s1 = s\<lparr>numa_balancer_enabled := enable\<rparr>
      in if enable then kdo (Service Schedule_work) (kdo (Service Init_work) s1)
         else kdo (Service Cancel_work_sync) s1)"

text \<open>The work item of the balancer walks over the nodes and does nothing with them.\<close>

definition uroam_numa_balance_work :: "'a numa_state_scheme \<Rightarrow> 'a numa_state_scheme" where
  "uroam_numa_balance_work s =
     (if \<not> numa_balancer_enabled s then s else for_upto (nat (nr_numa_nodes s)) (\<lambda>node t. t) s)"

text \<open>
  The policy of a task. The second component is the task's policy afterwards, \<open>None\<close> when no
  task was found. The case label of the preferred policy is \<open>MPOL_PREFERRED\<close>, as the call in
  its branch has it; the source spells the label \<open>MPOL PREFFERRED\<close>, which does not compile.
  \<open>nodes\<close> is \<open>None\<close> for a null pointer.
\<close>

definition uroam_numa_set_policy ::
  "kenv \<Rightarrow> int \<Rightarrow> mpol_mode \<Rightarrow> int list option \<Rightarrow> int \<Rightarrow> 'a kworld_scheme \<Rightarrow>
     mempolicy option option \<times> 'a kworld_scheme" where
  "uroam_numa_set_policy K pid policy nodes nr_nodes s =
     (let p = find_get_pid K (klog s) pid;
          s1 = kdo (Acquire R_pid (p \<noteq> None)) s;
          t = (case p of None \<Rightarrow> None | Some q \<Rightarrow> get_pid_task K (klog s1) q);
          s2 = kdo (Acquire R_task (t \<noteq> None)) s1
      in case t of
           None \<Rightarrow> (None, s2)
         | Some task \<Rightarrow>
             let known = (policy \<in> {MPOL_DEFAULT, MPOL_PREFERRED, MPOL_BIND, MPOL_INTERLEAVE});
                 wanted = (policy = MPOL_DEFAULT \<or> nodes \<noteq> None \<and> 0 < nr_nodes)
             in if \<not> known then (Some (t_mempolicy task), kdo (Release R_task) s2)
                else
                  let ok = (wanted \<and> mpol_new_ok K (klog s2));
                      s3 = kdo_if wanted (Acquire R_mempolicy ok) s2
                  in if \<not> ok then (Some (t_mempolicy task), kdo (Release R_task) s3)
                     else
                       let s4 = kdo_if (t_mempolicy task \<noteq> None) (Release R_mempolicy) s3
                       in (Some (Some \<lparr>mpol_mode = policy,
                              mpol_preferred_node = (case nodes of Some (n # _) \<Rightarrow> n | _ \<Rightarrow> 0)\<rparr>),
                           kdo (Release R_task) s4))"

subsection \<open>Start, stop, refresh\<close>

definition uroam_numa_available :: "kenv \<Rightarrow> kcall list \<Rightarrow> bool" where
  "uroam_numa_available K h \<longleftrightarrow> 1 < num_possible_nodes K h"

definition uroam_numa_init :: "kenv \<Rightarrow> 'a numa_state_scheme \<Rightarrow> int \<times> 'a numa_state_scheme" where
  "uroam_numa_init K s =
     (if \<not> uroam_numa_available K (klog s) then (0, s\<lparr>nr_numa_nodes := 1\<rparr>)
      else
        let s1 = s\<lparr>nr_numa_nodes := num_online_nodes K (klog s)\<rparr>
        in if nr_numa_nodes s1 \<le> 1 then (0, s1\<lparr>nr_numa_nodes := 1\<rparr>)
           else (0, uroam_numa_update_node_info K (uroam_numa_init_distance_table K s1)))"

definition uroam_numa_exit :: "'a numa_state_scheme \<Rightarrow> 'a numa_state_scheme" where
  "uroam_numa_exit s =
     (let s1 = uroam_numa_enable_balancer False s
      in case numa_distance_table s1 of
           None \<Rightarrow> s1
         | Some _ \<Rightarrow> (kdo (Release R_numa_table) s1)\<lparr>numa_distance_table := None\<rparr>)"

definition uroam_numa_update :: "kenv \<Rightarrow> 'a numa_state_scheme \<Rightarrow> 'a numa_state_scheme" where
  "uroam_numa_update K s =
     (if \<not> uroam_numa_available K (klog s) \<or> nr_numa_nodes s \<le> 1 then s
      else uroam_numa_update_node_info K s)"


subsection \<open>What a refresh writes\<close>

text \<open>A state that differs in the nodes and in recorded accesses behind the arrays only.\<close>

definition numa_write :: "'a numa_state_scheme \<Rightarrow> 'a numa_state_scheme \<Rightarrow> bool" where
  "numa_write s t \<longleftrightarrow>
     (\<exists>cs ns. t = s\<lparr>klog := klog s @ cs, numa_nodes := ns\<rparr> \<and> (\<forall>c \<in> set cs. is_oob c))"

lemma numa_write_refl [simp]: "numa_write s s"
  unfolding numa_write_def by (rule exI [of _ "[]"], rule exI [of _ "numa_nodes s"]) simp

lemma numa_write_trans: "numa_write s t \<Longrightarrow> numa_write t u \<Longrightarrow> numa_write s u"
  by (auto simp: numa_write_def) (metis Un_iff set_append)

lemma numa_write_access [simp]: "numa_write s (access a n i s)"
  unfolding numa_write_def access_def kdo_if_def kdo_def
  by (cases "n \<le> i", rule exI [of _ "[Out_of_bounds a i]"], rule exI [of _ "numa_nodes s"], simp,
      rule exI [of _ "[]"], rule exI [of _ "numa_nodes s"], simp)

lemma numa_write_set_node [simp]: "numa_write s (set_numa_node node f s)"
  unfolding numa_write_def set_numa_node_def
  by (rule exI [of _ "[]"], rule exI [of _ "(numa_nodes s)(node := f (numa_nodes s node))"]) simp

lemma numa_write_for_upto:
  assumes "\<And>i t. numa_write t (body i t)"
  shows "numa_write s (for_upto n body s)"
  by (rule for_upto_invariant [where P = "\<lambda>_ t. numa_write s t"])
     (simp, blast intro: numa_write_trans assms)

lemma numa_write_copy: "numa_write s (copy_distances node s)"
  unfolding copy_distances_def
  by (auto split: option.splits intro!: numa_write_for_upto
      intro: numa_write_trans [OF numa_write_access numa_write_set_node])

lemma numa_write_one: "numa_write s (update_one_node K node s)"
  unfolding update_one_node_def Let_def
  by (auto intro: numa_write_trans [OF numa_write_trans [OF numa_write_access numa_write_set_node]
      numa_write_copy])

lemma numa_write_all: "numa_write s (for_upto n (update_one_node K) s)"
  by (rule numa_write_for_upto) (rule numa_write_one)

lemma numa_write_fields:
  assumes "numa_write s t"
  shows "nr_numa_nodes t = nr_numa_nodes s" "numa_distance_table t = numa_distance_table s"
    "node_bound t = node_bound s" "in_bounds (klog t) \<Longrightarrow> in_bounds (klog s)"
  using assms by (auto simp: numa_write_def node_bound_def)

lemma is_oob_neutral:
  "is_oob c \<Longrightarrow> res_delta r c = 0" "is_oob c \<Longrightarrow> spin_delta c = 0"
  "is_oob c \<Longrightarrow> lock_run h (c # cs) = lock_run h cs" "is_oob c \<Longrightarrow> unicasts (c # cs) = unicasts cs"
  "is_oob c \<Longrightarrow> rank_run h (c # cs) = rank_run h cs"
  by (cases c; simp)+

lemma oob_calls_neutral:
  assumes "\<forall>c \<in> set cs. is_oob c"
  shows "held r cs = 0" "lock_run h cs = Some h" "unicasts cs = []" "rank_run h cs = Some h"
  using assms by (induction cs) (simp_all add: is_oob_neutral)

lemma update_node_info_eq:
  "\<exists>cs ns. uroam_numa_update_node_info K s = s\<lparr>klog := klog s @ cs, numa_nodes := ns,
      numa_node_count := word_of_int (nr_numa_nodes s)\<rparr> \<and> (\<forall>c \<in> set cs. is_oob c)"
proof -
  obtain cs ns where "for_upto (nat (nr_numa_nodes s)) (update_one_node K) s =
      s\<lparr>klog := klog s @ cs, numa_nodes := ns\<rparr>" and "\<forall>c \<in> set cs. is_oob c"
    using numa_write_all [of s "nat (nr_numa_nodes s)" K] by (auto simp: numa_write_def)
  then show ?thesis
    by (intro exI [of _ cs] exI [of _ ns]) (simp add: uroam_numa_update_node_info_def)
qed

lemma update_node_info_locks:
  "\<exists>cs. klog (uroam_numa_update_node_info K s) = klog s @ cs \<and>
     (\<forall>h. set h \<inter> {} = {} \<longrightarrow> lock_run h cs = Some h)"
proof -
  obtain cs ns where "uroam_numa_update_node_info K s = s\<lparr>klog := klog s @ cs, numa_nodes := ns,
      numa_node_count := word_of_int (nr_numa_nodes s)\<rparr>" and "\<forall>c \<in> set cs. is_oob c"
    using update_node_info_eq [of K s] by blast
  then show ?thesis
    by (intro exI [of _ cs]) (simp add: oob_calls_neutral(2))
qed

interpretation node_info: locked_op "\<lambda>_ :: unit. uroam_numa_update_node_info K" klog "{}" for K
  by unfold_locales (rule update_node_info_locks)

text \<open>The distances: both loops write the cell of the outer index, so the last inner index stays.\<close>

definition copied_distance :: "(nat \<Rightarrow> u8) \<Rightarrow> nat \<Rightarrow> nat \<Rightarrow> u32" where
  "copied_distance table node b = ucast (table (node * MAX_NUMA_NODES + (b - 1)))"

lemma copy_inner_nodes:
  fixes s :: "'a numa_state_scheme"
  shows "numa_nodes (for_upto b (\<lambda>j t. set_numa_node node (\<lambda>n. n\<lparr>ni_distance := (ni_distance n)
      (i := ucast (table (node * MAX_NUMA_NODES + j)))\<rparr>) (access a m (k j) t)) s) =
    (numa_nodes s)(node := (numa_nodes s node)\<lparr>ni_distance :=
      (if b = 0 then ni_distance (numa_nodes s node)
       else (ni_distance (numa_nodes s node))(i := copied_distance table node b))\<rparr>)"
  by (induction b) (auto simp: for_upto_Suc set_numa_node_def copied_distance_def fun_eq_iff)

lemma upto_upd: "(\<lambda>i. if i < m then c else d i)(m := c) = (\<lambda>i. if i < Suc m then c else d i)"
  by (auto simp: less_Suc_eq)

lemma copy_distances_nodes:
  assumes "numa_distance_table s = Some table"
  shows "numa_nodes (copy_distances node s) = (numa_nodes s)(node := (numa_nodes s node)
    \<lparr>ni_distance := (\<lambda>i. if i < node_bound s then copied_distance table node (node_bound s)
                          else ni_distance (numa_nodes s node) i)\<rparr>)"
proof -
  have "numa_nodes (for_upto m (\<lambda>i. for_upto (node_bound s) (\<lambda>j t. set_numa_node node
      (\<lambda>n. n\<lparr>ni_distance := (ni_distance n)(i := ucast (table (node * MAX_NUMA_NODES + j)))\<rparr>)
      (access ''numa_distance_table'' (MAX_NUMA_NODES * MAX_NUMA_NODES)
        (node * MAX_NUMA_NODES + j) t))) s) =
    (numa_nodes s)(node := (numa_nodes s node)
      \<lparr>ni_distance := (\<lambda>i. if i < m then copied_distance table node (node_bound s)
                            else ni_distance (numa_nodes s node) i)\<rparr>)"
    (is "?loop m = ?nodes m") if "m \<le> node_bound s" for m
    using that
  proof (induction m)
    case 0
    then show ?case by simp
  next
    case (Suc m)
    then have IH: "?loop m = ?nodes m" and b: "node_bound s \<noteq> 0" by simp_all
    show ?case
      unfolding for_upto_Suc copy_inner_nodes IH using b by (simp add: upto_upd)
  qed
  from this [of "node_bound s"] show ?thesis
    using assms by (simp add: copy_distances_def)
qed

subsection \<open>The refreshed nodes\<close>

text \<open>The kernel's answers about its nodes do not change while the module looks at them.\<close>

definition stable_topology :: "kenv \<Rightarrow> bool" where
  "stable_topology K \<longleftrightarrow>
     (\<forall>h. node_online K h = node_online K [] \<and> node_present_pages K h = node_present_pages K [] \<and>
          node_free_pages K h = node_free_pages K [] \<and>
          node_present_pages_again K h = node_present_pages K [] \<and>
          node_free_pages_again K h = node_free_pages K [])"

lemma stable_topology_simps:
  assumes "stable_topology K"
  shows "node_online K h = node_online K []" "node_present_pages K h = node_present_pages K []"
    "node_free_pages K h = node_free_pages K []"
    "node_present_pages_again K h = node_present_pages K []"
    "node_free_pages_again K h = node_free_pages K []"
  using assms unfolding stable_topology_def by blast+

text \<open>One node after a refresh, by the table and the loop bound.\<close>

definition refreshed_node ::
  "kenv \<Rightarrow> (nat \<Rightarrow> u8) option \<Rightarrow> nat \<Rightarrow> nat \<Rightarrow> uroam_numa_info \<Rightarrow> uroam_numa_info" where
  "refreshed_node K table b node n =
     n\<lparr>ni_total_memory := node_present_pages K [] node * page_size K,
       ni_free_memory := node_free_pages K [] node * page_size K,
       ni_used_memory := node_present_pages K [] node * page_size K - node_free_pages K [] node * page_size K,
       ni_nr_pages := ucast (node_present_pages K [] node),
       ni_nr_free_pages := ucast (node_free_pages K [] node),
       ni_distance := (case table of None \<Rightarrow> ni_distance n
         | Some tb \<Rightarrow> (\<lambda>i. if i < b then copied_distance tb node b else ni_distance n i))\<rparr>"

lemma set_numa_node_sel [simp]:
  "numa_nodes (set_numa_node node f s) = (numa_nodes s)(node := f (numa_nodes s node))"
  "numa_distance_table (set_numa_node node f t) = numa_distance_table t"
  "node_bound (set_numa_node node f t) = node_bound t"
  "nr_numa_nodes (set_numa_node node f t) = nr_numa_nodes t"
  "klog (set_numa_node node f u) = klog u"
  by (simp_all add: set_numa_node_def node_bound_def)

lemma node_bound_access [simp]: "node_bound (access a n i s) = node_bound s"
  by (simp add: node_bound_def)

lemma update_one_node_nodes:
  assumes "stable_topology K"
  shows "numa_nodes (update_one_node K node s) = (numa_nodes s)(node :=
    (if node_online K [] node
     then refreshed_node K (numa_distance_table s) (node_bound s) node (numa_nodes s node)
     else numa_nodes s node))"
proof (cases "numa_distance_table s")
  case None
  then show ?thesis
    by (simp add: update_one_node_def Let_def stable_topology_simps [OF assms, of "klog s"] copy_distances_def
        refreshed_node_def)
next
  case (Some tb)
  then show ?thesis
    by (simp add: update_one_node_def Let_def stable_topology_simps [OF assms, of "klog s"]
        copy_distances_nodes refreshed_node_def cong: if_cong)
qed

lemma refresh_loop:
  assumes "stable_topology K"
  shows "numa_nodes (for_upto n (update_one_node K) s) =
    (\<lambda>i. if i < n \<and> node_online K [] i
          then refreshed_node K (numa_distance_table s) (node_bound s) i (numa_nodes s i)
          else numa_nodes s i)"
proof (induction n)
  case 0
  then show ?case by simp
next
  case (Suc n)
  have "numa_write s (for_upto n (update_one_node K) s)" by (rule numa_write_all)
  note fields = numa_write_fields [OF this]
  show ?case
    by (auto simp: for_upto_Suc update_one_node_nodes [OF assms] fields Suc.IH less_Suc_eq
        simp del: fun_upd_apply intro!: ext simp add: fun_upd_def)
qed

subsection \<open>The accesses of a refresh\<close>

lemma in_bounds_access [simp]:
  "in_bounds (klog (access a n i s)) \<longleftrightarrow> in_bounds (klog s) \<and> i < n"
  by auto

lemma in_bounds_for_upto:
  assumes "\<And>i t. i < n \<Longrightarrow> in_bounds (klog (body i t)) \<longleftrightarrow> in_bounds (klog t) \<and> P i"
  shows "in_bounds (klog (for_upto n body s)) \<longleftrightarrow> in_bounds (klog s) \<and> (\<forall>i<n. P i)"
  using assms by (induction n) (auto simp: for_upto_Suc less_Suc_eq)

lemma in_bounds_copy:
  "in_bounds (klog (copy_distances node s)) \<longleftrightarrow>
     in_bounds (klog s) \<and> (numa_distance_table s \<noteq> None \<and> 0 < node_bound s \<longrightarrow> node < MAX_NUMA_NODES)"
proof (cases "numa_distance_table s")
  case None
  then show ?thesis by (simp add: copy_distances_def)
next
  case (Some tb)
  have row: "MAX_NUMA_NODES * MAX_NUMA_NODES \<le> node * MAX_NUMA_NODES + j \<longleftrightarrow> \<not> node < MAX_NUMA_NODES"
    if "j < node_bound s" for j
    using that by (auto simp: node_bound_def MAX_NUMA_NODES_def)
  show ?thesis
    unfolding copy_distances_def Some option.case
    by (subst in_bounds_for_upto [where P = "\<lambda>_. \<forall>j<node_bound s. node < MAX_NUMA_NODES"],
        rule in_bounds_for_upto) (auto simp: row)
qed

lemma in_bounds_one:
  assumes "stable_topology K"
  shows "in_bounds (klog (update_one_node K node s)) \<longleftrightarrow>
    in_bounds (klog s) \<and> (node_online K [] node \<longrightarrow> node < MAX_NUMA_NODES)"
  by (auto simp: update_one_node_def Let_def in_bounds_copy stable_topology_simps [OF assms, of "klog s"])

subsection \<open>The choice of a node\<close>

lemma best_node_scan_end: "best \<le> n \<Longrightarrow> best_node_scan K h nodes c sz n best m = n"
proof (induction K h nodes c sz n best m rule: best_node_scan.induct)
  case (1 K h nodes c sz n best m)
  then show ?case
    by (subst best_node_scan.simps) (simp add: Let_def)
qed

lemma best_node_local_iff:
  "best_node_local K h nodes c sz xs =
     (if 0 \<le> c \<and> nat c \<in> set xs \<and> node_online K h (nat c) \<and> sz \<le> ni_free_memory (nodes (nat c))
      then Some (nat c) else None)"
  by (induction xs) auto

text \<open>The process and the log a pid lookup ends with.\<close>

definition looked_up :: "kenv \<Rightarrow> int \<Rightarrow> 'a kworld_scheme \<Rightarrow> task_struct option" where
  "looked_up K pid s =
     (case find_get_pid K (klog s) pid of None \<Rightarrow> None
      | Some q \<Rightarrow> get_pid_task K (klog s @ [Acquire R_pid True]) q)"

definition lookup_log :: "kenv \<Rightarrow> int \<Rightarrow> 'a kworld_scheme \<Rightarrow> kcall list" where
  "lookup_log K pid s =
     [Acquire R_pid (find_get_pid K (klog s) pid \<noteq> None), Acquire R_task (looked_up K pid s \<noteq> None)]"

lemma access_fold_log:
  "\<exists>cs. klog (fold (access a n) xs s) = klog s @ cs \<and> (\<forall>c \<in> set cs. is_oob c)"
proof (induction xs arbitrary: s)
  case Nil
  then show ?case by simp
next
  case (Cons x xs)
  from Cons.IH [of "access a n x s"] obtain cs where
    "klog (fold (access a n) xs (access a n x s)) = klog (access a n x s) @ cs \<and> (\<forall>c\<in>set cs. is_oob c)"
    by blast
  then show ?case
    by (intro exI [of _ "(if n \<le> x then [Out_of_bounds a x] else []) @ cs"]) auto
qed

lemma held_access_fold [simp]: "held r (klog (fold (access a n) xs s)) = held r (klog s)"
  using access_fold_log [of a n xs s] by (auto simp: oob_calls_neutral)

subsection \<open>The table\<close>

lemma table_row:
  fixes t :: "nat \<Rightarrow> 'w"
  shows "for_upto m (\<lambda>j t. t(i * MAX_NUMA_NODES + j := v j)) t k =
    (if i * MAX_NUMA_NODES \<le> k \<and> k < i * MAX_NUMA_NODES + m then v (k - i * MAX_NUMA_NODES) else t k)"
  by (induction m) (auto simp: for_upto_Suc)

lemma table_filled:
  fixes v :: "nat \<Rightarrow> nat \<Rightarrow> 'w"
  assumes "n \<le> MAX_NUMA_NODES" and "j < n"
  shows "for_upto m (\<lambda>i. for_upto n (\<lambda>j t. t(i * MAX_NUMA_NODES + j := v i j))) t (i * MAX_NUMA_NODES + j) =
    (if i < m then v i j else t (i * MAX_NUMA_NODES + j))"
proof (induction m)
  case 0
  then show ?case by simp
next
  case (Suc m)
  have "m * MAX_NUMA_NODES \<le> i * MAX_NUMA_NODES + j \<and> i * MAX_NUMA_NODES + j < m * MAX_NUMA_NODES + n
      \<longleftrightarrow> i = m"
    using assms by (auto simp: MAX_NUMA_NODES_def)
  then show ?case
    by (subst for_upto_Suc, subst table_row, simp only: Suc.IH) (auto simp: less_Suc_eq)
qed

lemma update_node_info_frame [simp]:
  "nr_numa_nodes (uroam_numa_update_node_info K s) = nr_numa_nodes s"
  "numa_distance_table (uroam_numa_update_node_info K s) = numa_distance_table s"
  "held r (klog (uroam_numa_update_node_info K s)) = held r (klog s)"
  using update_node_info_eq [of K s] by (auto simp: oob_calls_neutral)

lemma held_numa_exit:
  "held r (klog (uroam_numa_exit s)) =
     held r (klog s) - (if r = R_numa_table \<and> numa_distance_table s \<noteq> None then 1 else 0)"
  by (auto simp: uroam_numa_exit_def uroam_numa_enable_balancer_def Let_def split: option.splits)

text \<open>A start with the table in place acquires nothing.\<close>

lemma numa_init_again:
  "numa_distance_table s \<noteq> None \<Longrightarrow> held r (klog (snd (uroam_numa_init K s))) = held r (klog s)"
  by (auto simp: uroam_numa_init_def uroam_numa_init_distance_table_def Let_def)

subsection \<open>Properties\<close>

text \<open>C32: The choice of a node: node 0 when the process does not exist; the process's own node when
  it is one of the counted nodes, online and has the memory; in every other case the number of
  nodes itself, which is no node, however much memory the other nodes have: the loop that is to
  pick the nearest one runs over the variable it returns. The task is given back, the reference
  to the pid is not.\<close>

theorem best_node_result:
  "let (node, s') = uroam_numa_get_best_node K pid sz s in
     node = (case looked_up K pid s of
         None \<Rightarrow> 0
       | Some t \<Rightarrow>
           (if 0 \<le> t_numa_node t \<and> t_numa_node t < nr_numa_nodes s \<and>
               node_online K (klog s @ lookup_log K pid s) (nat (t_numa_node t)) \<and>
               sz \<le> ni_free_memory (numa_nodes s (nat (t_numa_node t)))
            then t_numa_node t else max 0 (nr_numa_nodes s))) \<and>
     held R_task (klog s') = held R_task (klog s) \<and>
     held R_pid (klog s') =
       held R_pid (klog s) + (if find_get_pid K (klog s) pid = None then 0 else 1)"
proof (cases "looked_up K pid s")
  case None
  then show ?thesis
    by (auto simp: uroam_numa_get_best_node_def looked_up_def Let_def split: option.splits)
next
  case (Some t)
  then obtain q where q: "find_get_pid K (klog s) pid = Some q"
    "get_pid_task K (klog s @ [Acquire R_pid True]) q = Some t"
    by (auto simp: looked_up_def split: option.splits)
  have log: "klog s @ lookup_log K pid s = klog s @ [Acquire R_pid True, Acquire R_task True]"
    by (simp add: lookup_log_def Some q)
  show ?thesis
    unfolding log Some uroam_numa_get_best_node_def Let_def
    by (simp add: q best_node_local_iff best_node_scan_end)
qed

text \<open>C33: A refresh of the nodes, on a machine whose topology stands still: every online node
  below the number of nodes gets its memory from the kernel, with the used memory the
  difference of the other two; all its distances become one number, the entry of its row of the
  table for the last node (the copying loops do not use the column index on the left); every
  other node, and everything else but the count, stays.\<close>

theorem numa_refresh:
  assumes "stable_topology K"
  shows "let s' = uroam_numa_update_node_info K s; n = numa_nodes s' i;
             b = min MAX_NUMA_NODES (nat (nr_numa_nodes s)) in
    numa_node_count s' = word_of_int (nr_numa_nodes s) \<and>
    (if i < nat (nr_numa_nodes s) \<and> node_online K [] i
     then ni_total_memory n = node_present_pages K [] i * page_size K \<and>
          ni_free_memory n = node_free_pages K [] i * page_size K \<and>
          ni_used_memory n = ni_total_memory n - ni_free_memory n \<and>
          (\<forall>j. ni_distance n j =
             (case numa_distance_table s of
                Some table \<Rightarrow> if j < b then ucast (table (i * MAX_NUMA_NODES + (b - 1)))
                              else ni_distance (numa_nodes s i) j
              | None \<Rightarrow> ni_distance (numa_nodes s i) j))
     else n = numa_nodes s i) \<and>
    (\<exists>log. s' = s\<lparr>klog := log, numa_nodes := numa_nodes s', numa_node_count := numa_node_count s'\<rparr>)"
proof -
  obtain cs ns where eq: "uroam_numa_update_node_info K s = s\<lparr>klog := klog s @ cs, numa_nodes := ns,
      numa_node_count := word_of_int (nr_numa_nodes s)\<rparr>"
    using update_node_info_eq [of K s] by blast
  have "ns = numa_nodes (for_upto (nat (nr_numa_nodes s)) (update_one_node K) s)"
    using arg_cong [OF eq, of numa_nodes] by (simp add: uroam_numa_update_node_info_def Let_def)
  then have ns: "ns i = (if i < nat (nr_numa_nodes s) \<and> node_online K [] i
      then refreshed_node K (numa_distance_table s) (node_bound s) i (numa_nodes s i)
      else numa_nodes s i)"
    by (simp add: refresh_loop [OF assms])
  show ?thesis
    unfolding eq Let_def
    by (auto simp: ns refreshed_node_def copied_distance_def node_bound_def split: option.splits)
qed

theorem numa_refresh_witness:
  "let K = kernel_ok 2 (\<lambda>_. None); s = numa_boot\<lparr>nr_numa_nodes := 2\<rparr>;
       s' = uroam_numa_update_node_info K s
   in numa_node_count s' = 2 \<and> ni_total_memory (numa_nodes s' 1) = 4096000 \<and>
      ni_used_memory (numa_nodes s' 1) = 2048000"
proof -
  have "stable_topology (kernel_ok 2 (\<lambda>_. None))"
    by (simp add: stable_topology_def kernel_ok_def)
  from numa_refresh [OF this, of "numa_boot\<lparr>nr_numa_nodes := 2\<rparr>" 1]
  show ?thesis by (simp add: kernel_ok_def Let_def)
qed

text \<open>C34: A refresh stays inside the module's arrays exactly when no node with a number from
  \<open>MAX_NUMA_NODES\<close> on is counted and online: the loop over the nodes does not stop at the
  size of the array.\<close>

theorem numa_refresh_in_bounds:
  assumes "stable_topology K" and "in_bounds (klog s)"
  shows "in_bounds (klog (uroam_numa_update_node_info K s)) \<longleftrightarrow>
    (\<forall>i. MAX_NUMA_NODES \<le> i \<and> i < nat (nr_numa_nodes s) \<longrightarrow> \<not> node_online K [] i)"
  using assms(2)
  by (auto simp: uroam_numa_update_node_info_def Let_def in_bounds_for_upto in_bounds_one [OF assms(1)]
      not_less)

theorem numa_refresh_in_bounds_witness:
  "let K = kernel_ok 9 (\<lambda>_. None)
   in \<not> in_bounds (klog (uroam_numa_update_node_info K (numa_boot\<lparr>nr_numa_nodes := 9\<rparr>))) \<and>
      in_bounds (klog (uroam_numa_update_node_info K (numa_boot\<lparr>nr_numa_nodes := 8\<rparr>)))"
proof -
  have K: "stable_topology (kernel_ok 9 (\<lambda>_. None))"
    by (simp add: stable_topology_def kernel_ok_def)
  have s: "in_bounds (klog (numa_boot\<lparr>nr_numa_nodes := n\<rparr>))" for n
    by (simp add: numa_boot_def numa_state.defs hooks_boot_def hooks_state.defs pressure_boot_def
        pressure_state.defs nl_boot_def nl_state.defs uroam_state.defs uroam_global_state_def)
  show ?thesis
    using numa_refresh_in_bounds [OF K s, of 9] numa_refresh_in_bounds [OF K s, of 8]
    by (auto simp: MAX_NUMA_NODES_def kernel_ok_def Let_def)
qed

text \<open>Start of the component on a machine with more than one node, stop afterwards: the start
  counts the nodes, fills the table with the kernel's distances (the low eight bits) for the
  nodes that are possible and with 20 for the others, and a second start allocates no second
  table; the stop gives the table back.\<close>

theorem numa_start_stop:
  assumes "1 < num_possible_nodes K (klog s)" and "1 < num_online_nodes K (klog s)"
    and "numa_distance_table s = None" and "kzalloc_ok K (klog s)"
  shows "let (ret, t) = uroam_numa_init K s; b = min 8 (nat (num_online_nodes K (klog s)));
             h = klog s @ [Acquire R_numa_table True] in
    ret = 0 \<and> nr_numa_nodes t = num_online_nodes K (klog s) \<and>
    (\<exists>table. numa_distance_table t = Some table \<and>
       (\<forall>i<b. \<forall>j<b. table (i * 8 + j) =
          (if int i < num_possible_nodes K h \<and> int j < num_possible_nodes K h
           then word_of_int (node_distance K h (int i) (int j)) else 20))) \<and>
    held R_numa_table (klog (snd (uroam_numa_init K t))) = held R_numa_table (klog s) + 1 \<and>
    held R_numa_table (klog (uroam_numa_exit t)) = held R_numa_table (klog s)"
proof -
  let ?s1 = "s\<lparr>nr_numa_nodes := num_online_nodes K (klog s)\<rparr>"
  let ?h = "klog s @ [Acquire R_numa_table True]"
  let ?b = "min 8 (nat (num_online_nodes K (klog s)))"
  let ?v = "\<lambda>i j. if int i < num_possible_nodes K ?h \<and> int j < num_possible_nodes K ?h
    then word_of_int (node_distance K ?h (int i) (int j)) else (20 :: u8)"
  let ?table = "for_upto ?b (\<lambda>i. for_upto ?b (\<lambda>j t. t(i * MAX_NUMA_NODES + j := ?v i j))) (\<lambda>_. 0)"
  have b: "node_bound (kdo c ?s1) = ?b" for c
    by (simp add: node_bound_def MAX_NUMA_NODES_def)
  have "\<exists>t. uroam_numa_init K s = (0, t) \<and> nr_numa_nodes t = num_online_nodes K (klog s) \<and>
      numa_distance_table t = Some ?table \<and>
      held R_numa_table (klog t) = held R_numa_table (klog s) + 1"
    using assms
    by (simp add: uroam_numa_init_def uroam_numa_available_def uroam_numa_init_distance_table_def
        Let_def b cong: if_cong)
  then obtain t where t: "uroam_numa_init K s = (0, t)"
    "nr_numa_nodes t = num_online_nodes K (klog s)" "numa_distance_table t = Some ?table"
    "held R_numa_table (klog t) = held R_numa_table (klog s) + 1"
    by blast
  have "?table (i * 8 + j) = ?v i j" if "i < ?b" "j < ?b" for i j
    using table_filled [of ?b j ?b ?v "\<lambda>_. 0" i] that by (simp add: MAX_NUMA_NODES_def)
  then have "\<exists>table. numa_distance_table t = Some table \<and> (\<forall>i<?b. \<forall>j<?b. table (i * 8 + j) = ?v i j)"
    unfolding t(3) by blast
  then show ?thesis
    by (simp add: t(1,2,4) numa_init_again held_numa_exit) (simp add: t(3))
qed

theorem numa_start_stop_witness:
  "let K = kernel_ok 2 (\<lambda>_. None); (ret, t) = uroam_numa_init K numa_boot
   in nr_numa_nodes t = 2 \<and> (\<exists>tb. numa_distance_table t = Some tb \<and> tb 0 = 10 \<and> tb 9 = 10 \<and> tb 1 = 21) \<and>
      held R_numa_table (klog (uroam_numa_exit t)) = 0"
proof -
  have "numa_distance_table numa_boot = None" and k: "klog numa_boot = []"
    by (simp_all add: numa_boot_def numa_state.defs hooks_boot_def hooks_state.defs pressure_boot_def
        pressure_state.defs nl_boot_def nl_state.defs uroam_state.defs uroam_global_state_def)
  have K: "num_possible_nodes (kernel_ok 2 (\<lambda>_. None)) h = 2"
    "num_online_nodes (kernel_ok 2 (\<lambda>_. None)) h = 2" "kzalloc_ok (kernel_ok 2 (\<lambda>_. None)) h"
    "node_distance (kernel_ok 2 (\<lambda>_. None)) h i j = (if i = j then 10 else 20 + \<bar>i - j\<bar>)" for h i j
    by (simp_all add: kernel_ok_def)
  have ex: "P 0 0 \<and> P 1 1 \<and> P 0 1" if "\<forall>i<2. \<forall>j<2. P i j" for P :: "nat \<Rightarrow> nat \<Rightarrow> bool"
    using that by simp
  obtain t where t: "uroam_numa_init (kernel_ok 2 (\<lambda>_. None)) numa_boot = (0, t)"
    by (auto simp: uroam_numa_init_def uroam_numa_available_def Let_def K)
  from numa_start_stop [of "kernel_ok 2 (\<lambda>_. None)" numa_boot] \<open>numa_distance_table numa_boot = None\<close>
  obtain tb where "numa_distance_table t = Some tb" "nr_numa_nodes t = 2"
    "held R_numa_table (klog (uroam_numa_exit t)) = 0"
    and tb: "\<forall>i<2. \<forall>j<2. tb (i * 8 + j) = word_of_int (if i = j then 10 else 20 + \<bar>int i - int j\<bar>)"
    by (auto simp: K k t)
  with ex [OF tb] show ?thesis by (simp add: t)
qed

text \<open>Setting the policy of a process: an unknown policy, a policy that needs nodes and is
  given none, and a failed allocation leave the policy as it is; otherwise the process has the
  new policy and its old one is given back. The task is given back in every case, the pid is
  not.\<close>

theorem numa_set_policy_account:
  "let (pol, s') = uroam_numa_set_policy K pid policy nodes nr s;
       log = klog s @ lookup_log K pid s in
   (case looked_up K pid s of
      None \<Rightarrow> pol = None
    | Some t \<Rightarrow>
        if policy \<in> {MPOL_PREFERRED, MPOL_BIND, MPOL_INTERLEAVE} \<and> nodes \<noteq> None \<and> 0 < nr
             \<and> mpol_new_ok K log
           \<or> policy = MPOL_DEFAULT \<and> mpol_new_ok K log
        then (\<exists>p. pol = Some (Some p) \<and> mpol_mode p = policy) \<and>
             held R_mempolicy (klog s') =
               held R_mempolicy (klog s) + (if t_mempolicy t = None then 1 else 0)
        else pol = Some (t_mempolicy t) \<and> held R_mempolicy (klog s') = held R_mempolicy (klog s)) \<and>
   held R_task (klog s') = held R_task (klog s) \<and>
   held R_pid (klog s') =
     held R_pid (klog s) + (if find_get_pid K (klog s) pid = None then 0 else 1)"
proof (cases "looked_up K pid s")
  case None
  then show ?thesis
    by (auto simp: uroam_numa_set_policy_def looked_up_def Let_def split: option.splits)
next
  case (Some t)
  then obtain q where q: "find_get_pid K (klog s) pid = Some q"
    "get_pid_task K (klog s @ [Acquire R_pid True]) q = Some t"
    by (auto simp: looked_up_def split: option.splits)
  have log: "klog s @ lookup_log K pid s = klog s @ [Acquire R_pid True, Acquire R_task True]"
    by (simp add: lookup_log_def Some q)
  show ?thesis
    unfolding log Some uroam_numa_set_policy_def Let_def
    by (cases policy) (auto simp: q kdo_if_def)
qed

end
