(* ===== verification/Kernel_Tracking.thy ===== *)
theory Kernel_Tracking
  imports Kernel_Numa
begin

section \<open>Process tracking: kernel/tracking.c\<close>

text \<open>
  The classification of processes by name, the tree of tracked processes, the update of one
  process, the scan over all pids, the tracking thread, the lookup, and the start and stop of the
  component. The tracked processes live in an array of the global state; the kernel's intrusive
  red-black tree holds array entries, so here it is a binary tree of array indices. The kernel's
  \<open>rb_insert_color\<close> and \<open>rb_erase\<close> are parameters; the only thing the code relies on is that
  rebalancing keeps the order of the entries (\<open>rb_ok\<close>).
\<close>

record tracking_state = numa_state +
  uroam_process_tree :: "nat tree"
  tracking_thread :: bool
  tracking_running :: bool

definition tracking_boot :: tracking_state where
  "tracking_boot = numa_state.extend numa_boot (tracking_state.fields Leaf False False)"

lemma kdo_tracking_frame [simp]:
  "uroam_process_tree (kdo c t) = uroam_process_tree t"
  "tracking_thread (kdo c t) = tracking_thread t"
  "tracking_running (kdo c t) = tracking_running t"
  by (simp_all add: kdo_def)

subsection \<open>Classification\<close>

definition ai_workload_patterns :: "string list" where
  "ai_workload_patterns =
     [''python'', ''pytorch'', ''tensorflow'', ''onnx'', ''torch'', ''tf.'', ''onnxruntime'',
      ''inference'', ''model'', ''neural'', ''transformer'', ''llm'', ''langchain'',
      ''huggingface'', ''jupyter'', ''ipython'']"

definition gaming_patterns :: "string list" where
  "gaming_patterns =
     [''steam'', ''game'', ''wine'', ''proton'', ''dxvk'', ''vk'', ''opengl'', ''gl'', ''vulkan'',
      ''unity'', ''unreal'', ''source'', ''engine'', ''client'', ''server'']"

text \<open>The loop over a pattern table up to its null entry.\<close>

fun matches_any :: "string list \<Rightarrow> string \<Rightarrow> bool" where
  "matches_any [] comm = False"
| "matches_any (p # ps) comm = (if c_strstr comm p \<noteq> None then True else matches_any ps comm)"

definition uroam_is_ai_workload :: "string \<Rightarrow> bool" where
  "uroam_is_ai_workload comm = matches_any ai_workload_patterns comm"

definition uroam_is_gaming_workload :: "string \<Rightarrow> bool" where
  "uroam_is_gaming_workload comm = matches_any gaming_patterns comm"

definition uroam_get_process_priority :: "task_struct \<Rightarrow> string \<Rightarrow> u8" where
  "uroam_get_process_priority task comm =
     (if uroam_is_ai_workload comm then
        if c_strstr comm ''inference'' \<noteq> None \<or> c_strstr comm ''predict'' \<noteq> None \<or>
           c_strstr comm ''query'' \<noteq> None \<or> c_strstr comm ''api'' \<noteq> None
        then UROAM_PRIORITY_P0
        else UROAM_PRIORITY_P2
      else if uroam_is_gaming_workload comm then UROAM_PRIORITY_P1
      else UROAM_PRIORITY_P2)"

definition uroam_get_numa_node :: "task_struct \<Rightarrow> int" where
  "uroam_get_numa_node task =
     (case t_mempolicy task of
        Some p \<Rightarrow> if mpol_mode p = MPOL_BIND then mpol_preferred_node p else t_numa_node task
      | None \<Rightarrow> t_numa_node task)"

text \<open>The three numbers \<open>(memory_usage, rss, swap)\<close>, and the reference to the \<open>mm\<close>.\<close>

definition uroam_get_process_memory ::
  "kenv \<Rightarrow> task_struct \<Rightarrow> 'a kworld_scheme \<Rightarrow> (u64 \<times> u64 \<times> u64) \<times> 'a kworld_scheme" where
  "uroam_get_process_memory K task s =
     (let s1 = kdo (Acquire R_mm (t_mm task \<noteq> None)) s
      in case t_mm task of
           None \<Rightarrow> ((0, 0, 0), s1)
         | Some mm \<Rightarrow>
             let rss = (if mm_filepages mm + mm_anonpages mm + mm_swapents mm \<noteq> 0
                        then (mm_filepages mm + mm_anonpages mm) * page_size K else 0);
                 swap = mm_swapents mm * page_size K;
                 memory_usage = rss + swap + mm_filepages mm * page_size K
             in ((memory_usage, rss, swap), kdo (Release R_mm) s1))"

subsection \<open>The tree\<close>

definition uroam_process_info_cmp :: "int \<Rightarrow> uroam_process_info \<Rightarrow> int" where
  "uroam_process_info_cmp pid info =
     (if pid < pi_pid info then - 1 else if pi_pid info < pid then 1 else 0)"

fun uroam_process_tree_search ::
  "(nat \<Rightarrow> uroam_process_info) \<Rightarrow> int \<Rightarrow> nat tree \<Rightarrow> nat option" where
  "uroam_process_tree_search procs pid Leaf = None"
| "uroam_process_tree_search procs pid (Node l i r) =
     (let cmp = uroam_process_info_cmp pid (procs i)
      in if cmp < 0 then uroam_process_tree_search procs pid l
         else if 0 < cmp then uroam_process_tree_search procs pid r
         else Some i)"

text \<open>The walk to the link and the new leaf there; \<open>None\<close> when an entry with the pid is met.\<close>

fun link_node :: "(nat \<Rightarrow> uroam_process_info) \<Rightarrow> nat \<Rightarrow> nat tree \<Rightarrow> nat tree option" where
  "link_node procs info Leaf = Some (Node Leaf info Leaf)"
| "link_node procs info (Node l tmp r) =
     (if pi_pid (procs info) < pi_pid (procs tmp) then
        map_option (\<lambda>l'. Node l' tmp r) (link_node procs info l)
      else if pi_pid (procs tmp) < pi_pid (procs info) then
        map_option (\<lambda>r'. Node l tmp r') (link_node procs info r)
      else None)"

definition uroam_process_tree_insert ::
  "kenv \<Rightarrow> (nat \<Rightarrow> uroam_process_info) \<Rightarrow> nat \<Rightarrow> nat tree \<Rightarrow> int \<times> nat tree" where
  "uroam_process_tree_insert K procs info t =
     (case link_node procs info t of
        None \<Rightarrow> (- EEXIST, t)
      | Some t' \<Rightarrow> (0, rb_insert_color K info t'))"

definition uroam_process_tree_remove :: "kenv \<Rightarrow> nat \<Rightarrow> nat tree \<Rightarrow> nat tree" where
  "uroam_process_tree_remove K info t = rb_erase K info t"

subsection \<open>The update of one process\<close>

text \<open>The name buffer \<open>get_task_comm\<close> fills: at most 15 characters and the zeros behind them.\<close>

definition get_task_comm :: "task_struct \<Rightarrow> string" where
  "get_task_comm task = take (TASK_COMM_LEN - 1) (cstr (t_comm task))"

definition set_process ::
  "nat \<Rightarrow> (uroam_process_info \<Rightarrow> uroam_process_info) \<Rightarrow> 'a uroam_state_scheme \<Rightarrow> 'a uroam_state_scheme" where
  "set_process i f s = s\<lparr>tracked_processes := (tracked_processes s)(i := f (tracked_processes s i))\<rparr>"

definition refresh_process :: "string \<Rightarrow> int \<Rightarrow> u64 \<times> u64 \<times> u64 \<Rightarrow> uroam_process_info \<Rightarrow> uroam_process_info" where
  "refresh_process comm node mem p =
     (case mem of (usage, rss, swap) \<Rightarrow>
        p\<lparr>pi_memory_usage := usage, pi_rss := rss, pi_swap := swap,
          pi_numa_node := word_of_int node,
          pi_comm := c_strncpy (pi_comm p) comm TASK_COMM_LEN\<rparr>)"

definition classify_process :: "int \<Rightarrow> task_struct \<Rightarrow> string \<Rightarrow> uroam_process_info \<Rightarrow> uroam_process_info" where
  "classify_process pid task comm p =
     p\<lparr>pi_pid := pid, pi_priority := uroam_get_process_priority task comm,
       pi_is_ai_workload := uroam_is_ai_workload comm,
       pi_is_gaming := uroam_is_gaming_workload comm\<rparr>"

definition uroam_tracking_update_process ::
  "kenv \<Rightarrow> task_struct \<Rightarrow> 'a tracking_state_scheme \<Rightarrow> 'a tracking_state_scheme" where
  "uroam_tracking_update_process K task s =
     (let pid = t_pid task;
          comm = get_task_comm task;
          s1 = kdo (Lock Tree_lock) s;
          s4 =
            (case uroam_process_tree_search (tracked_processes s1) pid (uroam_process_tree s1) of
               Some i \<Rightarrow>
                 let (mem, s2) = uroam_get_process_memory K task s1
                 in set_process i (refresh_process comm (uroam_get_numa_node task) mem)
                      (access ''tracked_processes'' MAX_TRACKED_PROCESSES i s2)
             | None \<Rightarrow>
                 if unat (tracked_count s1) < MAX_TRACKED_PROCESSES then
                   let i = unat (tracked_count s1);
                       (mem, s2) = uroam_get_process_memory K task s1;
                       s3 = set_process i (\<lambda>p. refresh_process comm (uroam_get_numa_node task) mem
                                             (classify_process pid task comm p))
                              (access ''tracked_processes'' MAX_TRACKED_PROCESSES i s2);
                       (_, t) = uroam_process_tree_insert K (tracked_processes s3) i
                                  (uroam_process_tree s3);
                       s4 = s3\<lparr>uroam_process_tree := t, tracked_count := tracked_count s3 + 1\<rparr>
                   in snd (uroam_netlink_send_process_update K pid
                            (Some (tracked_processes s4 i)) s4)
                 else s1)
      in kdo (Unlock Tree_lock) s4)"

subsection \<open>The scan, the thread, the lookup\<close>

text \<open>One round of the scan's loop for the pid \<open>q\<close> the reference of which the loop variable holds.\<close>

definition scan_one :: "kenv \<Rightarrow> int \<Rightarrow> 'a tracking_state_scheme \<Rightarrow> 'a tracking_state_scheme" where
  "scan_one K q s =
     (let t = get_pid_task K (klog s) q;
          s1 = kdo (Acquire R_task (t \<noteq> None)) s;
          s2 = (case t of
                  None \<Rightarrow> s1
                | Some task \<Rightarrow> kdo (Release R_task) (uroam_tracking_update_process K task s1))
      in kdo (Release R_pid) s2)"

text \<open>
  The number the loop goes on from is read from the structure after its reference was given back
  (\<open>pid_nr_after_put\<close>). The result is \<open>None\<close> when the loop does not end.
\<close>

partial_function (option) scan_from ::
  "kenv \<Rightarrow> int \<Rightarrow> 'a tracking_state_scheme \<Rightarrow> 'a tracking_state_scheme option" where
  "scan_from K nr s =
     (let p = find_get_pid K (klog s) nr;
          s1 = kdo (Acquire R_pid (p \<noteq> None)) s
      in case p of
           None \<Rightarrow> Some s1
         | Some q \<Rightarrow>
             let s2 = scan_one K q s1
             in scan_from K (pid_nr_after_put K (klog s2) q + 1) s2)"

definition uroam_tracking_scan :: "kenv \<Rightarrow> 'a tracking_state_scheme \<Rightarrow> 'a tracking_state_scheme option" where
  "uroam_tracking_scan K s = scan_from K 1 s"

text \<open>The thread: one element \<open>(ret, running)\<close> per wait, as in \<open>Kernel_Pressure\<close>.\<close>

fun tracking_thread_fn ::
  "kenv \<Rightarrow> (int \<times> bool) list \<Rightarrow> 'a tracking_state_scheme \<Rightarrow> ('a tracking_state_scheme \<times> bool) option" where
  "tracking_thread_fn K ws s =
     (if \<not> tracking_running s then Some (s, True)
      else
        case uroam_tracking_scan K s of
          None \<Rightarrow> None
        | Some s1 \<Rightarrow>
            let s2 = (if numa_aware s1 then uroam_numa_update K s1 else s1);
                s3 = kdo (Service (Wait_event Tracking_thread)) s2
            in (case ws of
                  [] \<Rightarrow> Some (s3, False)
                | (ret, running) # ws' \<Rightarrow>
                    let s4 = s3\<lparr>tracking_running := running\<rparr>
                    in if ret = 0 then tracking_thread_fn K ws' s4 else Some (s4, True)))"

declare tracking_thread_fn.simps [simp del]

definition uroam_tracking_get_process ::
  "int \<Rightarrow> 'a tracking_state_scheme \<Rightarrow> nat option \<times> 'a tracking_state_scheme" where
  "uroam_tracking_get_process pid s =
     (let s1 = kdo (Lock Tree_lock) s;
          info = uroam_process_tree_search (tracked_processes s1) pid (uroam_process_tree s1)
      in (info, kdo (Unlock Tree_lock) s1))"

subsection \<open>Start and stop\<close>

definition uroam_tracking_init ::
  "kenv \<Rightarrow> 'a tracking_state_scheme \<Rightarrow> (int \<times> 'a tracking_state_scheme) option" where
  "uroam_tracking_init K s =
     (let s1 = kdo (Service (Init_waitqueue_head Tracking_thread)) (s\<lparr>tracked_count := 0\<rparr>);
          s2 = s1\<lparr>tracking_running := True\<rparr>;
          err = kthread_run_ret K (klog s2);
          s3 = kdo (Acquire (R_thread Tracking_thread) (0 \<le> err)) (s2\<lparr>tracking_thread := True\<rparr>)
      in if err < 0 then Some (err, s3\<lparr>tracking_running := False\<rparr>)
         else
           case uroam_tracking_scan K s3 of
             None \<Rightarrow> None
           | Some s4 \<Rightarrow>
               let (ret, s5) = uroam_numa_init K (s4\<lparr>numa_aware := True\<rparr>)
               in Some (0, if ret = 0 then uroam_numa_update K s5 else s5))"

definition uroam_tracking_exit :: "'a tracking_state_scheme \<Rightarrow> 'a tracking_state_scheme" where
  "uroam_tracking_exit s =
     (let s1 =
        (if tracking_running s
         then
           let s2 = kdo (Service (Wake_up_all Tracking_thread)) (s\<lparr>tracking_running := False\<rparr>)
           in (if tracking_thread s2
               then (kdo (Release (R_thread Tracking_thread)) s2)\<lparr>tracking_thread := False\<rparr>
               else s2)
         else s)
      in kdo (Unlock Tree_lock) ((kdo (Lock Tree_lock) s1)\<lparr>tracked_count := 0\<rparr>))"

end
