(* ===== verification/Pid_Index.thy ===== *)
theory Pid_Index
  imports Kernel_Tracking
begin

section \<open>The index of tracked processes by pid\<close>

text \<open>
  The interface the tracking code relies on: an index that finds an entry by its key, refuses a
  second entry with the same key, and contains what was inserted. The context \<open>c\<close> is what
  fixes the keys and the rebalancing. The lemmas inside the locale are what the tracking proofs
  use; the search tree of \<open>Kernel_Tracking\<close> provides the interface.
\<close>

locale pid_index =
  fixes srch :: "'c \<Rightarrow> 't \<Rightarrow> int \<Rightarrow> nat option"
    and ins :: "'c \<Rightarrow> nat \<Rightarrow> 't \<Rightarrow> int \<times> 't"
    and key :: "'c \<Rightarrow> nat \<Rightarrow> int"
    and content :: "'t \<Rightarrow> nat set"
    and ok :: "'c \<Rightarrow> 't \<Rightarrow> bool"
  assumes srch_Some: "ok c t \<Longrightarrow> srch c t p = Some i \<longleftrightarrow> i \<in> content t \<and> key c i = p"
    and ins_new: "ok c t \<Longrightarrow> key c i \<notin> key c ` content t \<Longrightarrow>
      fst (ins c i t) = 0 \<and> ok c (snd (ins c i t)) \<and> content (snd (ins c i t)) = insert i (content t)"
    and ins_old: "ok c t \<Longrightarrow> key c i \<in> key c ` content t \<Longrightarrow> ins c i t = (- EEXIST, t)"
begin

lemma srch_None:
  assumes "ok c t"
  shows "srch c t p = None \<longleftrightarrow> p \<notin> key c ` content t"
proof -
  have "srch c t p = None \<longleftrightarrow> (\<forall>i. srch c t p \<noteq> Some i)"
    by (cases "srch c t p") simp_all
  then show ?thesis by (auto simp: srch_Some [OF assms])
qed

lemma ins_result: "ok c t \<Longrightarrow> fst (ins c i t) = (if srch c t (key c i) = None then 0 else - EEXIST)"
  using ins_new [of c t i] ins_old [of c t i] by (auto simp: srch_None)

lemma ins_ok: "ok c t \<Longrightarrow> ok c (snd (ins c i t))"
  using ins_new [of c t i] ins_old [of c t i] by (cases "key c i \<in> key c ` content t") auto

lemma srch_ins:
  assumes "ok c t" and "srch c t (key c i) = None"
  shows "srch c (snd (ins c i t)) = (srch c t)(key c i \<mapsto> i)"
proof
  fix p
  have new: "key c i \<notin> key c ` content t" using assms by (simp add: srch_None)
  note n = ins_new [OF assms(1) new]
  have mem: "srch c (snd (ins c i t)) p = Some j \<longleftrightarrow> (j = i \<or> j \<in> content t) \<and> key c j = p" for j
    using n by (simp add: srch_Some)
  show "srch c (snd (ins c i t)) p = ((srch c t)(key c i \<mapsto> i)) p"
  proof (cases "srch c t p")
    case None
    then have out: "p \<notin> key c ` content t" by (simp add: srch_None assms(1))
    show ?thesis
    proof (cases "p = key c i")
      case True
      then show ?thesis using mem [of i] by simp
    next
      case False
      then have "srch c (snd (ins c i t)) p \<noteq> Some j" for j
        using mem [of j] out by auto
      then have "srch c (snd (ins c i t)) p = None"
        by (cases "srch c (snd (ins c i t)) p") auto
      with None False show ?thesis by simp
    qed
  next
    case (Some j)
    then have j: "j \<in> content t" "key c j = p" by (simp_all add: srch_Some assms(1))
    then have "p \<noteq> key c i" using new by (metis image_eqI)
    then show ?thesis using mem [of j] j Some by simp
  qed
qed

lemma key_inj: "ok c t \<Longrightarrow> inj_on (key c) (content t)"
  using srch_Some [of c t] by (intro inj_onI) (metis option.inject)

end

subsection \<open>The search tree provides it\<close>

text \<open>Rebalancing keeps the order of the entries.\<close>

definition rb_ok :: "kenv \<Rightarrow> bool" where
  "rb_ok K \<longleftrightarrow> (\<forall>i t. inorder (rb_insert_color K i t) = inorder t)"

definition ordered :: "(nat \<Rightarrow> uroam_process_info) \<Rightarrow> nat tree \<Rightarrow> bool" where
  "ordered procs t \<longleftrightarrow> sorted_wrt (<) (map (\<lambda>i. pi_pid (procs i)) (inorder t))"

lemma ordered_Leaf [simp]: "ordered procs Leaf"
  by (simp add: ordered_def)

lemma ordered_Node [simp]:
  "ordered procs (Node l i r) \<longleftrightarrow> ordered procs l \<and> ordered procs r \<and>
     (\<forall>j \<in> set_tree l. pi_pid (procs j) < pi_pid (procs i)) \<and>
     (\<forall>j \<in> set_tree r. pi_pid (procs i) < pi_pid (procs j))"
  unfolding ordered_def
  by (auto simp: sorted_wrt_append) (meson less_trans)

lemma ordered_inorder: "inorder t = inorder u \<Longrightarrow> ordered procs t = ordered procs u"
  by (simp add: ordered_def)

lemma set_tree_inorder: "inorder t = inorder u \<Longrightarrow> set_tree t = set_tree u"
  by (metis set_inorder)

lemma ordered_cong:
  "(\<And>i. i \<in> set_tree t \<Longrightarrow> pi_pid (procs i) = pi_pid (procs' i)) \<Longrightarrow> ordered procs t = ordered procs' t"
  unfolding ordered_def by (metis (no_types, lifting) map_cong set_inorder)

lemma cmp_neg [simp]: "uroam_process_info_cmp p i < 0 \<longleftrightarrow> p < pi_pid i"
  and cmp_pos [simp]: "0 < uroam_process_info_cmp p i \<longleftrightarrow> pi_pid i < p"
  by (simp_all add: uroam_process_info_cmp_def)

lemma search_Some:
  "ordered procs t \<Longrightarrow>
   uroam_process_tree_search procs p t = Some i \<longleftrightarrow> i \<in> set_tree t \<and> pi_pid (procs i) = p"
proof (induction t)
  case Leaf
  then show ?case by simp
next
  case (Node l j r)
  then have o: "ordered procs l" "ordered procs r"
    and L: "\<And>k. k \<in> set_tree l \<Longrightarrow> pi_pid (procs k) < pi_pid (procs j)"
    and R: "\<And>k. k \<in> set_tree r \<Longrightarrow> pi_pid (procs j) < pi_pid (procs k)"
    by simp_all
  consider "p < pi_pid (procs j)" | "pi_pid (procs j) < p" | "pi_pid (procs j) = p"
    by linarith
  then show ?case
    using Node.IH(1) [OF o(1)] Node.IH(2) [OF o(2)] L [of i] R [of i]
    by cases (auto simp: Let_def uroam_process_info_cmp_def)
qed

lemma link_None:
  "ordered procs t \<Longrightarrow>
   link_node procs i t = None \<longleftrightarrow> (\<exists>j \<in> set_tree t. pi_pid (procs j) = pi_pid (procs i))"
proof (induction t)
  case Leaf
  then show ?case by simp
next
  case (Node l j r)
  then have o: "ordered procs l" "ordered procs r"
    and L: "\<forall>k \<in> set_tree l. pi_pid (procs k) < pi_pid (procs j)"
    and R: "\<forall>k \<in> set_tree r. pi_pid (procs j) < pi_pid (procs k)"
    by simp_all
  consider "pi_pid (procs i) < pi_pid (procs j)" | "pi_pid (procs j) < pi_pid (procs i)"
    | "pi_pid (procs j) = pi_pid (procs i)"
    by linarith
  then show ?case
  proof cases
    case 1
    then show ?thesis using Node.IH(1) [OF o(1)] R by fastforce
  next
    case 2
    then show ?thesis using Node.IH(2) [OF o(2)] L by fastforce
  next
    case 3
    then show ?thesis by simp
  qed
qed

lemma link_Some:
  "ordered procs t \<Longrightarrow> link_node procs i t = Some t' \<Longrightarrow>
   ordered procs t' \<and> set_tree t' = insert i (set_tree t)"
proof (induction t arbitrary: t')
  case Leaf
  then have "t' = Node Leaf i Leaf" by simp
  then show ?case by simp
next
  case (Node l j r)
  from Node.prems(1) have o: "ordered procs l" "ordered procs r" by simp_all
  consider "pi_pid (procs i) < pi_pid (procs j)" | "pi_pid (procs j) < pi_pid (procs i)"
    | "pi_pid (procs j) = pi_pid (procs i)"
    by linarith
  then show ?case
  proof cases
    case 1
    with Node.prems(2) obtain l' where l': "link_node procs i l = Some l'" "t' = Node l' j r" by auto
    note Node.IH(1) [OF o(1) l'(1)]
    with Node.prems(1) 1 show ?thesis by (simp add: l'(2) insert_commute)
  next
    case 2
    then have "\<not> pi_pid (procs i) < pi_pid (procs j)" by simp
    with 2 Node.prems(2) obtain r' where r': "link_node procs i r = Some r'" "t' = Node l j r'" by auto
    note Node.IH(2) [OF o(2) r'(1)]
    with Node.prems(1) 2 show ?thesis by (simp add: r'(2) insert_commute)
  next
    case 3
    with Node.prems(2) show ?thesis by simp
  qed
qed

interpretation pid_tree: pid_index
  "\<lambda>(K, procs) t p. uroam_process_tree_search procs p t"
  "\<lambda>(K, procs) i t. uroam_process_tree_insert K procs i t"
  "\<lambda>(K, procs) i. pi_pid (procs i)"
  "set_tree"
  "\<lambda>(K, procs) t. rb_ok K \<and> ordered procs t"
proof (unfold_locales, goal_cases)
  case (1 c t p i)
  then show ?case by (cases c) (simp add: search_Some)
next
  case (2 c t i)
  obtain K procs where c: "c = (K, procs)" by fastforce
  with 2 have t: "rb_ok K" "ordered procs t" by simp_all
  from 2 have "\<not> (\<exists>j \<in> set_tree t. pi_pid (procs j) = pi_pid (procs i))"
    by (auto simp: c image_iff)
  then obtain t' where t': "link_node procs i t = Some t'"
    using link_None [OF t(2), of i] by auto
  have "inorder (rb_insert_color K i t') = inorder t'"
    using t(1) by (simp add: rb_ok_def)
  note same = ordered_inorder [OF this] set_tree_inorder [OF this]
  show ?case
    using link_Some [OF t(2) t'] t(1) by (simp add: c uroam_process_tree_insert_def t' same)
next
  case (3 c t i)
  obtain K procs where c: "c = (K, procs)" by fastforce
  with 3 have t: "rb_ok K" "ordered procs t" by simp_all
  have "link_node procs i t = None"
    unfolding link_None [OF t(2)] using 3 by (auto simp: c)
  then show ?case by (simp add: c uroam_process_tree_insert_def)
qed

end
