(* ===== verification/Tracking_Map.thy ===== *)
theory Tracking_Map
  imports Pid_Index
begin

section \<open>Tracking as a map from pids\<close>

text \<open>
  The abstract specification of the tracking component: a map from pids to what is known of the
  process. The invariant of the concrete state (array, counter, tree), the refinement of the
  update of one process, of the scan and of the lookup, and the cases where the component does
  not do what its names promise.
\<close>

subsection \<open>Invariant and abstraction\<close>

definition tracking_ok :: "kenv \<Rightarrow> 'a tracking_state_scheme \<Rightarrow> bool" where
  "tracking_ok K s \<longleftrightarrow> rb_ok K \<and>
     ordered (tracked_processes s) (uroam_process_tree s) \<and>
     set_tree (uroam_process_tree s) = {..<unat (tracked_count s)} \<and>
     unat (tracked_count s) \<le> MAX_TRACKED_PROCESSES \<and>
     (\<forall>i. length (pi_comm (tracked_processes s i)) = TASK_COMM_LEN)"

definition tracked :: "'a tracking_state_scheme \<Rightarrow> int \<rightharpoonup> uroam_process_info" where
  "tracked s p = map_option (tracked_processes s)
     (uroam_process_tree_search (tracked_processes s) p (uroam_process_tree s))"

definition process_memory :: "kenv \<Rightarrow> task_struct \<Rightarrow> u64 \<times> u64 \<times> u64" where
  "process_memory K task =
     (case t_mm task of
        None \<Rightarrow> (0, 0, 0)
      | Some mm \<Rightarrow>
          let rss = (if mm_filepages mm + mm_anonpages mm + mm_swapents mm \<noteq> 0
                     then (mm_filepages mm + mm_anonpages mm) * page_size K else 0);
              swap = mm_swapents mm * page_size K
          in (rss + swap + mm_filepages mm * page_size K, rss, swap))"

text \<open>What is known of a process when it is met again, and when it is new.\<close>

definition met_again :: "kenv \<Rightarrow> task_struct \<Rightarrow> uroam_process_info \<Rightarrow> uroam_process_info" where
  "met_again K task p =
     refresh_process (get_task_comm task) (uroam_get_numa_node task) (process_memory K task) p"

definition met_first :: "kenv \<Rightarrow> task_struct \<Rightarrow> uroam_process_info" where
  "met_first K task = met_again K task (classify_process (t_pid task) task (get_task_comm task) zero_process)"

definition track ::
  "kenv \<Rightarrow> task_struct \<Rightarrow> (int \<rightharpoonup> uroam_process_info) \<Rightarrow> (int \<rightharpoonup> uroam_process_info)" where
  "track K task m =
     (case m (t_pid task) of
        Some p \<Rightarrow> m(t_pid task \<mapsto> met_again K task p)
      | None \<Rightarrow>
          if card (dom m) < MAX_TRACKED_PROCESSES then m(t_pid task \<mapsto> met_first K task) else m)"

subsection \<open>The pieces of an update\<close>

definition mm_calls :: "task_struct \<Rightarrow> kcall list" where
  "mm_calls task = Acquire R_mm (t_mm task \<noteq> None) # (if t_mm task = None then [] else [Release R_mm])"

lemma get_process_memory_eq:
  "uroam_get_process_memory K task s = (process_memory K task, s\<lparr>klog := klog s @ mm_calls task\<rparr>)"
  by (cases "t_mm task")
     (simp_all add: uroam_get_process_memory_def process_memory_def mm_calls_def kdo_def Let_def)

lemma refresh_pid [simp]: "pi_pid (refresh_process comm node mem p) = pi_pid p"
  by (simp add: refresh_process_def split: prod.splits)

lemma refresh_comm [simp]:
  "pi_comm (refresh_process comm node mem p) = c_strncpy (pi_comm p) comm TASK_COMM_LEN"
  by (simp add: refresh_process_def split: prod.splits)

lemma classify_sel [simp]:
  "pi_pid (classify_process pid task comm p) = pid"
  "pi_comm (classify_process pid task comm p) = pi_comm p"
  by (simp_all add: classify_process_def)

lemma c_strncpy_all: "length b = n \<Longrightarrow> length c = n \<Longrightarrow> c_strncpy b s n = c_strncpy c s n"
  by (simp add: c_strncpy_def)

lemma met_first_any:
  assumes "length (pi_comm p) = TASK_COMM_LEN"
  shows "refresh_process (get_task_comm task) (uroam_get_numa_node task) (process_memory K task)
      (classify_process (t_pid task) task (get_task_comm task) p) = met_first K task"
  using c_strncpy_all [OF assms, of "replicate TASK_COMM_LEN NUL" "get_task_comm task"]
  by (simp add: met_first_def met_again_def refresh_process_def classify_process_def
      zero_process_def split: prod.splits)

lemma pi_pid_met_first [simp]: "pi_pid (met_first K task) = t_pid task"
  by (simp add: met_first_def met_again_def)

lemma pi_pid_met_again [simp]: "pi_pid (met_again K task p) = pi_pid p"
  by (simp add: met_again_def)

text \<open>What an update does on each of its three paths, with the calls it makes.\<close>

definition entry_calls :: "task_struct \<Rightarrow> nat \<Rightarrow> kcall list" where
  "entry_calls task i = Lock Tree_lock # mm_calls task @
     (if MAX_TRACKED_PROCESSES \<le> i then [Out_of_bounds ''tracked_processes'' i] else [])"

lemma update_known:
  assumes "uroam_process_tree_search (tracked_processes s) (t_pid task) (uroam_process_tree s) = Some i"
  shows "uroam_tracking_update_process K task s =
    s\<lparr>klog := klog s @ entry_calls task i @ [Unlock Tree_lock],
      tracked_processes := (tracked_processes s)(i := met_again K task (tracked_processes s i))\<rparr>"
  using assms
  by (simp add: uroam_tracking_update_process_def Let_def get_process_memory_eq set_process_def
      entry_calls_def met_again_def access_def kdo_if_def kdo_def)

lemma update_full:
  assumes "uroam_process_tree_search (tracked_processes s) (t_pid task) (uroam_process_tree s) = None"
    and "\<not> unat (tracked_count s) < MAX_TRACKED_PROCESSES"
  shows "uroam_tracking_update_process K task s =
    s\<lparr>klog := klog s @ [Lock Tree_lock, Unlock Tree_lock]\<rparr>"
  using assms by (simp add: uroam_tracking_update_process_def Let_def kdo_def)

text \<open>The state in which the new entry is announced.\<close>

definition entered :: "kenv \<Rightarrow> task_struct \<Rightarrow> 'a tracking_state_scheme \<Rightarrow> 'a tracking_state_scheme" where
  "entered K task s =
     (let i = unat (tracked_count s);
          procs = (tracked_processes s)(i := refresh_process (get_task_comm task)
             (uroam_get_numa_node task) (process_memory K task)
             (classify_process (t_pid task) task (get_task_comm task) (tracked_processes s i)))
      in s\<lparr>klog := klog s @ entry_calls task i,
           tracked_processes := procs,
           uroam_process_tree := snd (uroam_process_tree_insert K procs i (uroam_process_tree s)),
           tracked_count := tracked_count s + 1\<rparr>)"

definition announce_calls :: "kenv \<Rightarrow> task_struct \<Rightarrow> 'a tracking_state_scheme \<Rightarrow> kcall list" where
  "announce_calls K task s =
     snd (send_calls K UROAM_NL_MSG_PROCESS
       (bytes_process (process_msg (uninit_comm K (klog s)) (t_pid task)
          (Some (tracked_processes s (unat (tracked_count s - 1)))))) 0 s)"

lemma update_new:
  assumes "uroam_process_tree_search (tracked_processes s) (t_pid task) (uroam_process_tree s) = None"
    and "unat (tracked_count s) < MAX_TRACKED_PROCESSES"
  shows "\<exists>seq. uroam_tracking_update_process K task s =
    (entered K task s)\<lparr>uroam_nl_seq := seq, klog := klog (entered K task s) @
        announce_calls K task (entered K task s) @ [Unlock Tree_lock]\<rparr>"
proof -
  have acc: "\<not> MAX_TRACKED_PROCESSES \<le> unat (tracked_count s)" using assms(2) by simp
  let ?e = "entered K task s"
  let ?n = "next_seq K UROAM_NL_MSG_PROCESS (bytes_process (process_msg (uninit_comm K (klog ?e))
      (t_pid task) (Some (tracked_processes ?e (unat (tracked_count s)))))) 0 ?e"
  have ind: "tracked_count ?e - 1 = tracked_count s" by (simp add: entered_def Let_def)
  have "uroam_tracking_update_process K task s =
      kdo (Unlock Tree_lock) (snd (uroam_netlink_send_process_update K (t_pid task)
        (Some (tracked_processes ?e (unat (tracked_count s)))) ?e))"
    using assms acc
    by (simp add: uroam_tracking_update_process_def Let_def get_process_memory_eq set_process_def
        access_def kdo_if_def kdo_def entered_def entry_calls_def case_prod_unfold)
  also have "snd (uroam_netlink_send_process_update K (t_pid task)
        (Some (tracked_processes ?e (unat (tracked_count s)))) ?e) =
      ?e\<lparr>klog := klog ?e @ announce_calls K task ?e, uroam_nl_seq := ?n\<rparr>"
    by (simp add: uroam_netlink_send_process_update_def send_klog_eq announce_calls_def ind)
  finally show ?thesis
    by (intro exI [of _ ?n]) (simp only: kdo_def, simp)
qed

subsection \<open>Refinement of the update\<close>

lemma search_cong:
  "(\<And>i. i \<in> set_tree t \<Longrightarrow> pi_pid (procs i) = pi_pid (procs' i)) \<Longrightarrow>
   uroam_process_tree_search procs p t = uroam_process_tree_search procs' p t"
  by (induction t) (simp_all add: Let_def uroam_process_info_cmp_def)

lemma search_iff:
  assumes "tracking_ok K s"
  shows "uroam_process_tree_search (tracked_processes s) p (uroam_process_tree s) = Some i \<longleftrightarrow>
     i < unat (tracked_count s) \<and> pi_pid (tracked_processes s i) = p"
  using assms by (simp add: tracking_ok_def search_Some)

lemma pid_inj:
  assumes "tracking_ok K s"
  shows "inj_on (\<lambda>i. pi_pid (tracked_processes s i)) {..<unat (tracked_count s)}"
  using pid_tree.key_inj [of "(K, tracked_processes s)" "uroam_process_tree s"] assms
  by (simp add: tracking_ok_def)

lemma dom_tracked:
  assumes "tracking_ok K s"
  shows "dom (tracked s) = (\<lambda>i. pi_pid (tracked_processes s i)) ` {..<unat (tracked_count s)}"
  using search_iff [OF assms] by (auto simp: tracked_def dom_def)

lemma card_dom_tracked:
  assumes "tracking_ok K s"
  shows "card (dom (tracked s)) = unat (tracked_count s)"
  by (simp add: dom_tracked [OF assms] card_image pid_inj [OF assms])

lemma tracked_known:
  assumes "tracking_ok K s" and "tracked s p = Some info"
  obtains i where "uroam_process_tree_search (tracked_processes s) p (uroam_process_tree s) = Some i"
    "i < unat (tracked_count s)" "info = tracked_processes s i" "pi_pid info = p"
  using assms(2) search_iff [OF assms(1)] by (auto simp: tracked_def)

lemma tracking_ok_log [simp]: "tracking_ok K (s\<lparr>klog := l\<rparr>) = tracking_ok K s"
  and tracked_log [simp]: "tracked (s\<lparr>klog := l\<rparr>) = tracked s"
  by (simp_all add: tracking_ok_def tracked_def fun_eq_iff)

lemma tracking_ok_seq [simp]: "tracking_ok K (s\<lparr>uroam_nl_seq := n\<rparr>) = tracking_ok K s"
  and tracked_seq [simp]: "tracked (s\<lparr>uroam_nl_seq := n\<rparr>) = tracked s"
  by (simp_all add: tracking_ok_def tracked_def fun_eq_iff)

lemma length_c_strncpy_comm [simp]:
  "length b = TASK_COMM_LEN \<Longrightarrow> length (c_strncpy b c TASK_COMM_LEN) = TASK_COMM_LEN"
  by (simp add: length_c_strncpy)

lemma met_again_comm [simp]:
  "length (pi_comm p) = TASK_COMM_LEN \<Longrightarrow> length (pi_comm (met_again K task p)) = TASK_COMM_LEN"
  by (simp add: met_again_def)

lemma met_first_comm [simp]: "length (pi_comm (met_first K task)) = TASK_COMM_LEN"
  by (simp add: met_first_def zero_process_def)

text \<open>The array after an entry was rewritten without touching its pid.\<close>

lemma rewrite_entry:
  assumes "tracking_ok K s" and "i < unat (tracked_count s)"
    and "pi_pid info = pi_pid (tracked_processes s i)" and "length (pi_comm info) = TASK_COMM_LEN"
  defines "s' \<equiv> s\<lparr>tracked_processes := (tracked_processes s)(i := info)\<rparr>"
  shows "tracking_ok K s' \<and> tracked s' = (tracked s)(pi_pid info \<mapsto> info)"
proof -
  have pids: "pi_pid (((tracked_processes s)(i := info)) j) = pi_pid (tracked_processes s j)" for j
    using assms(3) by simp
  have "tracking_ok K s'"
    using assms(1,4) by (simp add: s'_def tracking_ok_def ordered_def pids del: fun_upd_apply)
       (simp add: fun_upd_apply)
  moreover have "tracked s' p = ((tracked s)(pi_pid info \<mapsto> info)) p" for p
  proof -
    have search: "uroam_process_tree_search ((tracked_processes s)(i := info)) p (uroam_process_tree s) =
        uroam_process_tree_search (tracked_processes s) p (uroam_process_tree s)"
      by (rule search_cong) (rule pids)
    have own: "uroam_process_tree_search (tracked_processes s) p (uroam_process_tree s) = Some i
        \<longleftrightarrow> p = pi_pid info"
      using search_iff [OF assms(1)] assms(2,3) by auto
    show ?thesis
      unfolding s'_def tracked_def
      by (cases "uroam_process_tree_search (tracked_processes s) p (uroam_process_tree s)")
         (use own in \<open>auto simp: search\<close>)
  qed
  ultimately show ?thesis by blast
qed

text \<open>The state after an entry was added behind the others.\<close>

lemma add_entry:
  assumes "tracking_ok K s" and "tracked s (pi_pid info) = None"
    and "unat (tracked_count s) < MAX_TRACKED_PROCESSES" and "length (pi_comm info) = TASK_COMM_LEN"
  defines "procs \<equiv> (tracked_processes s)(unat (tracked_count s) := info)"
  defines "s' \<equiv> s\<lparr>tracked_processes := procs,
    uroam_process_tree := snd (uroam_process_tree_insert K procs (unat (tracked_count s)) (uroam_process_tree s)),
    tracked_count := tracked_count s + 1\<rparr>"
  shows "tracking_ok K s' \<and> tracked s' = (tracked s)(pi_pid info \<mapsto> info)"
proof -
  let ?i = "unat (tracked_count s)" and ?t = "uroam_process_tree s"
  let ?t' = "snd (uroam_process_tree_insert K procs ?i ?t)"
  have set: "set_tree ?t = {..<?i}" using assms(1) by (simp add: tracking_ok_def)
  have same: "pi_pid (tracked_processes s j) = pi_pid (procs j)" if "j \<in> set_tree ?t" for j
    using that by (simp add: set procs_def)
  have ctx: "rb_ok K \<and> ordered procs ?t"
    using assms(1) ordered_cong [of ?t "tracked_processes s" procs, OF same]
    by (simp add: tracking_ok_def)
  have search: "uroam_process_tree_search procs p ?t = uroam_process_tree_search (tracked_processes s) p ?t" for p
    by (rule search_cong) (simp add: same)
  have key: "pi_pid (procs ?i) = pi_pid info" by (simp add: procs_def)
  have none: "uroam_process_tree_search procs (pi_pid info) ?t = None"
    using assms(2) by (simp add: tracked_def search)
  then have new: "pi_pid info \<notin> (\<lambda>j. pi_pid (procs j)) ` set_tree ?t"
    using pid_tree.srch_None [of "(K, procs)" ?t "pi_pid info"] ctx by simp
  have ins: "uroam_process_tree_search procs p ?t' =
      (if p = pi_pid info then Some ?i else uroam_process_tree_search procs p ?t)" for p
    using pid_tree.srch_ins [of "(K, procs)" ?t ?i] ctx none
    by (simp add: key fun_eq_iff)
  have post: "ordered procs ?t'" "set_tree ?t' = insert ?i (set_tree ?t)"
    using pid_tree.ins_new [of "(K, procs)" ?t ?i] ctx new by (simp_all add: key)
  have count: "unat (tracked_count s + 1) = Suc ?i"
    using assms(3) by (simp add: unat_word_ariths MAX_TRACKED_PROCESSES_def)
  have "tracking_ok K s'"
    using assms(1,3,4) post
    by (simp add: tracking_ok_def s'_def set count lessThan_Suc procs_def)
  moreover have "tracked s' p = ((tracked s)(pi_pid info \<mapsto> info)) p" for p
  proof -
    have "uroam_process_tree_search (tracked_processes s) p ?t \<noteq> Some ?i"
      using search_iff [OF assms(1)] by simp
    moreover have "tracked s' p = map_option procs (uroam_process_tree_search procs p ?t')"
      by (simp add: s'_def tracked_def)
    ultimately show ?thesis
      unfolding ins search
      by (cases "uroam_process_tree_search (tracked_processes s) p ?t")
         (simp_all add: tracked_def procs_def)
  qed
  ultimately show ?thesis by blast
qed

lemma update_refines:
  assumes "tracking_ok K s"
  shows "tracking_ok K (uroam_tracking_update_process K task s) \<and>
    tracked (uroam_tracking_update_process K task s) = track K task (tracked s)"
proof (cases "tracked s (t_pid task)")
  case (Some info)
  then obtain i where i: "uroam_process_tree_search (tracked_processes s) (t_pid task)
      (uroam_process_tree s) = Some i" "i < unat (tracked_count s)" "info = tracked_processes s i"
      "pi_pid info = t_pid task"
    by (rule tracked_known [OF assms])
  let ?info = "met_again K task (tracked_processes s i)"
  have "tracking_ok K (s\<lparr>tracked_processes := (tracked_processes s)(i := ?info)\<rparr>) \<and>
      tracked (s\<lparr>tracked_processes := (tracked_processes s)(i := ?info)\<rparr>) = (tracked s)(pi_pid ?info \<mapsto> ?info)"
    by (rule rewrite_entry) (use assms i in \<open>simp_all add: tracking_ok_def\<close>)
  moreover have "uroam_tracking_update_process K task s =
      (s\<lparr>tracked_processes := (tracked_processes s)(i := ?info)\<rparr>)
       \<lparr>klog := klog s @ entry_calls task i @ [Unlock Tree_lock]\<rparr>"
    by (simp add: update_known [OF i(1)])
  ultimately show ?thesis
    using i Some by (simp add: track_def)
next
  case None
  then have search: "uroam_process_tree_search (tracked_processes s) (t_pid task) (uroam_process_tree s) = None"
    by (simp add: tracked_def)
  show ?thesis
  proof (cases "unat (tracked_count s) < MAX_TRACKED_PROCESSES")
    case False
    then show ?thesis
      using None assms card_dom_tracked [OF assms] by (simp add: update_full [OF search] track_def)
  next
    case True
    obtain seq where eq: "uroam_tracking_update_process K task s =
      (entered K task s)\<lparr>uroam_nl_seq := seq, klog := klog (entered K task s) @
        announce_calls K task (entered K task s) @ [Unlock Tree_lock]\<rparr>"
      using update_new [OF search True] by blast
    have len: "length (pi_comm (tracked_processes s (unat (tracked_count s)))) = TASK_COMM_LEN"
      using assms by (simp add: tracking_ok_def)
    let ?procs = "(tracked_processes s)(unat (tracked_count s) := met_first K task)"
    let ?s = "s\<lparr>tracked_processes := ?procs,
      uroam_process_tree := snd (uroam_process_tree_insert K ?procs (unat (tracked_count s)) (uroam_process_tree s)),
      tracked_count := tracked_count s + 1\<rparr>"
    have "tracking_ok K ?s \<and> tracked ?s = (tracked s)(pi_pid (met_first K task) \<mapsto> met_first K task)"
      by (rule add_entry) (use assms None True in simp_all)
    moreover have "tracking_ok K (entered K task s) = tracking_ok K ?s" "tracked (entered K task s) = tracked ?s"
      by (simp_all add: entered_def Let_def met_first_any [OF len] tracking_ok_def tracked_def fun_eq_iff)
    ultimately show ?thesis
      using None True card_dom_tracked [OF assms] by (simp add: eq track_def)
  qed
qed

subsection \<open>Runs of the component\<close>

text \<open>What the rest of the module does with the component: update processes, look them up.\<close>

datatype tracking_event = Ev_update task_struct | Ev_lookup int

fun tracking_step :: "kenv \<Rightarrow> 'a tracking_state_scheme \<Rightarrow> tracking_event \<Rightarrow> 'a tracking_state_scheme" where
  "tracking_step K s (Ev_update task) = uroam_tracking_update_process K task s"
| "tracking_step K s (Ev_lookup pid) = snd (uroam_tracking_get_process pid s)"

lemma get_process_state:
  "snd (uroam_tracking_get_process pid s) = s\<lparr>klog := klog s @ [Lock Tree_lock, Unlock Tree_lock]\<rparr>"
  by (simp add: uroam_tracking_get_process_def Let_def kdo_def)

lemma tracking_step_ok: "tracking_ok K s \<Longrightarrow> tracking_ok K (tracking_step K s e)"
  by (cases e) (simp_all add: update_refines get_process_state)

interpretation tracking_machine: machine "tracking_step K" "tracking_ok K" for K
  by unfold_locales (rule tracking_step_ok)

lemma tracking_step_tracked:
  "tracking_ok K s \<Longrightarrow> tracked (tracking_step K s e) =
     (case e of Ev_update task \<Rightarrow> track K task (tracked s) | Ev_lookup _ \<Rightarrow> tracked s)"
  by (cases e) (simp_all add: update_refines get_process_state)

text \<open>The calls of an update: the locks balance, every reference is given back.\<close>

lemma entry_calls_locks:
  "Tree_lock \<notin> set h \<Longrightarrow> lock_run h (entry_calls task i) = Some (Tree_lock # h)"
  by (simp add: entry_calls_def mm_calls_def)

lemma entry_calls_ranks: "rank_run [] (entry_calls task i) = Some [Tree_lock]"
  by (simp add: entry_calls_def mm_calls_def)

lemma entry_calls_held [simp]: "held r (entry_calls task i) = 0"
  by (simp add: entry_calls_def mm_calls_def)

lemma update_calls:
  "\<exists>cs. klog (uroam_tracking_update_process K task s) = klog s @ cs \<and>
     (\<forall>h. set h \<inter> {Tree_lock, Nl_mutex} = {} \<longrightarrow> lock_run h cs = Some h) \<and> rank_run [] cs = Some [] \<and>
     (\<forall>r. r \<noteq> R_skb \<longrightarrow> held r cs = 0)"
proof (cases "uroam_process_tree_search (tracked_processes s) (t_pid task) (uroam_process_tree s)")
  case (Some i)
  then show ?thesis
    by (intro exI [of _ "entry_calls task i @ [Unlock Tree_lock]"])
       (simp add: update_known lock_run_append entry_calls_locks rank_run_append entry_calls_ranks)
next
  case None
  show ?thesis
  proof (cases "unat (tracked_count s) < MAX_TRACKED_PROCESSES")
    case False
    with None show ?thesis
      by (intro exI [of _ "[Lock Tree_lock, Unlock Tree_lock]"]) (simp add: update_full)
  next
    case True
    let ?e = "entered K task s"
    have "klog ?e = klog s @ entry_calls task (unat (tracked_count s))"
      by (simp add: entered_def Let_def)
    with update_new [OF None True, of K] show ?thesis
      by (intro exI [of _ "entry_calls task (unat (tracked_count s)) @ announce_calls K task ?e @
          [Unlock Tree_lock]"])
         (auto simp: lock_run_append entry_calls_locks rank_run_append entry_calls_ranks
           announce_calls_def lock_run_send_calls rank_run_send_calls held_send_calls)
  qed
qed

interpretation update: locked_op "uroam_tracking_update_process K" klog "{Tree_lock, Nl_mutex}" for K
  by unfold_locales (use update_calls in blast)

subsection \<open>The scan\<close>

lemma kdo_tracking [simp]:
  "tracking_ok K (kdo c s) = tracking_ok K s" "tracked (kdo c s) = tracked s"
  by (simp_all add: kdo_def)

lemma scan_one_refines:
  assumes "tracking_ok K s"
  shows "tracking_ok K (scan_one K q s) \<and> tracked (scan_one K q s) =
    (case get_pid_task K (klog s) q of None \<Rightarrow> tracked s | Some task \<Rightarrow> track K task (tracked s))"
  using assms by (simp add: scan_one_def Let_def update_refines split: option.splits)

text \<open>The processes stand still during a scan: \<open>tasks\<close> are the ones there are, and their pids are
  kept when the scan gives its references back.\<close>

definition stable_processes :: "kenv \<Rightarrow> (int \<rightharpoonup> task_struct) \<Rightarrow> bool" where
  "stable_processes K tasks \<longleftrightarrow>
     (\<forall>h p. find_get_pid K h p = (if tasks p = None then None else Some p) \<and>
            get_pid_task K h p = tasks p \<and> pid_nr_after_put K h p = p) \<and>
     (\<forall>p task. tasks p = Some task \<longrightarrow> t_pid task = p)"

lemma scan_from_stable:
  assumes "stable_processes K tasks" and "tasks g = None" and "\<forall>p. nr \<le> p \<and> p < g \<longrightarrow> tasks p \<noteq> None"
    and "nr \<le> g" and "tracking_ok K s"
  shows "\<exists>s'. scan_from K nr s = Some s' \<and> tracking_ok K s' \<and>
    tracked s' = fold (\<lambda>p. track K (the (tasks p))) [nr..g - 1] (tracked s)"
  using assms(3,4,5)
proof (induction "nat (g - nr)" arbitrary: nr s)
  case 0
  then have "nr = g" by simp
  then show ?case
    using assms(1,2) 0 by (subst scan_from.simps) (simp add: stable_processes_def Let_def)
next
  case (Suc n)
  then have less: "nr < g" by simp
  then obtain task where task: "tasks nr = Some task" using Suc.prems(1) by blast
  let ?s1 = "kdo (Acquire R_pid True) s"
  have "\<exists>s'. scan_from K (nr + 1) (scan_one K nr ?s1) = Some s' \<and> tracking_ok K s' \<and>
      tracked s' = fold (\<lambda>p. track K (the (tasks p))) [nr + 1..g - 1] (tracked (scan_one K nr ?s1))"
    by (rule Suc.hyps) (use Suc less in \<open>simp_all add: scan_one_refines\<close>)
  moreover have "tracked (scan_one K nr ?s1) = track K task (tracked s)"
    using scan_one_refines [of K ?s1 nr] Suc.prems(3) assms(1) task
    by (simp add: stable_processes_def)
  moreover have "scan_from K nr s = scan_from K (nr + 1) (scan_one K nr ?s1)"
    using assms(1) task by (subst scan_from.simps) (simp add: stable_processes_def Let_def)
  moreover have "[nr..g - 1] = nr # [nr + 1..g - 1]"
    using less by (simp add: upto_rec1)
  ultimately show ?case by (simp add: task)
qed

text \<open>Pids are bounded, a lookup finds the pid that was asked for, and the number the scan reads
  from a pid after giving its reference back is no smaller than the pid: the memory was not freed
  and given to something else in between.\<close>

definition bounded_pids :: "kenv \<Rightarrow> int \<Rightarrow> bool" where
  "bounded_pids K m \<longleftrightarrow>
     (\<forall>h p. m < p \<longrightarrow> find_get_pid K h p = None) \<and>
     (\<forall>h p q. find_get_pid K h p = Some q \<longrightarrow> q = p) \<and>
     (\<forall>h q. q \<le> pid_nr_after_put K h q)"

text \<open>What a scan keeps, whatever the kernel answers: \<open>P\<close> relates the states it passes through.\<close>

lemma scan_from_keeps:
  assumes "bounded_pids K m"
    and refl: "\<And>s. P s s" and trans: "\<And>s t u. P s t \<Longrightarrow> P t u \<Longrightarrow> P s u"
    and none: "\<And>s. P s (kdo (Acquire R_pid False) s)"
    and one: "\<And>q s. P s (scan_one K q (kdo (Acquire R_pid True) s))"
  shows "\<exists>s'. scan_from K nr s = Some s' \<and> P s s'"
proof (induction "nat (m + 1 - nr)" arbitrary: nr s rule: less_induct)
  case less
  show ?case
  proof (cases "find_get_pid K (klog s) nr")
    case None
    then show ?thesis
      by (subst scan_from.simps) (simp add: Let_def none)
  next
    case (Some q)
    then have q: "q = nr" "nr \<le> m"
      using assms(1) by (auto simp: bounded_pids_def intro: leI)
    let ?t = "scan_one K nr (kdo (Acquire R_pid True) s)"
    let ?next = "pid_nr_after_put K (klog ?t) nr + 1"
    have "nr < ?next" using assms(1) by (simp add: bounded_pids_def le_imp_0_less add.commute add_increasing
        zle_add1_eq_le [symmetric])
    then obtain s' where "scan_from K ?next ?t = Some s'" "P ?t s'"
      using less.hyps [of ?next ?t] q(2) by auto
    then show ?thesis
      using Some q trans [OF one] by (subst scan_from.simps) (auto simp: Let_def)
  qed
qed

lemma scan_one_calls:
  "\<exists>cs. klog (scan_one K q (kdo (Acquire R_pid True) s)) = klog s @ cs \<and>
     (\<forall>h. set h \<inter> {Tree_lock, Nl_mutex} = {} \<longrightarrow> lock_run h cs = Some h) \<and> rank_run [] cs = Some [] \<and>
     (\<forall>r. r \<noteq> R_skb \<longrightarrow> held r cs = 0)"
proof (cases "get_pid_task K (klog s @ [Acquire R_pid True]) q")
  case None
  then show ?thesis
    by (intro exI [of _ "[Acquire R_pid True, Acquire R_task False, Release R_pid]"])
       (simp add: scan_one_def Let_def)
next
  case (Some task)
  let ?s = "kdo (Acquire R_task True) (kdo (Acquire R_pid True) s)"
  obtain cs where cs: "klog (uroam_tracking_update_process K task ?s) = klog ?s @ cs"
    "\<forall>h. set h \<inter> {Tree_lock, Nl_mutex} = {} \<longrightarrow> lock_run h cs = Some h" "rank_run [] cs = Some []"
    "\<forall>r. r \<noteq> R_skb \<longrightarrow> held r cs = 0"
    using update_calls [of K task ?s] by blast
  then show ?thesis
    using Some
    by (intro exI [of _ "[Acquire R_pid True, Acquire R_task True] @ cs @ [Release R_task, Release R_pid]"])
       (auto simp: scan_one_def Let_def lock_run_append rank_run_append)
qed

lemma scan_returns:
  assumes "bounded_pids K m"
  shows "\<exists>s' cs. uroam_tracking_scan K s = Some s' \<and> klog s' = klog s @ cs \<and>
    (\<forall>h. set h \<inter> {Tree_lock, Nl_mutex} = {} \<longrightarrow> lock_run h cs = Some h) \<and> rank_run [] cs = Some [] \<and>
    (\<forall>r. r \<noteq> R_skb \<longrightarrow> held r cs = 0)"
proof -
  let ?P = "\<lambda>(s :: 'a tracking_state_scheme) s'. \<exists>cs. klog s' = klog s @ cs \<and>
    (\<forall>h. set h \<inter> {Tree_lock, Nl_mutex} = {} \<longrightarrow> lock_run h cs = Some h) \<and> rank_run [] cs = Some [] \<and>
    (\<forall>r. r \<noteq> R_skb \<longrightarrow> held r cs = 0)"
  have "\<exists>s'. scan_from K 1 s = Some s' \<and> ?P s s'"
  proof (rule scan_from_keeps [OF assms, where P = ?P])
    show "?P s s" for s :: "'a tracking_state_scheme"
      by (rule exI [of _ "[]"]) simp
    show "?P s u" if st: "?P s t" and tu: "?P t u" for s t u :: "'a tracking_state_scheme"
    proof -
      obtain cs where "klog t = klog s @ cs"
        "\<forall>h. set h \<inter> {Tree_lock, Nl_mutex} = {} \<longrightarrow> lock_run h cs = Some h" "rank_run [] cs = Some []"
        "\<forall>r. r \<noteq> R_skb \<longrightarrow> held r cs = 0" using st by blast
      moreover obtain ds where "klog u = klog t @ ds"
        "\<forall>h. set h \<inter> {Tree_lock, Nl_mutex} = {} \<longrightarrow> lock_run h ds = Some h" "rank_run [] ds = Some []"
        "\<forall>r. r \<noteq> R_skb \<longrightarrow> held r ds = 0" using tu by blast
      ultimately show ?thesis
        by (intro exI [of _ "cs @ ds"]) (simp add: lock_run_append rank_run_append)
    qed
    show "?P s (kdo (Acquire R_pid False) s)" for s :: "'a tracking_state_scheme"
      by (rule exI [of _ "[Acquire R_pid False]"]) simp
    show "?P s (scan_one K q (kdo (Acquire R_pid True) s))" for q and s :: "'a tracking_state_scheme"
      by (rule scan_one_calls)
  qed
  then show ?thesis by (auto simp: uroam_tracking_scan_def)
qed

subsection \<open>Example processes\<close>

definition example_task :: "int \<Rightarrow> string \<Rightarrow> task_struct" where
  "example_task p name = \<lparr>t_pid = p, t_comm = name,
     t_mm = Some \<lparr>mm_filepages = 1, mm_anonpages = 2, mm_swapents = 3, mm_brk = 0\<rparr>,
     t_mempolicy = None, t_numa_node = 0\<rparr>"

text \<open>Processes 1, 2 and 4; there is no process 3.\<close>

definition example_tasks :: "int \<rightharpoonup> task_struct" where
  "example_tasks = [1 \<mapsto> example_task 1 ''init'', 2 \<mapsto> example_task 2 ''steam'',
     4 \<mapsto> example_task 4 ''python'']"

abbreviation example_kernel :: kenv where "example_kernel \<equiv> kernel_ok 1 example_tasks"

lemma example_kernel_ok:
  "rb_ok (kernel_ok n tasks)" "stable_processes example_kernel example_tasks"
  "bounded_pids example_kernel 4"
  by (auto simp: rb_ok_def stable_processes_def bounded_pids_def kernel_ok_def example_tasks_def
      example_task_def split: if_splits option.splits)

lemma tracking_boot_ok:
  "rb_ok K \<Longrightarrow> tracking_ok K tracking_boot" "tracked tracking_boot = Map.empty"
  "klog tracking_boot = []"
  by (simp_all add: tracking_ok_def tracked_def fun_eq_iff tracking_boot_def tracking_state.defs
      numa_boot_def numa_state.defs hooks_boot_def hooks_state.defs pressure_boot_def
      pressure_state.defs nl_boot_def nl_state.defs uroam_state.defs uroam_global_state_def
      zero_process_def)

lemmas example_boot_ok = tracking_boot_ok(1) [OF example_kernel_ok(1)]

subsection \<open>Properties\<close>

text \<open>The update of a process refines the map: the component's invariant holds afterwards (the
  tree is a search tree over the pids that holds exactly the first \<open>tracked_count\<close> entries of the
  array), and what is known of every pid is what the specification \<open>track\<close> says: a known
  process gets new memory numbers, node and name and keeps its class, a new one is entered with
  its class, and in a full table it is left out.\<close>

theorem tracking_update_refines:
  assumes "tracking_ok K s"
  shows "let s' = uroam_tracking_update_process K task s in
    tracking_ok K s' \<and> tracked s' = track K task (tracked s) \<and>
    unat (tracked_count s') = card (dom (tracked s'))"
  using update_refines [OF assms, of task] card_dom_tracked [of K "uroam_tracking_update_process K task s"]
  by (simp add: Let_def)

theorem tracking_update_refines_witness:
  "tracked (uroam_tracking_update_process example_kernel (example_task 2 ''steam'') tracking_boot) 2 =
     Some (met_first example_kernel (example_task 2 ''steam''))"
  using tracking_update_refines [OF example_boot_ok [of 1 example_tasks], of "example_task 2 ''steam''"]
  by (simp add: Let_def tracking_boot_ok(2) track_def example_task_def MAX_TRACKED_PROCESSES_def)

text \<open>C1: Whatever updates and lookups are made after the module is loaded: what is known is the
  specification's map after the same updates; there are never more than 1024 entries; a lookup
  finds an entry exactly when the pid is in the map, and the entry is its entry.\<close>

theorem tracking_run_refines:
  assumes "rb_ok K"
  shows "let s = foldl (tracking_step K) tracking_boot es;
             m = fold (\<lambda>e m. case e of Ev_update task \<Rightarrow> track K task m | Ev_lookup _ \<Rightarrow> m) es Map.empty in
    tracked s = m \<and> card (dom m) \<le> 1024 \<and>
    map_option (tracked_processes s) (fst (uroam_tracking_get_process pid s)) = m pid"
proof -
  note boot = tracking_boot_ok(1) [OF assms] tracking_boot_ok(2)
  let ?s = "foldl (tracking_step K) tracking_boot es"
  have run: "tracked (foldl (tracking_step K) s es) =
      fold (\<lambda>e m. case e of Ev_update task \<Rightarrow> track K task m | Ev_lookup _ \<Rightarrow> m) es (tracked s)"
    if "tracking_ok K s" for s :: tracking_state
    using that
    by (induction es arbitrary: s) (simp_all add: tracking_step_ok tracking_step_tracked split: tracking_event.split)
  have ok: "tracking_ok K ?s"
    by (rule tracking_machine.inv_run) (rule boot(1))
  then have "card (dom (tracked ?s)) \<le> 1024"
    by (simp add: card_dom_tracked) (simp add: tracking_ok_def MAX_TRACKED_PROCESSES_def)
  moreover have "map_option (tracked_processes ?s) (fst (uroam_tracking_get_process pid ?s)) = tracked ?s pid"
    by (simp add: uroam_tracking_get_process_def Let_def tracked_def)
  ultimately show ?thesis
    by (simp add: run [OF boot(1)] boot(2) Let_def)
qed

theorem tracking_run_refines_witness:
  "let s = foldl (tracking_step example_kernel) tracking_boot
             [Ev_update (example_task 2 ''steam''), Ev_lookup 2, Ev_update (example_task 4 ''python'')]
   in tracked s 2 = Some (met_first example_kernel (example_task 2 ''steam'')) \<and> tracked s 3 = None"
  using tracking_run_refines [OF example_kernel_ok(1), of 1 example_tasks
      "[Ev_update (example_task 2 ''steam''), Ev_lookup 2, Ev_update (example_task 4 ''python'')]" 2]
  by (simp add: Let_def track_def example_task_def MAX_TRACKED_PROCESSES_def)

text \<open>C9: A scan sees the processes up to the first pid that is not in use, and no others: on a
  machine whose process 1 to \<open>g - 1\<close> exist and whose process \<open>g\<close> does not, the scan ends, enters
  or refreshes exactly those, in that order, and leaves what is known of every pid from \<open>g\<close> on as it was.\<close>

theorem tracking_scan_stops_at_gap:
  assumes "stable_processes K tasks" and "tasks g = None" and "1 \<le> g"
    and "\<forall>p. 1 \<le> p \<and> p < g \<longrightarrow> tasks p \<noteq> None" and "tracking_ok K s"
  shows "\<exists>s'. uroam_tracking_scan K s = Some s' \<and> tracking_ok K s' \<and>
    tracked s' = fold (\<lambda>p. track K (the (tasks p))) [1..g - 1] (tracked s) \<and>
    (\<forall>p. g \<le> p \<longrightarrow> tracked s' p = tracked s p)"
proof -
  obtain s' where s': "scan_from K 1 s = Some s'" "tracking_ok K s'"
    "tracked s' = fold (\<lambda>p. track K (the (tasks p))) [1..g - 1] (tracked s)"
    using scan_from_stable [OF assms(1,2,4,3,5)] by blast
  have "fold (\<lambda>p. track K (the (tasks p))) ps m q = m q"
    if "g \<le> q" "\<forall>p \<in> set ps. 1 \<le> p \<and> p < g" for q ps m
    using that(2)
  proof (induction ps arbitrary: m)
    case Nil
    then show ?case by simp
  next
    case (Cons p ps)
    then obtain task where "tasks p = Some task" using assms(4) by auto
    moreover then have "t_pid task = p" using assms(1) by (simp add: stable_processes_def)
    ultimately have "track K (the (tasks p)) m q = m q"
      using Cons.prems that(1) by (auto simp: track_def split: option.splits)
    with Cons show ?case by simp
  qed
  then show ?thesis
    using s' by (auto simp: uroam_tracking_scan_def)
qed

theorem tracking_scan_stops_at_gap_witness:
  "\<exists>s'. uroam_tracking_scan example_kernel tracking_boot = Some s' \<and>
     tracked s' 2 = Some (met_first example_kernel (example_task 2 ''steam'')) \<and>
     example_tasks 4 = Some (example_task 4 ''python'') \<and> tracked s' 4 = None"
proof -
  have gap: "example_tasks 3 = None" "\<forall>p. 1 \<le> p \<and> p < (3 :: int) \<longrightarrow> example_tasks p \<noteq> None"
    "example_tasks 1 = Some (example_task 1 ''init'')" "example_tasks 2 = Some (example_task 2 ''steam'')"
    "example_tasks 4 = Some (example_task 4 ''python'')"
    by (auto simp: example_tasks_def)
  have ps: "[1..3 - 1] = [1, 2 :: int]" by (simp add: upto_rec1)
  obtain s' where s': "uroam_tracking_scan example_kernel tracking_boot = Some s'"
    "tracked s' = fold (\<lambda>p. track example_kernel (the (example_tasks p))) [1..3 - 1] Map.empty"
    using tracking_scan_stops_at_gap [OF example_kernel_ok(2) gap(1) _ gap(2) example_boot_ok]
    by (auto simp: tracking_boot_ok(2))
  have "tracked s' = track example_kernel (example_task 2 ''steam'')
      (track example_kernel (example_task 1 ''init'') Map.empty)"
    unfolding s'(2) ps by (simp add: gap(3,4))
  then show ?thesis
    using s'(1) by (simp add: gap(5) track_def MAX_TRACKED_PROCESSES_def) (simp add: example_task_def)
qed

text \<open>C8: A scan ends on every machine with bounded pids, whatever processes come and go during it,
  as long as the number it reads from each pid after giving the pid's reference back is no smaller
  than the pid (the memory of the pid was not freed and used for something else in between:
  \<open>bounded_pids\<close>); it leaves the locks as they were and gives back every pid, task and address
  space it took. \<open>scan_reads_freed_pid\<close> shows that without that condition it may not end.\<close>

theorem tracking_scan_ends:
  assumes "bounded_pids K m" and "lock_run [] (klog s) = Some []"
  shows "\<exists>s'. uroam_tracking_scan K s = Some s' \<and> lock_run [] (klog s') = Some [] \<and>
    held R_pid (klog s') = held R_pid (klog s) \<and> held R_task (klog s') = held R_task (klog s) \<and>
    held R_mm (klog s') = held R_mm (klog s)"
proof -
  obtain s' cs where "uroam_tracking_scan K s = Some s'" "klog s' = klog s @ cs"
    "lock_run [] cs = Some []" "\<forall>r. r \<noteq> R_skb \<longrightarrow> held r cs = 0"
    using scan_returns [OF assms(1), of s] by fastforce
  then show ?thesis using assms(2) by (simp add: lock_run_append)
qed

theorem tracking_scan_ends_witness:
  "\<exists>s'. uroam_tracking_scan example_kernel tracking_boot = Some s' \<and> held R_mm (klog s') = 0"
  using tracking_scan_ends [OF example_kernel_ok(3), of tracking_boot]
  by (auto simp: tracking_boot_ok(3))

text \<open>The scan reads the number of a pid after it has given back its reference, when the memory may
  hold anything: if the number read for pid 1 is always 0, the scan looks pid 1 up again for ever.\<close>

theorem scan_reads_freed_pid:
  assumes "\<And>h. find_get_pid K h 1 = Some 1" and "\<And>h. pid_nr_after_put K h 1 = 0"
  shows "uroam_tracking_scan K s = None"
proof (rule ccontr)
  assume "uroam_tracking_scan K s \<noteq> None"
  then obtain t where t: "scan_from K 1 s = Some t" by (auto simp: uroam_tracking_scan_def)
  have "K' = K \<longrightarrow> nr = 1 \<longrightarrow> False" if "scan_from K' nr u = Some v"
    for K' nr and u v :: "'a tracking_state_scheme"
    by (rule scan_from.raw_induct [where P = "\<lambda>K' nr s t. K' = K \<longrightarrow> nr = 1 \<longrightarrow> False", OF _ that])
       (clarsimp simp: Let_def assms, blast)
  with t show False by blast
qed

theorem scan_reads_freed_pid_witness:
  "uroam_tracking_scan (example_kernel\<lparr>pid_nr_after_put := (\<lambda>_ _. 0)\<rparr>) tracking_boot = None"
  by (rule scan_reads_freed_pid) (simp_all add: kernel_ok_def example_tasks_def)

text \<open>The tracking thread ends: on a machine with bounded pids, when one of its waits returns
  something other than the time-out or finds the flag cleared, the thread function returns.\<close>

theorem tracking_thread_ends:
  assumes "bounded_pids K m" and "(ret, running) \<in> set ws" and "ret \<noteq> 0 \<or> \<not> running"
  shows "\<exists>s'. tracking_thread_fn K ws s = Some (s', True)"
  using assms(2,3)
proof (induction ws arbitrary: s)
  case Nil
  then show ?case by simp
next
  case (Cons w ws)
  obtain r b where w: "w = (r, b)" by fastforce
  obtain s1 where scan: "uroam_tracking_scan K s = Some s1"
    using scan_returns [OF assms(1), of s] by blast
  let ?t = "(kdo (Service (Wait_event Tracking_thread))
      (if numa_aware s1 then uroam_numa_update K s1 else s1))\<lparr>tracking_running := b\<rparr>"
  have "\<exists>s'. tracking_thread_fn K ws ?t = Some (s', True)" if "r = 0"
  proof (cases b)
    case True
    with that w Cons.prems have "(ret, running) \<in> set ws" by auto
    then show ?thesis using Cons.prems(2) by (rule Cons.IH)
  next
    case False
    then show ?thesis by (subst tracking_thread_fn.simps) simp
  qed
  then show ?case
    by (simp add: w tracking_thread_fn.simps [of K "(r, b) # ws"] scan Let_def)
qed

theorem tracking_thread_ends_witness:
  "\<exists>s'. tracking_thread_fn example_kernel [(0, True), (0, False)]
     (tracking_boot\<lparr>tracking_running := True\<rparr>) = Some (s', True)"
  by (rule tracking_thread_ends [OF example_kernel_ok(3), of 0 False]) simp_all

text \<open>The priority of a name: P0 for the name of an AI workload that also contains one of the four
  words of inference, P1 for a name that is no AI workload and matches a gaming pattern, P2
  otherwise. A name that matches both tables is an AI workload.\<close>

theorem process_priority_spec:
  "let ai = \<exists>p \<in> set ai_workload_patterns. sublist p comm;
       gaming = \<exists>p \<in> set gaming_patterns. sublist p comm;
       inference = \<exists>p \<in> set [''inference'', ''predict'', ''query'', ''api'']. sublist p comm in
   uroam_get_process_priority task comm =
     (if ai \<and> inference then UROAM_PRIORITY_P0
      else if \<not> ai \<and> gaming then UROAM_PRIORITY_P1 else UROAM_PRIORITY_P2)"
proof -
  have any: "matches_any ps comm \<longleftrightarrow> (\<exists>p \<in> set ps. sublist p comm)" for ps
    by (induction ps) (auto simp: c_strstr_None_iff)
  show ?thesis
    by (simp add: uroam_get_process_priority_def uroam_is_ai_workload_def
        uroam_is_gaming_workload_def any Let_def c_strstr_None_iff)
qed

text \<open>An update sleeps while it holds the tree's spinlock, whenever the process has an address
  space and is known or fits into the table: giving the address space back may sleep.\<close>

theorem tracking_update_sleeps_in_atomic:
  assumes "t_mm task \<noteq> None"
    and "tracked s (t_pid task) \<noteq> None \<or> unat (tracked_count s) < MAX_TRACKED_PROCESSES"
  shows "\<exists>cs. klog (uroam_tracking_update_process K task s) = klog s @ cs \<and> sleeps_atomic 0 cs"
proof (cases "uroam_process_tree_search (tracked_processes s) (t_pid task) (uroam_process_tree s)")
  case (Some i)
  then show ?thesis
    using assms(1) by (simp add: update_known entry_calls_def mm_calls_def)
next
  case None
  then have "unat (tracked_count s) < MAX_TRACKED_PROCESSES"
    using assms(2) by (simp add: tracked_def)
  from update_new [OF None this, of K] show ?thesis
    using assms(1) by (auto simp: entered_def Let_def entry_calls_def mm_calls_def)
qed

theorem tracking_update_sleeps_in_atomic_witness:
  "\<exists>cs. klog (uroam_tracking_update_process example_kernel (example_task 2 ''steam'') tracking_boot) = cs \<and>
     sleeps_atomic 0 cs"
proof -
  have "unat (tracked_count tracking_boot) < MAX_TRACKED_PROCESSES"
    using example_boot_ok [unfolded tracking_ok_def] card_dom_tracked [OF example_boot_ok]
    by (simp add: tracking_boot_ok(2) MAX_TRACKED_PROCESSES_def)
  then show ?thesis
    using tracking_update_sleeps_in_atomic [of "example_task 2 ''steam''" tracking_boot example_kernel]
    by (auto simp: tracking_boot_ok(3) example_task_def)
qed

end
