(* ===== verification/Kernel_Main.thy ===== *)
theory Kernel_Main
  imports Tracking_Map
begin

section \<open>Loading and unloading the module: kernel/main.c\<close>

text \<open>
  The entries under \<open>/proc\<close> and \<open>/sys\<close>, and the functions the kernel runs when the module is
  loaded and unloaded, which start and stop the other components in order and unwind on errors.
  The module parameters are state: their mode 0644 lets the administrator change them while
  the module is loaded. The pointers to proc entries and to the kobject are flags.
\<close>

record main_state = tracking_state +
  enable_pressure_monitor :: bool
  enable_allocation_hooks :: bool
  enable_numa_aware :: bool
  uroam_proc_dir :: bool
  uroam_proc_status :: bool
  uroam_proc_config :: bool
  uroam_proc_stats :: bool
  uroam_kobj :: bool

definition main_boot :: main_state where
  "main_boot = tracking_state.extend tracking_boot
     (main_state.fields True False True False False False False False)"

lemma kdo_main_frame [simp]:
  "enable_pressure_monitor (kdo c t) = enable_pressure_monitor t"
  "enable_allocation_hooks (kdo c t) = enable_allocation_hooks t"
  "enable_numa_aware (kdo c t) = enable_numa_aware t"
  "uroam_proc_dir (kdo c t) = uroam_proc_dir t"
  "uroam_proc_status (kdo c t) = uroam_proc_status t"
  "uroam_proc_config (kdo c t) = uroam_proc_config t"
  "uroam_proc_stats (kdo c t) = uroam_proc_stats t"
  "uroam_kobj (kdo c t) = uroam_kobj t"
  by (simp_all add: kdo_def)

subsection \<open>The entries under /proc and /sys\<close>

text \<open>The labels of the error path, from the innermost to the outermost.\<close>

definition cleanup_dir :: "'a kworld_scheme \<Rightarrow> int \<times> 'a kworld_scheme" where
  "cleanup_dir s = (- ENOMEM, kdo (Release (R_proc ''uroam'')) s)"

definition cleanup_status :: "'a kworld_scheme \<Rightarrow> int \<times> 'a kworld_scheme" where
  "cleanup_status s = cleanup_dir (kdo (Release (R_proc ''status'')) s)"

definition cleanup_config :: "'a kworld_scheme \<Rightarrow> int \<times> 'a kworld_scheme" where
  "cleanup_config s = cleanup_status (kdo (Release (R_proc ''config'')) s)"

definition uroam_create_proc_entries :: "kenv \<Rightarrow> 'a main_state_scheme \<Rightarrow> int \<times> 'a main_state_scheme" where
  "uroam_create_proc_entries K s =
     (let ok = proc_mkdir_ok K (klog s);
          s1 = (kdo (Acquire (R_proc ''uroam'') ok) s)\<lparr>uroam_proc_dir := ok\<rparr>
      in if \<not> ok then (- ENOMEM, s1)
         else
           let ok = proc_create_ok K (klog s1);
               s2 = (kdo (Acquire (R_proc ''status'') ok) s1)\<lparr>uroam_proc_status := ok\<rparr>
           in if \<not> ok then cleanup_dir s2
              else
                let ok = proc_create_ok K (klog s2);
                    s3 = (kdo (Acquire (R_proc ''config'') ok) s2)\<lparr>uroam_proc_config := ok\<rparr>
                in if \<not> ok then cleanup_status s3
                   else
                     let ok = proc_create_ok K (klog s3);
                         s4 = (kdo (Acquire (R_proc ''stats'') ok) s3)\<lparr>uroam_proc_stats := ok\<rparr>
                     in if \<not> ok then cleanup_config s4 else (0, s4))"

definition uroam_remove_proc_entries :: "'a main_state_scheme \<Rightarrow> 'a main_state_scheme" where
  "uroam_remove_proc_entries s =
     kdo_if (uroam_proc_dir s) (Release (R_proc ''uroam''))
       (kdo_if (uroam_proc_status s) (Release (R_proc ''status''))
         (kdo_if (uroam_proc_config s) (Release (R_proc ''config''))
           (kdo_if (uroam_proc_stats s) (Release (R_proc ''stats'')) s)))"

definition uroam_create_sysfs_entries :: "kenv \<Rightarrow> 'a main_state_scheme \<Rightarrow> int \<times> 'a main_state_scheme" where
  "uroam_create_sysfs_entries K s =
     (let ok = kobject_create_ok K (klog s);
          s1 = (kdo (Acquire R_kobj ok) s)\<lparr>uroam_kobj := ok\<rparr>
      in if \<not> ok then (- ENOMEM, s1)
         else
           let ret = sysfs_create_ret K (klog s1);
               s2 = kdo (Acquire R_sysfs (0 \<le> ret)) s1
           in if ret < 0 then (ret, kdo (Release R_kobj) s2) else (0, s2))"

definition uroam_remove_sysfs_entries :: "'a main_state_scheme \<Rightarrow> 'a main_state_scheme" where
  "uroam_remove_sysfs_entries s =
     (if uroam_kobj s then kdo (Release R_kobj) (kdo (Release R_sysfs) s) else s)"

subsection \<open>Load\<close>

text \<open>The error path of the load, one definition per label; each falls through to the next.\<close>

definition cleanup_proc :: "'a main_state_scheme \<Rightarrow> 'a main_state_scheme" where
  "cleanup_proc s = uroam_remove_proc_entries s"

definition cleanup_sysfs :: "'a main_state_scheme \<Rightarrow> 'a main_state_scheme" where
  "cleanup_sysfs s = cleanup_proc (uroam_remove_sysfs_entries s)"

definition cleanup_netlink :: "'a main_state_scheme \<Rightarrow> 'a main_state_scheme" where
  "cleanup_netlink s = cleanup_sysfs (uroam_netlink_exit s)"

definition cleanup_pressure :: "'a main_state_scheme \<Rightarrow> 'a main_state_scheme" where
  "cleanup_pressure s =
     cleanup_netlink (if enable_pressure_monitor s then uroam_pressure_exit s else s)"

definition cleanup_hooks :: "'a main_state_scheme \<Rightarrow> 'a main_state_scheme" where
  "cleanup_hooks s = cleanup_pressure (if enable_allocation_hooks s then uroam_hooks_exit s else s)"

definition cleanup_numa :: "'a main_state_scheme \<Rightarrow> 'a main_state_scheme" where
  "cleanup_numa s = cleanup_hooks (if enable_numa_aware s then uroam_numa_exit s else s)"

text \<open>A component that is started only when its parameter is set.\<close>

definition start_if :: "bool \<Rightarrow> ('s \<Rightarrow> int \<times> 's) \<Rightarrow> 's \<Rightarrow> int \<times> 's" where
  "start_if b init s = (if b then init s else (0, s))"

definition uroam_init :: "kenv \<Rightarrow> 'a main_state_scheme \<Rightarrow> (int \<times> 'a main_state_scheme) option" where
  "uroam_init K s =
     (let s0 = s\<lparr>allocation_list := [], enabled := True\<rparr>;
          (ret, s1) = uroam_create_proc_entries K s0
      in if ret < 0 then Some (ret, s1) else
      let (ret, s2) = uroam_create_sysfs_entries K s1
      in if ret < 0 then Some (ret, cleanup_proc s2) else
      let (ret, s3) = uroam_netlink_init K s2
      in if ret < 0 then Some (ret, cleanup_sysfs s3) else
      let (ret, s4) = start_if (enable_pressure_monitor s3) (uroam_pressure_init K) s3
      in if ret < 0 then Some (ret, cleanup_netlink s4) else
      let (ret, s5) = start_if (enable_allocation_hooks s4) (uroam_hooks_init K) s4
      in if ret < 0 then Some (ret, cleanup_pressure s5) else
      let (ret, s6) = start_if (enable_numa_aware s5) (uroam_numa_init K) s5
      in if ret < 0 then Some (ret, cleanup_hooks s6) else
      case uroam_tracking_init K s6 of
        None \<Rightarrow> None
      | Some (ret, s7) \<Rightarrow>
          if ret < 0 then Some (ret, cleanup_numa s7) else Some (0, s7))"

subsection \<open>Unload\<close>

definition uroam_exit :: "'a main_state_scheme \<Rightarrow> 'a main_state_scheme" where
  "uroam_exit s =
     (let s1 = kdo (Unlock State_lock) ((kdo (Lock State_lock) s)\<lparr>enabled := False\<rparr>);
          s2 = uroam_tracking_exit s1;
          s3 = (if enable_numa_aware s2 then uroam_numa_exit s2 else s2);
          s4 = (if enable_allocation_hooks s3 then uroam_hooks_exit s3 else s3);
          s5 = (if enable_pressure_monitor s4 then uroam_pressure_exit s4 else s4)
      in uroam_remove_proc_entries (uroam_remove_sysfs_entries (uroam_netlink_exit s5)))"

text \<open>The state before the module is loaded: nothing started.\<close>

definition unloaded :: "'a main_state_scheme \<Rightarrow> bool" where
  "unloaded s \<longleftrightarrow> \<not> uroam_nl_sock s \<and> \<not> pressure_monitor_running s \<and> \<not> tracking_running s \<and>
     hooks_idle s \<and> numa_distance_table s = None \<and> \<not> uroam_proc_dir s \<and> \<not> uroam_proc_status s \<and>
     \<not> uroam_proc_config s \<and> \<not> uroam_proc_stats s \<and> \<not> uroam_kobj s"

subsection \<open>Each component changes its own flags only\<close>

record module_flags =
  mf_nl :: bool
  mf_pressure :: "bool \<times> bool"
  mf_hooks :: "bool \<times> bool \<times> bool \<times> bool"
  mf_numa :: bool
  mf_tracking :: "bool \<times> bool"
  mf_proc :: "bool \<times> bool \<times> bool \<times> bool"
  mf_kobj :: bool
  mf_params :: "bool \<times> bool \<times> bool"

definition flags_of :: "'a main_state_scheme \<Rightarrow> module_flags" where
  "flags_of s = \<lparr>mf_nl = uroam_nl_sock s,
     mf_pressure = (pressure_monitor_running s, pressure_monitor_thread s),
     mf_hooks = (ftrace_buffer s, ftrace_enabled s, mmap_hooked s, brk_hooked s),
     mf_numa = (numa_distance_table s \<noteq> None),
     mf_tracking = (tracking_running s, tracking_thread s),
     mf_proc = (uroam_proc_dir s, uroam_proc_status s, uroam_proc_config s, uroam_proc_stats s),
     mf_kobj = uroam_kobj s,
     mf_params = (enable_pressure_monitor s, enable_allocation_hooks s, enable_numa_aware s)\<rparr>"

lemma flags_of_kdo [simp]: "flags_of (kdo c s) = flags_of s"
  by (simp add: flags_of_def)

lemma proc_flags:
  "\<exists>x. flags_of (snd (uroam_create_proc_entries K s)) = (flags_of s)\<lparr>mf_proc := x\<rparr>"
  "flags_of (uroam_remove_proc_entries s) = flags_of s"
  by (simp_all add: uroam_create_proc_entries_def uroam_remove_proc_entries_def flags_of_def
      cleanup_dir_def cleanup_status_def cleanup_config_def kdo_if_def Let_def)

lemma sysfs_flags:
  "\<exists>x. flags_of (snd (uroam_create_sysfs_entries K s)) = (flags_of s)\<lparr>mf_kobj := x\<rparr>"
  "flags_of (uroam_remove_sysfs_entries s) = flags_of s"
  by (simp_all add: uroam_create_sysfs_entries_def uroam_remove_sysfs_entries_def flags_of_def Let_def)

lemma netlink_flags:
  "\<exists>x. flags_of (snd (uroam_netlink_init K s)) = (flags_of s)\<lparr>mf_nl := x\<rparr>"
  "flags_of (uroam_netlink_exit s) = (flags_of s)\<lparr>mf_nl := False\<rparr>"
  by (auto simp: uroam_netlink_init_def uroam_netlink_exit_def flags_of_def Let_def)

lemma pressure_flags:
  "\<exists>x. flags_of (snd (uroam_pressure_init K s)) = (flags_of s)\<lparr>mf_pressure := x\<rparr>"
  "\<exists>x. flags_of (uroam_pressure_exit s) = (flags_of s)\<lparr>mf_pressure := (False, x)\<rparr>"
  by (auto simp: uroam_pressure_init_def uroam_pressure_exit_def flags_of_def Let_def)

lemma hooks_flags:
  "\<exists>x. flags_of (snd (uroam_hooks_init K s)) = (flags_of s)\<lparr>mf_hooks := x\<rparr>"
  "\<exists>x. flags_of (uroam_hooks_exit s) = (flags_of s)\<lparr>mf_hooks := x\<rparr>"
  by (auto simp: hooks_start_defs hooks_stop_defs flags_of_def Let_def)

lemma numa_update_flags [simp]: "flags_of (uroam_numa_update_node_info K s) = flags_of s"
  using update_node_info_eq [of K s] by (auto simp: flags_of_def)

lemma numa_flags:
  "\<exists>x. flags_of (snd (uroam_numa_init K s)) = (flags_of s)\<lparr>mf_numa := x\<rparr>"
  "flags_of (uroam_numa_exit s) = (flags_of s)\<lparr>mf_numa := False\<rparr>"
  by (auto simp: uroam_numa_init_def uroam_numa_init_distance_table_def uroam_numa_exit_def
      uroam_numa_enable_balancer_def Let_def split: option.splits) (auto simp: flags_of_def)

text \<open>A scan changes the tracked processes, the sequence number and the log.\<close>

definition tracking_write :: "'a tracking_state_scheme \<Rightarrow> 'a tracking_state_scheme \<Rightarrow> bool" where
  "tracking_write s t \<longleftrightarrow> (\<exists>l tp tree tc n. t = s\<lparr>tracked_processes := tp, uroam_process_tree := tree,
     tracked_count := tc, uroam_nl_seq := n, klog := l\<rparr>)"

lemma tracking_writeI:
  "t = s\<lparr>tracked_processes := tp, uroam_process_tree := tree, tracked_count := tc, uroam_nl_seq := n,
     klog := l\<rparr> \<Longrightarrow> tracking_write s t"
  unfolding tracking_write_def by blast

lemma tracking_write_refl [simp]: "tracking_write s s"
  by (rule tracking_writeI [where tp = "tracked_processes s" and tree = "uroam_process_tree s" and
      tc = "tracked_count s" and n = "uroam_nl_seq s" and l = "klog s"]) simp

lemma tracking_write_trans: "tracking_write s t \<Longrightarrow> tracking_write t u \<Longrightarrow> tracking_write s u"
  unfolding tracking_write_def by (elim exE) (rule tracking_writeI [unfolded tracking_write_def], simp)

lemma tracking_write_kdo [simp]: "tracking_write s (kdo c s)"
  by (rule tracking_writeI [where tp = "tracked_processes s" and tree = "uroam_process_tree s" and
      tc = "tracked_count s" and n = "uroam_nl_seq s"]) (simp add: kdo_def)

lemma tracking_write_update: "tracking_write s (uroam_tracking_update_process K task s)"
proof (cases "uroam_process_tree_search (tracked_processes s) (t_pid task) (uroam_process_tree s)")
  case (Some i)
  show ?thesis
    unfolding update_known [OF Some]
    by (rule tracking_writeI [where tp = "(tracked_processes s)(i := met_again K task (tracked_processes s i))"
      and tree = "uroam_process_tree s" and tc = "tracked_count s" and n = "uroam_nl_seq s"
      and l = "klog s @ entry_calls task i @ [Unlock Tree_lock]"]) (cases s, simp)
next
  case None
  show ?thesis
  proof (cases "unat (tracked_count s) < MAX_TRACKED_PROCESSES")
    case False
    show ?thesis
      unfolding update_full [OF None False]
      by (rule tracking_writeI [where tp = "tracked_processes s" and tree = "uroam_process_tree s" and
        tc = "tracked_count s" and n = "uroam_nl_seq s"]) simp
  next
    case True
    obtain seq where eq: "uroam_tracking_update_process K task s =
      (entered K task s)\<lparr>uroam_nl_seq := seq, klog := klog (entered K task s) @
        announce_calls K task (entered K task s) @ [Unlock Tree_lock]\<rparr>"
      using update_new [OF None True] by blast
    show ?thesis
      unfolding eq by (rule tracking_writeI) (simp add: entered_def Let_def)
  qed
qed

lemma tracking_write_then:
  assumes "tracking_write s t"
  shows "tracking_write s (kdo c t)" and "tracking_write s (uroam_tracking_update_process K task t)"
  by (rule tracking_write_trans [OF assms], simp, rule tracking_write_trans [OF assms],
      rule tracking_write_update)

lemma tracking_write_scan_one: "tracking_write s (scan_one K q s)"
  unfolding scan_one_def Let_def
  by (auto split: option.split intro!: tracking_write_then)

lemma tracking_write_scan:
  assumes "scan_from K nr s = Some t"
  shows "tracking_write s t"
proof (rule scan_from.raw_induct [where P = "\<lambda>K nr s t. tracking_write s t", OF _ assms])
  fix scan K nr and s t :: "'a tracking_state_scheme"
  assume IH: "\<And>K nr s t. scan K nr s = Some t \<Longrightarrow> tracking_write s t"
    and body: "(let p = find_get_pid K (klog s) nr; s1 = kdo (Acquire R_pid (p \<noteq> None)) s
      in case p of None \<Rightarrow> Some s1
         | Some q \<Rightarrow> let s2 = scan_one K q s1 in scan K (pid_nr_after_put K (klog s2) q + 1) s2) = Some t"
  show "tracking_write s t"
  proof (cases "find_get_pid K (klog s) nr")
    case None
    with body show ?thesis by (auto simp: Let_def)
  next
    case (Some q)
    let ?u = "scan_one K q (kdo (Acquire R_pid True) s)"
    have "scan K (pid_nr_after_put K (klog ?u) q + 1) ?u = Some t"
      using body Some by (simp add: Let_def)
    then have "tracking_write (scan_one K q (kdo (Acquire R_pid True) s)) t"
      by (rule IH)
    then show ?thesis
      by (rule tracking_write_trans [OF tracking_write_trans [OF tracking_write_kdo tracking_write_scan_one]])
  qed
qed

subsection \<open>The account\<close>

text \<open>What the flags of each component say it holds.\<close>

definition nl_part :: "resource \<Rightarrow> bool \<Rightarrow> int" where
  "nl_part r b = res_delta r (Acquire R_nlsock b)"

fun pressure_part :: "resource \<Rightarrow> bool \<times> bool \<Rightarrow> int" where
  "pressure_part r (run, thr) =
     res_delta r (Acquire R_psi_group run) + res_delta r (Acquire R_psi_trigger run) +
     res_delta r (Acquire (R_thread Pressure_thread) (run \<and> thr))"

fun hooks_part :: "resource \<Rightarrow> bool \<times> bool \<times> bool \<times> bool \<Rightarrow> int" where
  "hooks_part r (buffer, ftrace, mmap, brk) =
     res_delta r (Acquire R_ring buffer) + res_delta r (Acquire (R_kprobe Kp_mmap) mmap) +
     res_delta r (Acquire (R_kprobe Kp_brk) brk)"

definition numa_part :: "resource \<Rightarrow> bool \<Rightarrow> int" where
  "numa_part r b = res_delta r (Acquire R_numa_table b)"

fun tracking_part :: "resource \<Rightarrow> bool \<times> bool \<Rightarrow> int" where
  "tracking_part r (run, thr) = res_delta r (Acquire (R_thread Tracking_thread) (run \<and> thr))"

fun proc_part :: "resource \<Rightarrow> bool \<times> bool \<times> bool \<times> bool \<Rightarrow> int" where
  "proc_part r (dir, status, config, stats) =
     res_delta r (Acquire (R_proc ''uroam'') dir) + res_delta r (Acquire (R_proc ''status'') status) +
     res_delta r (Acquire (R_proc ''config'') config) + res_delta r (Acquire (R_proc ''stats'') stats)"

definition kobj_part :: "resource \<Rightarrow> bool \<Rightarrow> int" where
  "kobj_part r b = res_delta r (Acquire R_kobj b) + res_delta r (Acquire R_sysfs b)"

definition owned :: "resource \<Rightarrow> module_flags \<Rightarrow> int" where
  "owned r f = nl_part r (mf_nl f) + pressure_part r (mf_pressure f) + hooks_part r (mf_hooks f) +
     numa_part r (mf_numa f) + tracking_part r (mf_tracking f) + proc_part r (mf_proc f) +
     kobj_part r (mf_kobj f)"

text \<open>What the log says is held beyond what the flags say.\<close>

definition slack :: "resource \<Rightarrow> 'a main_state_scheme \<Rightarrow> int" where
  "slack r s = held r (klog s) - owned r (flags_of s)"

text \<open>Releases in terms of acquisitions, so that accounts are sums of the latter.\<close>

lemma res_atoms:
  "res_delta r (Release q) = - res_delta r (Acquire q True)" "res_delta r (Acquire q False) = 0"
  by simp_all

lemma create_proc_account:
  assumes "uroam_create_proc_entries K s = (ret, t)" and "mf_proc (flags_of s) = (False, False, False, False)"
  shows "if ret < 0 then held r (klog t) = held r (klog s)
    else flags_of t = (flags_of s)\<lparr>mf_proc := (True, True, True, True)\<rparr> \<and>
      held r (klog t) = held r (klog s) + proc_part r (True, True, True, True)"
proof -
  let ?h2 = "klog s @ [Acquire (R_proc ''uroam'') True]"
  let ?h3 = "?h2 @ [Acquire (R_proc ''status'') True]"
  let ?h4 = "?h3 @ [Acquire (R_proc ''config'') True]"
  note defs = uroam_create_proc_entries_def cleanup_dir_def cleanup_status_def cleanup_config_def
  have post: "if ret < 0 then held r (klog t) = held r (klog s)
      else held r (klog t) = held r (klog s) + proc_part r (True, True, True, True) \<and>
        (uroam_proc_dir t, uroam_proc_status t, uroam_proc_config t, uroam_proc_stats t) =
          (True, True, True, True)"
  proof -
    consider "\<not> proc_mkdir_ok K (klog s)"
      | "proc_mkdir_ok K (klog s)" "\<not> proc_create_ok K ?h2"
      | "proc_mkdir_ok K (klog s)" "proc_create_ok K ?h2" "\<not> proc_create_ok K ?h3"
      | "proc_mkdir_ok K (klog s)" "proc_create_ok K ?h2" "proc_create_ok K ?h3"
          "\<not> proc_create_ok K ?h4"
      | "proc_mkdir_ok K (klog s)" "proc_create_ok K ?h2" "proc_create_ok K ?h3"
          "proc_create_ok K ?h4"
      by blast
    then show ?thesis
      using assms(1) by cases (auto simp: defs Let_def res_atoms simp del: res_delta.simps)
  qed
  moreover obtain x where "flags_of t = (flags_of s)\<lparr>mf_proc := x\<rparr>"
    using proc_flags(1) [of K s] assms(1) by auto
  ultimately show ?thesis by (auto simp: flags_of_def split: if_splits)
qed

lemma remove_proc_account:
  "held r (klog (uroam_remove_proc_entries s)) = held r (klog s) - proc_part r (mf_proc (flags_of s))"
  by (auto simp: uroam_remove_proc_entries_def kdo_if_def flags_of_def)

lemma create_sysfs_account:
  assumes "uroam_create_sysfs_entries K s = (ret, t)" and "\<not> mf_kobj (flags_of s)"
  shows "if ret < 0 then held r (klog t) = held r (klog s) \<and> mf_proc (flags_of t) = mf_proc (flags_of s)
    else flags_of t = (flags_of s)\<lparr>mf_kobj := True\<rparr> \<and>
      held r (klog t) = held r (klog s) + kobj_part r True"
  using assms
  by (auto simp: uroam_create_sysfs_entries_def flags_of_def kobj_part_def Let_def split: if_split_asm)

lemma remove_sysfs_account:
  "held r (klog (uroam_remove_sysfs_entries s)) = held r (klog s) - kobj_part r (mf_kobj (flags_of s))"
  by (auto simp: uroam_remove_sysfs_entries_def kobj_part_def flags_of_def)

lemma netlink_init_account:
  assumes "uroam_netlink_init K s = (ret, t)" and "\<not> mf_nl (flags_of s)"
  shows "flags_of t = (flags_of s)\<lparr>mf_nl := \<not> ret < 0\<rparr> \<and>
    held r (klog t) = held r (klog s) + nl_part r (\<not> ret < 0)"
  using assms by (auto simp: uroam_netlink_init_def flags_of_def nl_part_def Let_def split: if_split_asm)

lemma netlink_exit_account:
  "held r (klog (uroam_netlink_exit s)) = held r (klog s) - nl_part r (mf_nl (flags_of s))"
  by (auto simp: uroam_netlink_exit_def nl_part_def flags_of_def)

lemma pressure_init_account:
  assumes "uroam_pressure_init K s = (ret, t)" and "\<not> fst (mf_pressure (flags_of s))"
  shows "\<exists>thr. flags_of t = (flags_of s)\<lparr>mf_pressure := (\<not> ret < 0 \<and> \<not> thread_refused K (klog s), thr)\<rparr> \<and>
    (\<not> ret < 0 \<and> \<not> thread_refused K (klog s) \<longrightarrow> thr) \<and>
    held r (klog t) = held r (klog s) + pressure_part r (\<not> ret < 0 \<and> \<not> thread_refused K (klog s), thr)"
proof -
  let ?run = "\<not> ret < 0 \<and> \<not> thread_refused K (klog s)"
  have "\<not> pressure_monitor_running s" using assms(2) by (simp add: flags_of_def)
  then have "(pressure_monitor_running t \<longleftrightarrow> ?run) \<and> (?run \<longrightarrow> pressure_monitor_thread t)"
    and "held r (klog t) = held r (klog s) + pressure_part r (?run, ?run)"
    using assms(1)
    by (auto simp: uroam_pressure_init_def thread_refused_def Let_def split: if_split_asm)
  moreover obtain x where x: "flags_of t = (flags_of s)\<lparr>mf_pressure := x\<rparr>"
    using pressure_flags(1) [of K s] assms(1) by auto
  moreover have "x = (pressure_monitor_running t, pressure_monitor_thread t)"
    using arg_cong [OF x, of mf_pressure] by (simp add: flags_of_def)
  ultimately show ?thesis
    by (intro exI [of _ "pressure_monitor_thread t"]) auto
qed

lemma pressure_exit_account:
  assumes "mf_pressure (flags_of s) = (run, thr)"
  shows "held r (klog (uroam_pressure_exit s)) = held r (klog s) - pressure_part r (run, thr) -
      (if \<not> run \<and> r \<in> {R_psi_group, R_psi_trigger} then 1 else 0)"
  using assms by (auto simp: uroam_pressure_exit_def flags_of_def Let_def)

lemma hooks_init_part:
  assumes "uroam_hooks_init K s = (ret, t)" and "mf_hooks (flags_of s) = (False, False, False, False)"
  shows "ret = 0 \<and> (\<exists>b m k. flags_of t = (flags_of s)\<lparr>mf_hooks := (b, b, m, k)\<rparr> \<and>
    held r (klog t) = held r (klog s) + hooks_part r (b, b, m, k))"
proof -
  have "hooks_idle s" using assms(2) by (simp add: hooks_idle_def flags_of_def)
  from hooks_init_account [OF this, of K] assms(1)
  have "hooks_account (klog s) t" "ret = 0" by simp_all
  moreover obtain x where x: "flags_of t = (flags_of s)\<lparr>mf_hooks := x\<rparr>"
    using hooks_flags(1) [of K s] assms(1) by auto
  have "x = (ftrace_buffer t, ftrace_enabled t, mmap_hooked t, brk_hooked t)"
    using arg_cong [OF x, of mf_hooks] by (simp add: flags_of_def)
  ultimately show ?thesis
    using x unfolding hooks_account_def
    by (intro conjI exI [of _ "ftrace_buffer t"] exI [of _ "mmap_hooked t"] exI [of _ "brk_hooked t"])
       (simp_all, auto split: resource.split kprobe_id.split)
qed

lemma hooks_exit_part:
  assumes "mf_hooks (flags_of s) = (b, b, m, k)"
  shows "flags_of (uroam_hooks_exit s) = (flags_of s)\<lparr>mf_hooks := (False, False, False, False)\<rparr> \<and>
    held r (klog (uroam_hooks_exit s)) = held r (klog s) - hooks_part r (b, b, m, k)"
  using assms by (auto simp: hooks_stop_defs flags_of_def Let_def)

lemma numa_init_account:
  assumes "uroam_numa_init K s = (ret, t)"
  shows "ret = 0 \<and> (\<exists>b. flags_of t = (flags_of s)\<lparr>mf_numa := b\<rparr> \<and>
    held r (klog t) - numa_part r b = held r (klog s) - numa_part r (mf_numa (flags_of s)))"
proof -
  have "held r (klog t) - numa_part r (mf_numa (flags_of t)) =
      held r (klog s) - numa_part r (mf_numa (flags_of s)) \<and> ret = 0"
    using assms
    by (auto simp: uroam_numa_init_def uroam_numa_init_distance_table_def numa_part_def Let_def
        split: if_split_asm option.splits) (auto simp: flags_of_def)
  moreover obtain x where "flags_of t = (flags_of s)\<lparr>mf_numa := x\<rparr>"
    using numa_flags(1) [of K s] assms by auto
  ultimately show ?thesis by (intro conjI exI [of _ x]) simp_all
qed

lemma numa_exit_account:
  "held r (klog (uroam_numa_exit s)) = held r (klog s) - numa_part r (mf_numa (flags_of s))"
  by (auto simp: held_numa_exit numa_part_def flags_of_def)

text \<open>A kernel that grants every request a load makes.\<close>

definition grants_all :: "kenv \<Rightarrow> bool" where
  "grants_all K \<longleftrightarrow> (\<forall>h. proc_mkdir_ok K h \<and> proc_create_ok K h \<and> kobject_create_ok K h \<and>
     0 \<le> sysfs_create_ret K h \<and> netlink_create_ok K h \<and> 0 \<le> psi_group_init_ret K h \<and>
     0 \<le> psi_trigger_create_ret K h \<and> 0 \<le> kthread_run_ret K h)"

lemma grants_all_never_fails:
  assumes "grants_all K"
  shows "\<not> fst (uroam_create_proc_entries K s1) < 0" "\<not> fst (uroam_create_sysfs_entries K s2) < 0"
    "\<not> fst (uroam_netlink_init K s3) < 0" "\<not> fst (uroam_pressure_init K s4) < 0"
    "\<not> thread_refused K h"
  using assms
  by (simp_all add: grants_all_def uroam_create_proc_entries_def uroam_create_sysfs_entries_def
      uroam_netlink_init_def uroam_pressure_init_def thread_refused_def Let_def not_less)

lemma tracking_init_account:
  assumes "bounded_pids K m" and "\<not> fst (mf_tracking (flags_of s))" and "r \<noteq> R_skb"
  shows "\<exists>ret t thr b. uroam_tracking_init K s = Some (ret, t) \<and>
    flags_of t = (flags_of s)\<lparr>mf_tracking := (\<not> ret < 0, thr), mf_numa := b\<rparr> \<and> thr \<and> ret \<le> 0 \<and>
    (ret < 0 \<longrightarrow> b = mf_numa (flags_of s)) \<and> (grants_all K \<longrightarrow> \<not> ret < 0) \<and>
    held r (klog t) - numa_part r b - tracking_part r (\<not> ret < 0, thr) =
      held r (klog s) - numa_part r (mf_numa (flags_of s)) - tracking_part r (mf_tracking (flags_of s))"
proof -
  let ?s1 = "(kdo (Service (Init_waitqueue_head Tracking_thread)) (s\<lparr>tracked_count := 0\<rparr>))
    \<lparr>tracking_running := True\<rparr>"
  let ?err = "kthread_run_ret K (klog ?s1)"
  let ?s3 = "(kdo (Acquire (R_thread Tracking_thread) (0 \<le> ?err)) (?s1\<lparr>tracking_thread := True\<rparr>))"
  have flags3: "flags_of ?s3 = (flags_of s)\<lparr>mf_tracking := (True, True)\<rparr>"
    and held3: "held r (klog ?s3) = held r (klog s) +
      (if R_thread Tracking_thread = r \<and> 0 \<le> ?err then 1 else 0)"
    and part: "tracking_part r (mf_tracking (flags_of s)) = 0"
    using assms(2) by (simp_all add: flags_of_def)
  show ?thesis
  proof (cases "?err < 0")
    case True
    have "uroam_tracking_init K s = Some (?err, ?s3\<lparr>tracking_running := False\<rparr>)"
      using True by (simp add: uroam_tracking_init_def Let_def)
    moreover have "flags_of (?s3\<lparr>tracking_running := False\<rparr>) = (flags_of s)\<lparr>mf_tracking := (False, True)\<rparr>"
      by (simp add: flags_of_def)
    moreover have "\<not> grants_all K" using True by (auto simp: grants_all_def not_le [symmetric])
    ultimately show ?thesis
      using True held3 part
      by (intro exI [of _ ?err] exI [of _ "?s3\<lparr>tracking_running := False\<rparr>"] exI [of _ True]
          exI [of _ "mf_numa (flags_of s)"]) simp
  next
    case False
    obtain s4 cs where scan: "uroam_tracking_scan K ?s3 = Some s4" "klog s4 = klog ?s3 @ cs" "held r cs = 0"
      using scan_returns [OF assms(1), of ?s3] assms(3) by blast
    have "tracking_write ?s3 s4"
      using scan(1) by (auto simp: uroam_tracking_scan_def intro: tracking_write_scan)
    then have flags4: "flags_of (s4\<lparr>numa_aware := True\<rparr>) = (flags_of s)\<lparr>mf_tracking := (True, True)\<rparr>"
      by (auto simp: tracking_write_def flags_of_def)
    obtain ret s5 where s5: "uroam_numa_init K (s4\<lparr>numa_aware := True\<rparr>) = (ret, s5)" by fastforce
    note n = numa_init_account [OF s5, of r]
    from n obtain b where b: "flags_of s5 = (flags_of s)\<lparr>mf_tracking := (True, True), mf_numa := b\<rparr>"
      "held r (klog s5) - numa_part r b = held r (klog s4) - numa_part r (mf_numa (flags_of s))"
      by (auto simp: flags4)
    have upd: "flags_of (uroam_numa_update K s5) = flags_of s5"
      "held r (klog (uroam_numa_update K s5)) = held r (klog s5)"
      by (simp_all add: uroam_numa_update_def)
    have "uroam_tracking_init K s = Some (0, uroam_numa_update K s5)"
      using False n scan(1) s5 by (simp add: uroam_tracking_init_def Let_def)
    then show ?thesis
      using b part held3 scan(2,3) False
      by (intro exI [of _ 0] exI [of _ "uroam_numa_update K s5"] exI [of _ True] exI [of _ b])
         (auto simp: upd)
  qed
qed

lemma tracking_exit_account:
  "held r (klog (uroam_tracking_exit s)) = held r (klog s) - tracking_part r (mf_tracking (flags_of s))"
  "\<exists>x. flags_of (uroam_tracking_exit s) = (flags_of s)\<lparr>mf_tracking := x\<rparr>"
  by (auto simp: uroam_tracking_exit_def flags_of_def Let_def)

subsection \<open>The error path\<close>

text \<open>What a load that failed leaves behind: nothing, unless the kernel refused the thread of the
  pressure monitor and the load went on without it; then group and trigger were given back by the
  monitor's start and once more by the error path.\<close>

definition unwound :: "kenv \<Rightarrow> resource \<Rightarrow> bool \<Rightarrow> int \<Rightarrow> int \<Rightarrow> bool" where
  "unwound K r monitor before behind \<longleftrightarrow>
     (\<exists>lost. (lost \<longrightarrow> monitor \<and> (\<exists>h. thread_refused K h)) \<and>
        behind = before - (if lost \<and> r \<in> {R_psi_group, R_psi_trigger} then 1 else 0))"

lemma unwound_same [simp]: "unwound K r b n n"
  unfolding unwound_def by (rule exI [of _ False]) simp

lemma unwoundI:
  "(lost \<Longrightarrow> monitor \<and> (\<exists>h. thread_refused K h)) \<Longrightarrow>
   behind = before - (if lost \<and> r \<in> {R_psi_group, R_psi_trigger} then 1 else 0) \<Longrightarrow>
   unwound K r monitor before behind"
  unfolding unwound_def by blast

text \<open>The pressure component gives group and trigger back a second time when it is not running.\<close>

definition double_release :: "resource \<Rightarrow> module_flags \<Rightarrow> int" where
  "double_release r f =
     (if \<not> fst (mf_pressure f) \<and> r \<in> {R_psi_group, R_psi_trigger} then 1 else 0)"

lemma cleanup_netlink_account:
  "held r (klog (cleanup_netlink s)) = held r (klog s) - nl_part r (mf_nl (flags_of s)) -
     kobj_part r (mf_kobj (flags_of s)) - proc_part r (mf_proc (flags_of s))"
  by (simp add: cleanup_netlink_def cleanup_sysfs_def cleanup_proc_def remove_proc_account
      remove_sysfs_account netlink_exit_account sysfs_flags(2) netlink_flags(2))

lemma cleanup_pressure_account:
  "held r (klog (cleanup_pressure s)) = held r (klog s) - nl_part r (mf_nl (flags_of s)) -
     kobj_part r (mf_kobj (flags_of s)) - proc_part r (mf_proc (flags_of s)) -
     (if enable_pressure_monitor s
      then pressure_part r (mf_pressure (flags_of s)) + double_release r (flags_of s) else 0)"
proof -
  obtain x where "flags_of (uroam_pressure_exit s) = (flags_of s)\<lparr>mf_pressure := (False, x)\<rparr>"
    using pressure_flags(2) [of s] by blast
  then show ?thesis
    using pressure_exit_account [of s "fst (mf_pressure (flags_of s))" "snd (mf_pressure (flags_of s))" r]
    by (auto simp: cleanup_pressure_def cleanup_netlink_account double_release_def)
qed

lemma flags_params:
  "enable_pressure_monitor s = fst (mf_params (flags_of s))"
  "enable_allocation_hooks s = fst (snd (mf_params (flags_of s)))"
  "enable_numa_aware s = snd (snd (mf_params (flags_of s)))"
  by (simp_all add: flags_of_def)

lemma cleanup_hooks_account:
  assumes "mf_hooks (flags_of s) = (b, b, m, k)"
  shows "held r (klog (cleanup_hooks s)) = held r (klog s) - nl_part r (mf_nl (flags_of s)) -
     kobj_part r (mf_kobj (flags_of s)) - proc_part r (mf_proc (flags_of s)) -
     (if enable_pressure_monitor s
      then pressure_part r (mf_pressure (flags_of s)) + double_release r (flags_of s) else 0) -
     (if enable_allocation_hooks s then hooks_part r (b, b, m, k) else 0)"
  using hooks_exit_part [OF assms, of r]
  by (simp add: cleanup_hooks_def cleanup_pressure_account flags_params double_release_def)

lemma cleanup_numa_account:
  assumes "mf_hooks (flags_of s) = (b, b, m, k)"
  shows "held r (klog (cleanup_numa s)) = held r (klog s) - nl_part r (mf_nl (flags_of s)) -
     kobj_part r (mf_kobj (flags_of s)) - proc_part r (mf_proc (flags_of s)) -
     (if enable_pressure_monitor s
      then pressure_part r (mf_pressure (flags_of s)) + double_release r (flags_of s) else 0) -
     (if enable_allocation_hooks s then hooks_part r (b, b, m, k) else 0) -
     (if enable_numa_aware s then numa_part r (mf_numa (flags_of s)) else 0)"
  using assms
  by (simp add: cleanup_numa_def cleanup_hooks_account numa_exit_account numa_flags(2)
      flags_params double_release_def)

lemma exit_is_cleanup:
  "uroam_exit s = cleanup_numa (uroam_tracking_exit
     (kdo (Unlock State_lock) ((kdo (Lock State_lock) s)\<lparr>enabled := False\<rparr>)))"
  by (simp add: uroam_exit_def cleanup_numa_def cleanup_hooks_def cleanup_pressure_def
      cleanup_netlink_def cleanup_sysfs_def cleanup_proc_def Let_def)

subsection \<open>The account of a load\<close>

text \<open>The flags of a loaded module, started from the flags \<open>f\<close>.\<close>

definition loaded_flags :: "module_flags \<Rightarrow> module_flags \<Rightarrow> bool" where
  "loaded_flags f g \<longleftrightarrow>
     mf_nl g \<and> mf_kobj g \<and> mf_proc g = (True, True, True, True) \<and> mf_tracking g = (True, True) \<and>
     mf_params g = mf_params f \<and>
     (fst (mf_params f) \<or> \<not> fst (mf_pressure g)) \<and>
     (fst (mf_pressure g) \<longrightarrow> snd (mf_pressure g)) \<and>
     (\<exists>b m k. mf_hooks g = (b, b, m, k) \<and> (fst (snd (mf_params f)) \<or> \<not> b \<and> \<not> m \<and> \<not> k))"

lemma unloaded_flags:
  assumes "unloaded s"
  shows "\<not> mf_nl (flags_of s)" "\<not> fst (mf_pressure (flags_of s))"
    "mf_hooks (flags_of s) = (False, False, False, False)" "\<not> mf_numa (flags_of s)"
    "\<not> fst (mf_tracking (flags_of s))" "mf_proc (flags_of s) = (False, False, False, False)"
    "\<not> mf_kobj (flags_of s)"
  using assms by (simp_all add: unloaded_def hooks_idle_def flags_of_def)

lemma part_False [simp]:
  "nl_part r False = 0" "pressure_part r (False, x) = 0" "hooks_part r (False, y, False, False) = 0"
  "numa_part r False = 0" "tracking_part r (False, z) = 0" "kobj_part r False = 0"
  by (simp_all add: nl_part_def numa_part_def kobj_part_def)

declare pressure_part.simps [simp del] hooks_part.simps [simp del] tracking_part.simps [simp del]
  proc_part.simps [simp del]

lemma pressure_part_idle: "\<not> fst x \<Longrightarrow> pressure_part r x = 0"
  by (cases x) simp

lemma tracking_part_idle: "\<not> fst x \<Longrightarrow> tracking_part r x = 0"
  by (cases x) simp

text \<open>The second half of the load: the components behind the parameters, then tracking.\<close>

definition start_components :: "kenv \<Rightarrow> 'a main_state_scheme \<Rightarrow> (int \<times> 'a main_state_scheme) option" where
  "start_components K s3 =
     (let (ret, s4) = start_if (enable_pressure_monitor s3) (uroam_pressure_init K) s3
      in if ret < 0 then Some (ret, cleanup_netlink s4) else
      let (ret, s5) = start_if (enable_allocation_hooks s4) (uroam_hooks_init K) s4
      in if ret < 0 then Some (ret, cleanup_pressure s5) else
      let (ret, s6) = start_if (enable_numa_aware s5) (uroam_numa_init K) s5
      in if ret < 0 then Some (ret, cleanup_hooks s6) else
      case uroam_tracking_init K s6 of
        None \<Rightarrow> None
      | Some (ret, s7) \<Rightarrow>
          if ret < 0 then Some (ret, cleanup_numa s7) else Some (0, s7))"

lemma start_pressure:
  assumes "start_if b (uroam_pressure_init K) s = (ret, t)" and "\<not> fst (mf_pressure (flags_of s))"
  shows "\<exists>run thr. flags_of t = (flags_of s)\<lparr>mf_pressure := (run, thr)\<rparr> \<and> (run \<longrightarrow> b \<and> thr) \<and>
    (b \<and> \<not> ret < 0 \<and> (\<forall>h. \<not> thread_refused K h) \<longrightarrow> run) \<and> (ret < 0 \<longrightarrow> \<not> run \<and> \<not> grants_all K) \<and>
    held r (klog t) = held r (klog s) + pressure_part r (run, thr)"
proof (cases b)
  case True
  with pressure_init_account [OF _ assms(2), of K ret t r] assms(1)
    grants_all_never_fails(4) [of K s]
  show ?thesis by (auto simp: start_if_def)
next
  case False
  moreover have "(flags_of s)\<lparr>mf_pressure := (False, pressure_monitor_thread s)\<rparr> = flags_of s"
    using assms(2) by (simp add: flags_of_def)
  ultimately show ?thesis
    using assms by (intro exI [of _ False] exI [of _ "pressure_monitor_thread s"]) (auto simp: start_if_def)
qed

lemma start_hooks:
  assumes "start_if b (uroam_hooks_init K) s = (ret, t)" and "mf_hooks (flags_of s) = (False, False, False, False)"
  shows "ret = 0 \<and> (\<exists>x m k. flags_of t = (flags_of s)\<lparr>mf_hooks := (x, x, m, k)\<rparr> \<and>
    (b \<or> \<not> x \<and> \<not> m \<and> \<not> k) \<and> held r (klog t) = held r (klog s) + hooks_part r (x, x, m, k))"
proof (cases b)
  case True
  with hooks_init_part [OF _ assms(2), of K ret t r] assms(1) show ?thesis
    by (simp add: start_if_def)
next
  case False
  moreover have "(flags_of s)\<lparr>mf_hooks := (False, False, False, False)\<rparr> = flags_of s"
    using assms(2) by (simp add: flags_of_def)
  ultimately show ?thesis
    using assms(1) by (simp add: start_if_def) (intro exI [of _ False], simp)
qed

lemma start_numa:
  assumes "start_if b (uroam_numa_init K) s = (ret, t)" and "\<not> mf_numa (flags_of s)"
  shows "ret = 0 \<and> (\<exists>x. flags_of t = (flags_of s)\<lparr>mf_numa := x\<rparr> \<and> (x \<longrightarrow> b) \<and>
    held r (klog t) = held r (klog s) + numa_part r x)"
proof (cases b)
  case True
  with numa_init_account [of K s ret t r] assms show ?thesis
    by (auto simp: start_if_def)
next
  case False
  moreover have "(flags_of s)\<lparr>mf_numa := False\<rparr> = flags_of s"
    using assms(2) by (simp add: flags_of_def)
  ultimately show ?thesis
    using assms(1) by (simp add: start_if_def) (intro exI [of _ False], simp)
qed

lemma components_account:
  assumes pids: "bounded_pids K m" and r: "r \<noteq> R_skb"
    and f: "mf_nl (flags_of s)" "mf_kobj (flags_of s)" "mf_proc (flags_of s) = (True, True, True, True)"
      "\<not> fst (mf_pressure (flags_of s))" "mf_hooks (flags_of s) = (False, False, False, False)"
      "\<not> mf_numa (flags_of s)" "\<not> fst (mf_tracking (flags_of s))"
    and h: "held r (klog s) = h + proc_part r (True, True, True, True) + kobj_part r True + nl_part r True"
  shows "\<exists>ret t. start_components K s = Some (ret, t) \<and>
    (if ret < 0 then unwound K r (enable_pressure_monitor s) h (held r (klog t))
     else loaded_flags (flags_of s) (flags_of t) \<and> held r (klog t) = h + owned r (flags_of t)) \<and>
    (grants_all K \<longrightarrow> ret = 0 \<and> (enable_pressure_monitor s \<longrightarrow> fst (mf_pressure (flags_of t))))"
proof -
  obtain r4 s4 where e4: "start_if (enable_pressure_monitor s) (uroam_pressure_init K) s = (r4, s4)"
    by fastforce
  obtain run thr where s4: "flags_of s4 = (flags_of s)\<lparr>mf_pressure := (run, thr)\<rparr>"
    "run \<longrightarrow> enable_pressure_monitor s \<and> thr"
    "enable_pressure_monitor s \<and> \<not> r4 < 0 \<and> (\<forall>h. \<not> thread_refused K h) \<longrightarrow> run" "r4 < 0 \<longrightarrow> \<not> run \<and> \<not> grants_all K"
    "held r (klog s4) = held r (klog s) + pressure_part r (run, thr)"
    using start_pressure [OF e4 f(4), of r] by blast
  show ?thesis
  proof (cases "r4 < 0")
    case True
    with e4 s4 f h show ?thesis
      by (simp add: start_components_def cleanup_netlink_account pressure_part_idle)
  next
    case r4: False
    obtain r5 s5 where e5: "start_if (enable_allocation_hooks s4) (uroam_hooks_init K) s4 = (r5, s5)"
      by fastforce
    obtain x m k where s5: "r5 = 0" "flags_of s5 = (flags_of s4)\<lparr>mf_hooks := (x, x, m, k)\<rparr>"
      "enable_allocation_hooks s4 \<or> \<not> x \<and> \<not> m \<and> \<not> k"
      "held r (klog s5) = held r (klog s4) + hooks_part r (x, x, m, k)"
      using start_hooks [OF e5, of r] s4(1) f(5) by auto
    obtain r6 s6 where e6: "start_if (enable_numa_aware s5) (uroam_numa_init K) s5 = (r6, s6)"
      by fastforce
    obtain y where s6: "r6 = 0" "flags_of s6 = (flags_of s5)\<lparr>mf_numa := y\<rparr>" "y \<longrightarrow> enable_numa_aware s5"
      "held r (klog s6) = held r (klog s5) + numa_part r y"
      using start_numa [OF e6, of r] s4(1) s5(2) f(6) by auto
    have f6: "flags_of s6 = (flags_of s)\<lparr>mf_pressure := (run, thr), mf_hooks := (x, x, m, k), mf_numa := y\<rparr>"
      by (simp add: s4(1) s5(2) s6(2))
    have h6: "held r (klog s6) = h + proc_part r (True, True, True, True) + kobj_part r True +
        nl_part r True + pressure_part r (run, thr) + hooks_part r (x, x, m, k) + numa_part r y"
      using h s4(5) s5(4) s6(4) by simp
    have par: "enable_allocation_hooks s4 = enable_allocation_hooks s"
      "enable_numa_aware s5 = enable_numa_aware s"
      by (simp_all add: flags_params s4(1) s5(2))
    obtain r7 s7 b where s7: "uroam_tracking_init K s6 = Some (r7, s7)"
      "flags_of s7 = (flags_of s6)\<lparr>mf_tracking := (\<not> r7 < 0, True), mf_numa := b\<rparr>" "r7 \<le> 0"
      "r7 < 0 \<longrightarrow> b = y" "grants_all K \<longrightarrow> \<not> r7 < 0"
      "held r (klog s7) - numa_part r b - tracking_part r (\<not> r7 < 0, True) = held r (klog s6) -
         numa_part r (mf_numa (flags_of s6)) - tracking_part r (mf_tracking (flags_of s6))"
      using tracking_init_account [OF pids _ r, of s6] f(7) f6 by auto
    have h7: "held r (klog s7) = h + proc_part r (True, True, True, True) + kobj_part r True +
        nl_part r True + pressure_part r (run, thr) + hooks_part r (x, x, m, k) + numa_part r b +
        tracking_part r (\<not> r7 < 0, True)"
      using s7(6) h6 f(7) by (simp add: f6 tracking_part_idle)
    note f7 = s7(2) [unfolded f6]
    have start: "start_components K s = Some (if r7 < 0 then (r7, cleanup_numa s7) else (0, s7))"
      using e4 e5 e6 s7(1) r4 s5(1) s6(1) by (simp add: start_components_def)
    show ?thesis
    proof (cases "r7 < 0")
      case True
      have "mf_hooks (flags_of s7) = (x, x, m, k)" by (simp add: f7)
      note c = cleanup_numa_account [OF this, of r]
      have par7: "enable_pressure_monitor s7 = enable_pressure_monitor s"
        "enable_allocation_hooks s7 = enable_allocation_hooks s"
        "enable_numa_aware s7 = enable_numa_aware s"
        by (simp_all add: flags_params f7)
      have "unwound K r (enable_pressure_monitor s) h (held r (klog (cleanup_numa s7)))"
      proof (rule unwoundI [where lost = "enable_pressure_monitor s \<and> \<not> run"])
        show "enable_pressure_monitor s \<and> (\<exists>h. thread_refused K h)" if "enable_pressure_monitor s \<and> \<not> run"
          using that s4(3) r4 by blast
        have "hooks_part r (x, x, m, k) = 0" if "\<not> enable_allocation_hooks s"
          using s5(3) that by (simp add: par)
        moreover have "b = y" "y \<longrightarrow> enable_numa_aware s"
          using s7(4) s6(3) True by (simp_all add: par)
        ultimately show "held r (klog (cleanup_numa s7)) = h -
            (if (enable_pressure_monitor s \<and> \<not> run) \<and> r \<in> {R_psi_group, R_psi_trigger} then 1 else 0)"
          using c h7 True s4(2) by (cases run) (auto simp: f7 f par7 double_release_def)
      qed
      then show ?thesis using start True s7(5) by simp
    next
      case False
      have "\<exists>b m k. mf_hooks (flags_of s7) = (b, b, m, k) \<and>
          (fst (snd (mf_params (flags_of s))) \<or> \<not> b \<and> \<not> m \<and> \<not> k)"
        using s5(3) by (simp add: f7 par) (simp add: flags_params)
      moreover have "run \<longrightarrow> fst (mf_params (flags_of s)) \<and> thr"
        using s4(2) by (simp add: flags_params)
      ultimately have "loaded_flags (flags_of s) (flags_of s7)"
        using False f by (auto simp: loaded_flags_def f7)
      moreover have "held r (klog s7) = h + owned r (flags_of s7)"
        using h7 False f by (simp add: owned_def f7)
      moreover have "run" if "grants_all K" "enable_pressure_monitor s"
        using s4(3) r4 that grants_all_never_fails(5) by blast
      ultimately show ?thesis
        using start False by (simp add: f7)
    qed
  qed
qed

lemma load_account:
  assumes pids: "bounded_pids K m" and fresh: "unloaded s" and r: "r \<noteq> R_skb"
  shows "\<exists>ret t. uroam_init K s = Some (ret, t) \<and>
    (if ret < 0 then unwound K r (enable_pressure_monitor s) (held r (klog s)) (held r (klog t))
     else loaded_flags (flags_of s) (flags_of t) \<and>
          held r (klog t) = held r (klog s) + owned r (flags_of t)) \<and>
    (grants_all K \<longrightarrow> ret = 0 \<and> (enable_pressure_monitor s \<longrightarrow> fst (mf_pressure (flags_of t))))"
proof -
  let ?f = "flags_of s" and ?s0 = "s\<lparr>allocation_list := [], enabled := True\<rparr>"
  note un = unloaded_flags [OF fresh]
  have f0: "flags_of ?s0 = ?f" by (simp add: flags_of_def)
  obtain r1 s1 where e1: "uroam_create_proc_entries K ?s0 = (r1, s1)" by fastforce
  note a1 = create_proc_account [OF e1, of r, unfolded f0, OF un(6)]
  show ?thesis
  proof (cases "r1 < 0")
    case True
    with e1 have "\<not> grants_all K" using grants_all_never_fails(1) [of K ?s0] by auto
    with True e1 a1 show ?thesis by (simp add: uroam_init_def Let_def)
  next
    case r1: False
    obtain r2 s2 where e2: "uroam_create_sysfs_entries K s1 = (r2, s2)" by fastforce
    from a1 r1 have f1: "flags_of s1 = ?f\<lparr>mf_proc := (True, True, True, True)\<rparr>"
      "held r (klog s1) = held r (klog s) + proc_part r (True, True, True, True)" by simp_all
    note a2 = create_sysfs_account [OF e2, of r]
    show ?thesis
    proof (cases "r2 < 0")
      case True
      with e2 have "\<not> grants_all K" using grants_all_never_fails(2) [of K s1] by auto
      with True e1 e2 r1 a2 f1 un show ?thesis
        by (simp add: uroam_init_def Let_def cleanup_proc_def remove_proc_account)
    next
      case r2: False
      obtain r3 s3 where e3: "uroam_netlink_init K s2 = (r3, s3)" by fastforce
      from a2 r2 f1 un have f2: "flags_of s2 = ?f\<lparr>mf_proc := (True, True, True, True), mf_kobj := True\<rparr>"
        "held r (klog s2) = held r (klog s) + proc_part r (True, True, True, True) + kobj_part r True"
        by simp_all
      from netlink_init_account [OF e3, of r] f2 un
      have f3: "flags_of s3 = ?f\<lparr>mf_proc := (True, True, True, True), mf_kobj := True, mf_nl := \<not> r3 < 0\<rparr>"
        "held r (klog s3) = held r (klog s) + proc_part r (True, True, True, True) + kobj_part r True +
           nl_part r (\<not> r3 < 0)"
        by simp_all
      show ?thesis
      proof (cases "r3 < 0")
        case True
        with e3 have "\<not> grants_all K" using grants_all_never_fails(3) [of K s2] by auto
        with True e1 e2 e3 r1 r2 f3 show ?thesis
          by (simp add: uroam_init_def Let_def cleanup_sysfs_def cleanup_proc_def remove_proc_account
              remove_sysfs_account sysfs_flags(2))
      next
        case r3: False
        have params: "mf_params (flags_of s3) = mf_params ?f" by (simp add: f3(1))
        have "\<exists>ret t. start_components K s3 = Some (ret, t) \<and>
          (if ret < 0 then unwound K r (enable_pressure_monitor s3) (held r (klog s)) (held r (klog t))
           else loaded_flags (flags_of s3) (flags_of t) \<and>
                held r (klog t) = held r (klog s) + owned r (flags_of t)) \<and>
          (grants_all K \<longrightarrow> ret = 0 \<and> (enable_pressure_monitor s3 \<longrightarrow> fst (mf_pressure (flags_of t))))"
          by (rule components_account [OF pids r]) (use f3 un r3 in simp_all)
        moreover have "uroam_init K s = start_components K s3"
          using e1 e2 e3 r1 r2 r3 by (simp add: uroam_init_def start_components_def Let_def)
        moreover have "loaded_flags (flags_of s3) g = loaded_flags ?f g" for g
          by (simp add: loaded_flags_def params)
        moreover have "enable_pressure_monitor s3 = enable_pressure_monitor s"
          by (simp add: flags_params params)
        ultimately show ?thesis by (simp only:)
      qed
    qed
  qed
qed

lemma exit_account:
  assumes "mf_hooks (flags_of s) = (b, b, m, k)"
  shows "held r (klog (uroam_exit s)) = held r (klog s) - nl_part r (mf_nl (flags_of s)) -
     kobj_part r (mf_kobj (flags_of s)) - proc_part r (mf_proc (flags_of s)) -
     (if enable_pressure_monitor s
      then pressure_part r (mf_pressure (flags_of s)) + double_release r (flags_of s) else 0) -
     (if enable_allocation_hooks s then hooks_part r (b, b, m, k) else 0) -
     (if enable_numa_aware s then numa_part r (mf_numa (flags_of s)) else 0) -
     tracking_part r (mf_tracking (flags_of s))"
proof -
  let ?s1 = "kdo (Unlock State_lock) ((kdo (Lock State_lock) s)\<lparr>enabled := False\<rparr>)"
  have f1: "flags_of ((kdo (Lock State_lock) s)\<lparr>enabled := False\<rparr>) = flags_of s"
    by (simp add: flags_of_def)
  obtain x where x: "flags_of (uroam_tracking_exit ?s1) = (flags_of s)\<lparr>mf_tracking := x\<rparr>"
    using tracking_exit_account(2) [of ?s1] f1 by auto
  then have "mf_hooks (flags_of (uroam_tracking_exit ?s1)) = (b, b, m, k)"
    using assms by simp
  from cleanup_numa_account [OF this, of r] show ?thesis
    using tracking_exit_account(1) [of r ?s1]
    by (simp add: exit_is_cleanup flags_params x f1 double_release_def)
qed

lemma unloaded_boot: "unloaded main_boot" "klog main_boot = []" "enable_pressure_monitor main_boot"
  "enable_numa_aware main_boot"
  by (simp_all add: unloaded_def hooks_idle_def main_boot_def main_state.defs tracking_boot_def
      tracking_state.defs numa_boot_def numa_state.defs hooks_boot_def hooks_state.defs
      pressure_boot_def pressure_state.defs nl_boot_def nl_state.defs uroam_state.defs
      uroam_global_state_def)

lemma unload_account:
  assumes "bounded_pids K m" and "unloaded s" and "r \<noteq> R_skb"
    and "uroam_init K s = Some (ret, t)" and "\<not> ret < 0"
  shows "held r (klog (uroam_exit t)) = held r (klog s) +
    (if r = R_numa_table \<and> \<not> enable_numa_aware s \<and> numa_distance_table t \<noteq> None then 1 else 0) -
    (if r \<in> {R_psi_group, R_psi_trigger} \<and> enable_pressure_monitor s \<and>
        \<not> pressure_monitor_running t then 1 else 0)"
proof -
  have l: "loaded_flags (flags_of s) (flags_of t)"
    "held r (klog t) = held r (klog s) + owned r (flags_of t)"
    using load_account [OF assms(1,2,3)] assms(4,5) by auto
  then obtain b m k where hooks: "mf_hooks (flags_of t) = (b, b, m, k)"
    "enable_allocation_hooks s \<or> \<not> b \<and> \<not> m \<and> \<not> k"
    by (auto simp: loaded_flags_def flags_params)
  have par: "enable_pressure_monitor t = enable_pressure_monitor s"
    "enable_allocation_hooks t = enable_allocation_hooks s" "enable_numa_aware t = enable_numa_aware s"
    using l(1) by (simp_all add: loaded_flags_def flags_params)
  have run: "pressure_monitor_running t = fst (mf_pressure (flags_of t))"
    "(numa_distance_table t \<noteq> None) = mf_numa (flags_of t)"
    by (simp_all add: flags_of_def)
  have "pressure_part r (mf_pressure (flags_of t)) = 0" if "\<not> enable_pressure_monitor s"
    using l(1) that by (auto simp: loaded_flags_def flags_params pressure_part_idle)
  moreover have "hooks_part r (b, b, m, k) = 0" if "\<not> enable_allocation_hooks s"
    using hooks(2) that by auto
  ultimately show ?thesis
    unfolding exit_account [OF hooks(1), of r] l(2) par run
    by (auto simp: owned_def hooks(1) double_release_def numa_part_def)
qed

subsection \<open>Properties\<close>



text \<open>C7: On a kernel that grants every request the load succeeds: the module is connected, its
  tracking thread runs, and its pressure monitor runs exactly when the parameter asks for it.\<close>

theorem module_load_succeeds:
  assumes "grants_all K" and "bounded_pids K m" and "unloaded s"
  shows "\<exists>t. uroam_init K s = Some (0, t) \<and> uroam_nl_sock t \<and> tracking_running t \<and>
    (pressure_monitor_running t \<longleftrightarrow> enable_pressure_monitor s)"
proof -
  obtain t where "uroam_init K s = Some (0, t)" "loaded_flags (flags_of s) (flags_of t)"
    "enable_pressure_monitor s \<longrightarrow> fst (mf_pressure (flags_of t))"
    using load_account [OF assms(2,3), of R_kobj] assms(1) by auto
  then show ?thesis
    by (intro exI [of _ t]) (auto simp: loaded_flags_def flags_of_def)
qed

theorem module_load_succeeds_witness:
  "\<exists>t. uroam_init example_kernel main_boot = Some (0, t) \<and> pressure_monitor_running t"
proof -
  have "grants_all example_kernel" by (simp add: grants_all_def kernel_ok_def)
  from module_load_succeeds [OF this example_kernel_ok(3) unloaded_boot(1)] unloaded_boot(3)
  show ?thesis by auto
qed

text \<open>C3: Unloading a module that was loaded gives back everything the load obtained, with two
  exceptions: the distance table stays allocated when the module was loaded without NUMA
  awareness (tracking starts the NUMA component all the same), and group and trigger of the
  pressure monitor are given back twice when the load had lost the monitor's thread.\<close>

theorem module_unload_account:
  assumes "bounded_pids K m" and "unloaded s" and "r \<noteq> R_skb"
    and "uroam_init K s = Some (ret, t)" and "\<not> ret < 0"
  shows "held r (klog (uroam_exit t)) = held r (klog s) +
    (if r = R_numa_table \<and> \<not> enable_numa_aware s \<and> numa_distance_table t \<noteq> None then 1 else 0) -
    (if r \<in> {R_psi_group, R_psi_trigger} \<and> enable_pressure_monitor s \<and>
        \<not> pressure_monitor_running t then 1 else 0)"
  by (rule unload_account [OF assms])

text \<open>The example kernel loads the module.\<close>

lemma example_loaded:
  obtains t where "uroam_init example_kernel main_boot = Some (0, t)" "pressure_monitor_running t"
proof -
  have "grants_all example_kernel" by (simp add: grants_all_def kernel_ok_def)
  with load_account [OF example_kernel_ok(3) unloaded_boot(1), of R_kobj] unloaded_boot(3) that
  show ?thesis by (auto simp: flags_of_def)
qed

theorem module_unload_account_witness:
  "\<exists>t. uroam_init example_kernel main_boot = Some (0, t) \<and> held R_kobj (klog (uroam_exit t)) = 0"
proof -
  obtain t where t: "uroam_init example_kernel main_boot = Some (0, t)"
    by (rule example_loaded)
  from module_unload_account [OF example_kernel_ok(3) unloaded_boot(1) _ this, of R_kobj] t
  show ?thesis by (simp add: unloaded_boot(2))
qed

text \<open>The parameters can be changed while the module is loaded, and the unload goes by their
  value then: when the pressure monitor was started and its parameter is cleared afterwards, the
  unload leaves its thread, group and trigger behind, each once.\<close>

theorem unload_goes_by_current_parameter:
  assumes "bounded_pids K m" and "unloaded s" and "r \<noteq> R_skb"
    and "uroam_init K s = Some (ret, t)" and "\<not> ret < 0" and "pressure_monitor_running t"
  shows "held r (klog (uroam_exit (t\<lparr>enable_pressure_monitor := False\<rparr>))) =
    held r (klog (uroam_exit t)) +
    (if r \<in> {R_psi_group, R_psi_trigger, R_thread Pressure_thread} then 1 else 0)"
proof -
  have l: "loaded_flags (flags_of s) (flags_of t)"
    using load_account [OF assms(1,2,3)] assms(4,5) by auto
  then obtain b m k where hooks: "mf_hooks (flags_of t) = (b, b, m, k)"
    by (auto simp: loaded_flags_def)
  let ?t = "t\<lparr>enable_pressure_monitor := False\<rparr>"
  have same: "mf_hooks (flags_of ?t) = (b, b, m, k)" "mf_nl (flags_of ?t) = mf_nl (flags_of t)"
    "mf_kobj (flags_of ?t) = mf_kobj (flags_of t)" "mf_proc (flags_of ?t) = mf_proc (flags_of t)"
    "mf_numa (flags_of ?t) = mf_numa (flags_of t)" "mf_tracking (flags_of ?t) = mf_tracking (flags_of t)"
    using hooks by (simp_all add: flags_of_def)
  have pr: "mf_pressure (flags_of t) = (True, True)" "enable_pressure_monitor t"
    using l assms(6) by (auto simp: loaded_flags_def flags_of_def)
  show ?thesis
    unfolding exit_account [OF hooks, of r] exit_account [OF same(1), of r]
    by (simp add: same(2-) pr double_release_def pressure_part.simps)
qed

theorem unload_goes_by_current_parameter_witness:
  "\<exists>t. uroam_init example_kernel main_boot = Some (0, t) \<and>
     held (R_thread Pressure_thread) (klog (uroam_exit (t\<lparr>enable_pressure_monitor := False\<rparr>))) =
     held (R_thread Pressure_thread) (klog (uroam_exit t)) + 1"
proof -
  obtain t where t: "uroam_init example_kernel main_boot = Some (0, t)" "pressure_monitor_running t"
    by (rule example_loaded)
  from unload_goes_by_current_parameter [OF example_kernel_ok(3) unloaded_boot(1) _ t(1) _ t(2),
      of "R_thread Pressure_thread"] t(1)
  show ?thesis by simp
qed

end
