(* ===== verification/Seq_Files.thy ===== *)
theory Seq_Files
  imports Uroam_Prelude
begin

section \<open>Files whose text one function prints\<close>

text \<open>
  Both modules register files under \<open>/proc\<close> by a table of operations: \<open>proc_open\<close> is the module's
  own and hands a function that prints the file to the kernel's \<open>single_open\<close>; the other entries
  are functions of the kernel. \<open>single_open\<close> is a parameter: it has an open file and the printing
  function, and gives a result code and the file. \<open>prints_what_was_opened\<close> is what the kernel's
  documentation says of it: a file that was opened so prints by that function.
\<close>

datatype seq_function = Seq_read | Seq_lseek | Single_release

record 'f proc_ops =
  proc_open :: "'f \<Rightarrow> int \<times> 'f"
  proc_read :: seq_function
  proc_lseek :: seq_function
  proc_release :: seq_function

definition prints_what_was_opened :: "('f \<Rightarrow> 'p \<Rightarrow> int \<times> 'f) \<Rightarrow> ('f \<Rightarrow> 'p option) \<Rightarrow> bool" where
  "prints_what_was_opened single_open printer \<longleftrightarrow>
     (\<forall>f p. fst (single_open f p) = 0 \<longrightarrow> printer (snd (single_open f p)) = Some p)"

text \<open>A reader opens the file and reads it to the end.\<close>

definition read_file :: "'f proc_ops \<Rightarrow> ('f \<Rightarrow> 'p option) \<Rightarrow> ('p \<Rightarrow> string) \<Rightarrow> 'f \<Rightarrow> int + string" where
  "read_file ops printer text f =
     (let (ret, f') = proc_open ops f
      in if ret < 0 then Inl ret
         else Inr (if proc_read ops = Seq_read then (case printer f' of None \<Rightarrow> [] | Some p \<Rightarrow> text p) else []))"

end
