(* ===== verification/Proc_Files.thy ===== *)
theory Proc_Files
  imports Proc_Text Kernel_Main Seq_Files
begin

section \<open>The registered files and the banner: kernel/main.c\<close>

text \<open>The three functions the module gives to \<open>single_open\<close>.\<close>

datatype uroam_show = Status_show | Config_show | Stats_show

definition uroam_proc_status_open :: "('f \<Rightarrow> uroam_show \<Rightarrow> int \<times> 'f) \<Rightarrow> 'f \<Rightarrow> int \<times> 'f" where
  "uroam_proc_status_open single_open file = single_open file Status_show"

definition uroam_proc_config_open :: "('f \<Rightarrow> uroam_show \<Rightarrow> int \<times> 'f) \<Rightarrow> 'f \<Rightarrow> int \<times> 'f" where
  "uroam_proc_config_open single_open file = single_open file Config_show"

definition uroam_proc_stats_open :: "('f \<Rightarrow> uroam_show \<Rightarrow> int \<times> 'f) \<Rightarrow> 'f \<Rightarrow> int \<times> 'f" where
  "uroam_proc_stats_open single_open file = single_open file Stats_show"

definition uroam_proc_status_ops :: "('f \<Rightarrow> uroam_show \<Rightarrow> int \<times> 'f) \<Rightarrow> 'f proc_ops" where
  "uroam_proc_status_ops single_open =
     \<lparr>proc_open = uroam_proc_status_open single_open, proc_read = Seq_read,
      proc_lseek = Seq_lseek, proc_release = Single_release\<rparr>"

definition uroam_proc_config_ops :: "('f \<Rightarrow> uroam_show \<Rightarrow> int \<times> 'f) \<Rightarrow> 'f proc_ops" where
  "uroam_proc_config_ops single_open =
     \<lparr>proc_open = uroam_proc_config_open single_open, proc_read = Seq_read,
      proc_lseek = Seq_lseek, proc_release = Single_release\<rparr>"

definition uroam_proc_stats_ops :: "('f \<Rightarrow> uroam_show \<Rightarrow> int \<times> 'f) \<Rightarrow> 'f proc_ops" where
  "uroam_proc_stats_ops single_open =
     \<lparr>proc_open = uroam_proc_stats_open single_open, proc_read = Seq_read,
      proc_lseek = Seq_lseek, proc_release = Single_release\<rparr>"

text \<open>The attribute of the sysfs file: its name, its mode (0644) and its two handlers.\<close>

record 's kobj_attribute =
  attr_name :: string
  attr_mode :: nat
  attr_show :: "'s \<Rightarrow> string"
  attr_store :: "string \<Rightarrow> int \<Rightarrow> 's \<Rightarrow> int \<times> 's"

definition uroam_enabled_attr :: "(string \<Rightarrow> int + int) \<Rightarrow> 'a uroam_state_scheme kobj_attribute" where
  "uroam_enabled_attr kstrtoint =
     \<lparr>attr_name = ''enabled'', attr_mode = 420, attr_show = uroam_enabled_show,
      attr_store = uroam_enabled_store kstrtoint\<rparr>"

text \<open>The lines of the banner; the version and the kernel's release are constants of the build.\<close>

definition on_off :: "bool \<Rightarrow> string" where
  "on_off b = (if b then ''Enabled'' else ''Disabled'')"

definition uroam_print_banner :: "string \<Rightarrow> string \<Rightarrow> bool \<Rightarrow> bool \<Rightarrow> bool \<Rightarrow> string list" where
  "uroam_print_banner MODULE_VERSION UTS_RELEASE pressure_monitor allocation_hooks numa =
     [''Universal RAM Optimization Layer v'' @ MODULE_VERSION @ '' loaded'',
      ''  Pressure Monitor: '' @ on_off pressure_monitor,
      ''  Allocation Hooks: '' @ on_off allocation_hooks,
      ''  NUMA Aware: '' @ on_off numa,
      ''  Kernel: '' @ UTS_RELEASE]"

subsection \<open>What the files print\<close>

text \<open>The text of each printing function in a state of the module.\<close>

fun text_of_show :: "kenv \<Rightarrow> u64 \<times> u64 \<times> u64 \<Rightarrow> 'a main_state_scheme \<Rightarrow> uroam_show \<Rightarrow> string" where
  "text_of_show K pages s Status_show = fst (uroam_proc_status_show s)"
| "text_of_show K pages s Config_show =
     uroam_proc_config_show (enable_pressure_monitor s) (enable_allocation_hooks s) (enable_numa_aware s)"
| "text_of_show K (file_pages, anon, swap) s Stats_show = uroam_proc_stats_show K file_pages anon swap s"

text \<open>Each of the three files prints the text that belongs to its name, and when \<open>single_open\<close> fails
  the open fails with its code.\<close>

theorem registered_files_print:
  assumes "prints_what_was_opened single_open printer"
  shows "list_all (\<lambda>(ops, sh).
      fst (single_open f sh) = 0 \<longrightarrow>
        read_file (ops single_open) printer (text_of_show K pages s) f = Inr (text_of_show K pages s sh))
    [(uroam_proc_status_ops, Status_show), (uroam_proc_config_ops, Config_show),
     (uroam_proc_stats_ops, Stats_show)] \<and>
   (fst (single_open f Status_show) < 0 \<longrightarrow>
      read_file (uroam_proc_status_ops single_open) printer (text_of_show K pages s) f =
        Inl (fst (single_open f Status_show)))"
  using assms
  by (auto simp: prints_what_was_opened_def read_file_def uroam_proc_status_ops_def
      uroam_proc_config_ops_def uroam_proc_stats_ops_def uroam_proc_status_open_def
      uroam_proc_config_open_def uroam_proc_stats_open_def case_prod_beta Let_def)

theorem registered_files_print_witness:
  "read_file (uroam_proc_status_ops (\<lambda>_ p. (0, Some p))) id (text_of_show K pages s) None =
     Inr (fst (uroam_proc_status_show s))"
  using registered_files_print [of "\<lambda>_ p. (0, Some p)" id None K pages s]
  by (simp add: prints_what_was_opened_def)

end
