(* ===== verification/Critical_Section.thy ===== *)
theory Critical_Section
  imports Uroam_Prelude "HOL-Library.Multiset"
begin

section \<open>Operations under one lock, performed by many threads at once\<close>

text \<open>
  The other theories take an operation that works under a lock as one step. Here such an operation
  is a sequence of single accesses: a thread waits for the lock, takes it, performs the accesses of
  its operation one at a time while the other threads perform theirs, and gives the lock back.
  \<open>section_step\<close> is that interleaving, for any accesses. The locale \<open>critical_section\<close> says what
  makes the accesses an implementation of an operation, and proves once that the threads cannot
  tell them from the operation performed in one step.
\<close>

subsection \<open>The interleaving\<close>

text \<open>
  An access (\<open>acc\<close>) has the shared data and the thread's registers and place in the code, and gives
  the new data and either the next place or the operation's result. The lock knows its holder.
  \<open>passed\<close> is a ghost: the threads that have done their last access, in that order.
\<close>

datatype ('l, 'a) section_phase = At_lock | In_section 'l | At_unlock 'a | Past 'a

record ('s, 'r, 'l, 'a) section_config =
  shared :: 's
  holder :: "nat option"
  threads :: "('r \<times> ('l, 'a) section_phase) list"
  passed :: "nat list"

inductive section_step ::
  "('s \<Rightarrow> 'l \<Rightarrow> 's \<times> ('l + 'a)) \<Rightarrow> ('r \<Rightarrow> 'l) \<Rightarrow>
   ('s, 'r, 'l, 'a) section_config \<Rightarrow> ('s, 'r, 'l, 'a) section_config \<Rightarrow> bool"
  for acc first where
  takes_lock:
    "i < length (threads c) \<Longrightarrow> threads c ! i = (r, At_lock) \<Longrightarrow> holder c = None \<Longrightarrow>
     section_step acc first c
       (c\<lparr>holder := Some i, threads := (threads c)[i := (r, In_section (first r))]\<rparr>)"
| accesses:
    "i < length (threads c) \<Longrightarrow> threads c ! i = (r, In_section l) \<Longrightarrow>
     acc (shared c) l = (s', Inl l') \<Longrightarrow>
     section_step acc first c
       (c\<lparr>shared := s', threads := (threads c)[i := (r, In_section l')]\<rparr>)"
| last_access:
    "i < length (threads c) \<Longrightarrow> threads c ! i = (r, In_section l) \<Longrightarrow>
     acc (shared c) l = (s', Inr a) \<Longrightarrow>
     section_step acc first c
       (c\<lparr>shared := s', threads := (threads c)[i := (r, At_unlock a)], passed := passed c @ [i]\<rparr>)"
| gives_back:
    "i < length (threads c) \<Longrightarrow> threads c ! i = (r, At_unlock a) \<Longrightarrow>
     section_step acc first c
       (c\<lparr>holder := None, threads := (threads c)[i := (r, Past a)]\<rparr>)"

inductive_cases section_step_cases: "section_step acc first c c'"

definition section_start :: "'s \<Rightarrow> 'r list \<Rightarrow> ('s, 'r, 'l, 'a) section_config" where
  "section_start s rs =
     \<lparr>shared = s, holder = None, threads = map (\<lambda>r. (r, At_lock)) rs, passed = []\<rparr>"

fun in_section :: "('l, 'a) section_phase \<Rightarrow> bool" where
  "in_section (In_section l) = True"
| "in_section (At_unlock a) = True"
| "in_section _ = False"

fun result_of :: "('l, 'a) section_phase \<Rightarrow> 'a option" where
  "result_of (At_unlock a) = Some a"
| "result_of (Past a) = Some a"
| "result_of _ = None"

text \<open>The results of the threads that have passed, and their requests.\<close>

definition results :: "('s, 'r, 'l, 'a) section_config \<Rightarrow> 'a list" where
  "results c = map (\<lambda>i. the (result_of (snd (threads c ! i)))) (passed c)"

definition requests :: "('s, 'r, 'l, 'a) section_config \<Rightarrow> 'r list" where
  "requests c = map (\<lambda>i. fst (threads c ! i)) (passed c)"

text \<open>The operations one after another.\<close>

fun run_ops :: "('s \<Rightarrow> 'r \<Rightarrow> 'a \<times> 's) \<Rightarrow> 's \<Rightarrow> 'r list \<Rightarrow> 'a list \<times> 's" where
  "run_ops f s [] = ([], s)"
| "run_ops f s (r # rs) = (let (a, s1) = f s r; (as, s2) = run_ops f s1 rs in (a # as, s2))"

lemma run_ops_snoc:
  "run_ops f s rs = (as, t) \<Longrightarrow> run_ops f s (rs @ [r]) = (as @ [fst (f t r)], snd (f t r))"
  by (induction rs arbitrary: s as) (auto split: prod.splits)

lemma length_run_ops [simp]: "length (fst (run_ops f s rs)) = length rs"
  by (induction rs arbitrary: s) (simp_all add: case_prod_beta Let_def)

text \<open>The accesses from a place on, undisturbed.\<close>

inductive yields :: "('s \<Rightarrow> 'l \<Rightarrow> 's \<times> ('l + 'a)) \<Rightarrow> 's \<Rightarrow> 'l \<Rightarrow> 'a \<times> 's \<Rightarrow> bool" for acc where
  "acc s l = (s', Inr a) \<Longrightarrow> yields acc s l (a, s')"
| "acc s l = (s1, Inl l1) \<Longrightarrow> yields acc s1 l1 x \<Longrightarrow> yields acc s l x"

inductive_cases yields_cases: "yields acc s l x"

lemma yields_next: "yields acc s l x \<Longrightarrow> acc s l = (s1, Inl l1) \<Longrightarrow> yields acc s1 l1 x"
  by (auto elim: yields_cases)

lemma yields_last: "yields acc s l x \<Longrightarrow> acc s l = (s1, Inr a) \<Longrightarrow> x = (a, s1)"
  by (auto elim: yields_cases)

subsection \<open>Accesses that implement an operation\<close>

locale critical_section =
  fixes acc :: "'s \<Rightarrow> 'l \<Rightarrow> 's \<times> ('l + 'a)" and first :: "'r \<Rightarrow> 'l"
    and operate :: "'s \<Rightarrow> 'r \<Rightarrow> 'a \<times> 's" and left :: "'l \<Rightarrow> nat"
  assumes implements: "yields acc s (first r) (operate s r)"
    and fewer: "acc s l = (s', Inl l') \<Longrightarrow> left l' < left l"
begin

text \<open>
  The data are those after the operations that have passed, except inside the section, where the
  holder's remaining accesses lead to those after its own operation.
\<close>

definition shape_inv :: "'r list \<Rightarrow> ('s, 'r, 'l, 'a) section_config \<Rightarrow> bool" where
  "shape_inv rs c \<longleftrightarrow>
     map fst (threads c) = rs \<and> distinct (passed c) \<and>
     (\<forall>i. i \<in> set (passed c) \<longleftrightarrow> i < length rs \<and> result_of (snd (threads c ! i)) \<noteq> None) \<and>
     (\<forall>i<length rs. in_section (snd (threads c ! i)) \<longleftrightarrow> holder c = Some i) \<and>
     (\<forall>i. holder c = Some i \<longrightarrow> i < length rs)"

fun doing :: "('s, 'r, 'l, 'a) section_config \<Rightarrow> nat option \<Rightarrow> ('r \<times> 'l) option" where
  "doing c None = None"
| "doing c (Some i) = (case threads c ! i of (r, In_section l) \<Rightarrow> Some (r, l) | _ \<Rightarrow> None)"

definition data_inv :: "'s \<Rightarrow> ('s, 'r, 'l, 'a) section_config \<Rightarrow> bool" where
  "data_inv s0 c \<longleftrightarrow>
     (\<exists>s. run_ops operate s0 (requests c) = (results c, s) \<and>
        (case doing c (holder c) of
           None \<Rightarrow> shared c = s
         | Some (r, l) \<Rightarrow> yields acc (shared c) l (operate s r)))"

lemma inv_start: "shape_inv rs (section_start s0 rs)" "data_inv s0 (section_start s0 rs)"
  by (auto simp: shape_inv_def data_inv_def section_start_def requests_def results_def comp_def)

lemma frame:
  assumes "i < length (threads c)" and "threads c ! i = (r, p)" and "threads d = (threads c)[i := (r, q)]"
    and "passed d = passed c" and "i \<in> set (passed c) \<Longrightarrow> result_of q = result_of p"
  shows "results d = results c \<and> requests d = requests c"
proof -
  have "fst (threads d ! j) = fst (threads c ! j) \<and>
      result_of (snd (threads d ! j)) = result_of (snd (threads c ! j))" if "j \<in> set (passed c)" for j
    using assms that by (cases "j = i") simp_all
  then show ?thesis by (simp add: results_def requests_def assms(4))
qed

text \<open>The parts of the invariant, for a thread that makes a step.\<close>

lemma shapeD:
  assumes "shape_inv rs c" and "i < length (threads c)" and "threads c ! i = (r, p)"
  shows "length (threads c) = length rs" "i \<in> set (passed c) \<longleftrightarrow> result_of p \<noteq> None"
    "in_section p \<longleftrightarrow> holder c = Some i"
proof -
  have "map fst (threads c) = rs" using assms(1) by (simp add: shape_inv_def)
  then show len: "length (threads c) = length rs" by (metis length_map)
  have "\<forall>i. i \<in> set (passed c) \<longleftrightarrow> i < length rs \<and> result_of (snd (threads c ! i)) \<noteq> None"
    "\<forall>i<length rs. in_section (snd (threads c ! i)) \<longleftrightarrow> holder c = Some i"
    using assms(1) unfolding shape_inv_def by blast+
  with assms(2,3) len show "i \<in> set (passed c) \<longleftrightarrow> result_of p \<noteq> None"
    "in_section p \<longleftrightarrow> holder c = Some i" by force+
qed

lemma shape_update:
  assumes "shape_inv rs c" and "i < length (threads c)" and "threads c ! i = (r, p)"
    and "threads d = (threads c)[i := (r, q)]"
    and "distinct (passed d)" and "set (passed d) = set (passed c) \<union> {j. j = i \<and> result_of q \<noteq> None}"
    and "result_of p \<noteq> None \<Longrightarrow> result_of q \<noteq> None"
    and "in_section q \<longleftrightarrow> holder d = Some i"
    and "\<And>j. j \<noteq> i \<Longrightarrow> holder d = Some j \<longleftrightarrow> holder c = Some j"
  shows "shape_inv rs d"
proof -
  note D = shapeD [OF assms(1-3)]
  have f: "map fst (threads c) = rs" using assms(1) by (simp add: shape_inv_def)
  have "map fst (threads d) = map fst (threads c)"
    using assms(2,3) unfolding assms(4) by (metis fst_conv list_update_id map_update)
  moreover have "j \<in> set (passed d) \<longleftrightarrow> j < length rs \<and> result_of (snd (threads d ! j)) \<noteq> None" for j
  proof (cases "j = i")
    case True
    with assms(2,4,6,7) D show ?thesis by auto
  next
    case False
    with assms(1,4,6) show ?thesis by (simp add: shape_inv_def)
  qed
  moreover have "in_section (snd (threads d ! j)) \<longleftrightarrow> holder d = Some j" if "j < length rs" for j
  proof (cases "j = i")
    case True
    with assms(2,4,8) show ?thesis by simp
  next
    case False
    with assms(1,4) assms(9) [of j] that show ?thesis by (simp add: shape_inv_def)
  qed
  moreover have "j < length rs" if "holder d = Some j" for j
    using that assms(1,2) assms(9) [of j] D(1) by (cases "j = i") (auto simp: shape_inv_def)
  ultimately show ?thesis using f assms(5) by (simp add: shape_inv_def)
qed

lemma section_inv_step:
  assumes "section_step acc first c c'" and shape: "shape_inv rs c" and data: "data_inv s0 c"
  shows "shape_inv rs c' \<and> data_inv s0 c'"
  using assms(1)
proof (rule section_step_cases)
  fix i r
  assume c': "c' = c\<lparr>holder := Some i, threads := (threads c)[i := (r, In_section (first r))]\<rparr>"
    and i: "i < length (threads c)" "threads c ! i = (r, At_lock)" and free: "holder c = None"
  note d = shapeD [OF shape i]
  have "shape_inv rs c'"
    by (rule shape_update [OF shape i]) (use shape d free in \<open>auto simp: c' shape_inv_def\<close>)
  moreover have "results c' = results c \<and> requests c' = requests c"
    by (rule frame [OF i]) (use d in \<open>simp_all add: c'\<close>)
  then have "data_inv s0 c'"
    using data free implements [of "shared c" r] i(1) by (simp add: data_inv_def) (simp add: c')
  ultimately show ?thesis ..
next
  fix i r l s' l'
  assume c': "c' = c\<lparr>shared := s', threads := (threads c)[i := (r, In_section l')]\<rparr>"
    and i: "i < length (threads c)" "threads c ! i = (r, In_section l)"
    and step: "acc (shared c) l = (s', Inl l')"
  note d = shapeD [OF shape i]
  have same: "results c' = results c \<and> requests c' = requests c"
    by (rule frame [OF i]) (use d in \<open>simp_all add: c'\<close>)
  obtain s where s: "run_ops operate s0 (requests c) = (results c, s)"
    "yields acc (shared c) l (operate s r)"
    using data d(3) i(2) by (auto simp: data_inv_def)
  from yields_next [OF s(2) step] have "yields acc s' l' (operate s r)" .
  then have "data_inv s0 c'"
    using s(1) same d(3) i(1) by (simp add: data_inv_def) (simp add: c')
  moreover have "shape_inv rs c'"
    by (rule shape_update [OF shape i]) (use shape d in \<open>auto simp: c' shape_inv_def\<close>)
  ultimately show ?thesis by blast
next
  fix i r l s' a
  assume c': "c' = c\<lparr>shared := s', threads := (threads c)[i := (r, At_unlock a)], passed := passed c @ [i]\<rparr>"
    and i: "i < length (threads c)" "threads c ! i = (r, In_section l)"
    and step: "acc (shared c) l = (s', Inr a)"
  note d = shapeD [OF shape i]
  have "shape_inv rs c'"
    by (rule shape_update [OF shape i]) (use shape d in \<open>auto simp: c' shape_inv_def\<close>)
  moreover obtain s where s: "run_ops operate s0 (requests c) = (results c, s)"
    "yields acc (shared c) l (operate s r)"
    using data d(3) i(2) by (auto simp: data_inv_def)
  from yields_last [OF s(2) step] have op: "operate s r = (a, s')" .
  have "results c' = results c @ [a] \<and> requests c' = requests c @ [r]"
    using frame [OF i, of "c\<lparr>threads := (threads c)[i := (r, At_unlock a)]\<rparr>"] d(2) i(1)
    by (simp add: c' results_def requests_def)
  with run_ops_snoc [OF s(1), of r] op have "data_inv s0 c'"
    using d(3) i(1) by (simp add: data_inv_def) (simp add: c')
  ultimately show ?thesis ..
next
  fix i r a
  assume c': "c' = c\<lparr>holder := None, threads := (threads c)[i := (r, Past a)]\<rparr>"
    and i: "i < length (threads c)" "threads c ! i = (r, At_unlock a)"
  note d = shapeD [OF shape i]
  have "shape_inv rs c'"
    by (rule shape_update [OF shape i]) (use shape d in \<open>auto simp: c' shape_inv_def\<close>)
  moreover have "results c' = results c \<and> requests c' = requests c"
    by (rule frame [OF i, of c' "Past a"]) (use d in \<open>simp_all add: c'\<close>)
  then have "data_inv s0 c'"
    using data d(3) i(2) by (simp add: data_inv_def) (simp add: c')
  ultimately show ?thesis ..
qed

lemma section_inv_run:
  assumes "(section_step acc first)\<^sup>*\<^sup>* (section_start s0 rs) c"
  shows "shape_inv rs c \<and> data_inv s0 c"
  using assms
proof (induction rule: rtranclp_induct)
  case base
  show ?case using inv_start by blast
next
  case (step c d)
  then show ?case using section_inv_step by blast
qed

text \<open>
  At every moment: the results of the threads that have passed are those of their operations performed
  one after another in the order of their last accesses; when the lock is free the data are what
  those operations leave; and somebody can go on until everybody has returned.
\<close>

lemma one_after_another:
  assumes "(section_step acc first)\<^sup>*\<^sup>* (section_start s0 rs) c"
  shows "fst (run_ops operate s0 (requests c)) = results c \<and>
    (holder c = None \<longrightarrow> shared c = snd (run_ops operate s0 (requests c))) \<and>
    distinct (passed c) \<and> map fst (threads c) = rs"
  using section_inv_run [OF assms] by (auto simp: shape_inv_def data_inv_def)

text \<open>Everybody who has returned has passed.\<close>

lemma all_passed:
  assumes "(section_step acc first)\<^sup>*\<^sup>* (section_start s0 rs) c"
    and "\<forall>t \<in> set (threads c). \<exists>r a. t = (r, Past a)"
  shows "holder c = None \<and> set (passed c) = {..<length rs} \<and> distinct (passed c)"
proof -
  have inv: "shape_inv rs c" using section_inv_run [OF assms(1)] ..
  have len: "length (threads c) = length rs"
    using inv unfolding shape_inv_def by (metis length_map)
  have past: "\<exists>a. snd (threads c ! i) = Past a" if "i < length rs" for i
  proof -
    have "threads c ! i \<in> set (threads c)" using that len by simp
    with assms(2) show ?thesis by (metis snd_conv)
  qed
  have "holder c = None"
  proof (rule ccontr)
    assume "holder c \<noteq> None"
    then obtain i where i: "holder c = Some i" by blast
    then have "i < length rs \<and> in_section (snd (threads c ! i))" using inv by (auto simp: shape_inv_def)
    with past [of i] show False by auto
  qed
  moreover have "i \<in> set (passed c) \<longleftrightarrow> i < length rs" for i
  proof -
    have "i \<in> set (passed c) \<longleftrightarrow> i < length rs \<and> result_of (snd (threads c ! i)) \<noteq> None"
      using inv by (simp add: shape_inv_def)
    then show ?thesis using past [of i] by auto
  qed
  ultimately show ?thesis using inv by (auto simp: shape_inv_def)
qed

text \<open>A thread that finds the lock free and is not disturbed.\<close>

lemma run_inside:
  "yields acc s l x \<Longrightarrow> i < length (threads c) \<Longrightarrow> threads c ! i = (r, In_section l) \<Longrightarrow> shared c = s \<Longrightarrow>
   (section_step acc first)\<^sup>*\<^sup>* c
     (c\<lparr>shared := snd x, holder := None, threads := (threads c)[i := (r, Past (fst x))],
        passed := passed c @ [i]\<rparr>)"
proof (induction arbitrary: c rule: yields.induct)
  case (1 s l s' a)
  let ?d = "c\<lparr>shared := s', threads := (threads c)[i := (r, At_unlock a)], passed := passed c @ [i]\<rparr>"
  have "section_step acc first c ?d" using 1 by (auto intro: last_access)
  moreover have "section_step acc first ?d
      (?d\<lparr>holder := None, threads := (threads ?d)[i := (r, Past a)]\<rparr>)"
    using 1 by (intro gives_back) simp_all
  ultimately show ?case by (cases c) (simp add: converse_rtranclp_into_rtranclp)
next
  case (2 s l s1 l1 x)
  let ?d = "c\<lparr>shared := s1, threads := (threads c)[i := (r, In_section l1)]\<rparr>"
  have "section_step acc first c ?d" using 2 by (auto intro: accesses)
  with 2(3) [of ?d] 2(4) show ?case by (cases c) (simp add: converse_rtranclp_into_rtranclp)
qed

lemma run_alone:
  assumes "i < length (threads c)" and "threads c ! i = (r, At_lock)" and "holder c = None"
  shows "(section_step acc first)\<^sup>*\<^sup>* c
    (c\<lparr>shared := snd (operate (shared c) r),
       threads := (threads c)[i := (r, Past (fst (operate (shared c) r)))], passed := passed c @ [i]\<rparr>)"
proof -
  let ?d = "c\<lparr>holder := Some i, threads := (threads c)[i := (r, In_section (first r))]\<rparr>"
  have "section_step acc first c ?d" by (rule takes_lock [OF assms])
  moreover have "(section_step acc first)\<^sup>*\<^sup>* ?d
    (?d\<lparr>shared := snd (operate (shared c) r), holder := None,
        threads := (threads ?d)[i := (r, Past (fst (operate (shared c) r)))], passed := passed ?d @ [i]\<rparr>)"
    by (rule run_inside [OF implements]) (use assms(1) in simp_all)
  ultimately show ?thesis using assms(3) by (cases c) (simp add: converse_rtranclp_into_rtranclp)
qed

text \<open>Whose requests have passed; in the end everybody's, each once.\<close>

lemma requests_from:
  assumes "(section_step acc first)\<^sup>*\<^sup>* (section_start s0 rs) c"
  shows "requests c = map ((!) rs) (passed c) \<and> set (requests c) \<subseteq> set rs"
proof -
  have inv: "shape_inv rs c" using section_inv_run [OF assms] ..
  have "fst (threads c ! i) = rs ! i \<and> i < length rs" if "i \<in> set (passed c)" for i
  proof -
    have "map fst (threads c) = rs" "i < length rs" using inv that unfolding shape_inv_def by blast+
    then show ?thesis by (metis length_map nth_map)
  qed
  then have "requests c = map ((!) rs) (passed c) \<and> (\<forall>i \<in> set (passed c). i < length rs)"
    by (simp add: requests_def)
  then show ?thesis by auto
qed

lemma requests_in_the_end:
  assumes "(section_step acc first)\<^sup>*\<^sup>* (section_start s0 rs) c"
    and "\<forall>t \<in> set (threads c). \<exists>r a. t = (r, Past a)"
  shows "mset (requests c) = mset rs"
proof -
  from all_passed [OF assms] have p: "distinct (passed c)" "set (passed c) = {..<length rs}" by simp_all
  then have "mset (passed c) = mset [0..<length rs]"
    using mset_set_set [OF p(1)] by (simp add: lessThan_atLeast0)
  then have "mset (map ((!) rs) (passed c)) = mset (map ((!) rs) [0..<length rs])"
    by (metis mset_map)
  then show ?thesis using requests_from [OF assms(1)] by (simp add: map_nth)
qed

fun steps_left :: "'r \<times> ('l, 'a) section_phase \<Rightarrow> nat" where
  "steps_left (r, At_lock) = left (first r) + 3"
| "steps_left (r, In_section l) = left l + 2"
| "steps_left (r, At_unlock a) = 1"
| "steps_left (r, Past a) = 0"

lemma steps_left_step:
  assumes "section_step acc first c c'"
  shows "total_of steps_left (threads c') < total_of steps_left (threads c)"
proof -
  have less: "total_of steps_left ((threads c)[i := x]) < total_of steps_left (threads c)"
    if "i < length (threads c)" "threads c ! i = y" "steps_left x < steps_left y" for i x y
    using total_of_update [OF that(1), of steps_left x] that(2,3) by simp
  from assms show ?thesis
    by (rule section_step_cases) (auto intro!: less dest: fewer)
qed

lemma steps_bounded:
  "((section_step acc first) ^^ j) c c' \<Longrightarrow>
     j + total_of steps_left (threads c') \<le> total_of steps_left (threads c)"
proof (induction j arbitrary: c')
  case 0
  then show ?case by simp
next
  case (Suc j)
  then obtain d where "((section_step acc first) ^^ j) c d" "section_step acc first d c'" by auto
  with Suc.IH [of d] steps_left_step [of d c'] show ?case by simp
qed

lemma goes_on:
  assumes "(section_step acc first)\<^sup>*\<^sup>* (section_start s0 rs) c"
    and "i < length (threads c)" and "\<And>a. snd (threads c ! i) \<noteq> Past a"
  shows "\<exists>c'. section_step acc first c c'"
proof -
  have inv: "shape_inv rs c" using section_inv_run [OF assms(1)] ..
  have len: "length (threads c) = length rs"
    using inv unfolding shape_inv_def by (metis length_map)
  have inside: "\<exists>c'. section_step acc first c c'"
    if "k < length (threads c)" "threads c ! k = (r, p)" "in_section p" for k r p
  proof (cases p)
    case (In_section l)
    obtain s' x where "acc (shared c) l = (s', x)" by fastforce
    with that In_section show ?thesis by (cases x) (auto intro: accesses last_access)
  qed (use that in \<open>auto intro: gives_back\<close>)
  show ?thesis
  proof (cases "holder c")
    case None
    obtain r p where p: "threads c ! i = (r, p)" by fastforce
    then show ?thesis
      using None assms(2,3) inside [OF assms(2) p] by (cases p) (auto intro: takes_lock)
  next
    case (Some k)
    obtain r p where p: "threads c ! k = (r, p)" by fastforce
    have "k < length (threads c)" using Some inv len by (simp add: shape_inv_def)
    then show ?thesis using inside [OF _ p] shapeD(3) [OF inv _ p] Some by simp
  qed
qed

end

section \<open>Straight-line code under the lock\<close>

text \<open>
  The operations the library and the kernel module perform under a lock are short sequences of
  loads and stores of the shared variables. A place in such a sequence is a register, the values
  read out so far and the accesses left; the result is what was read out. \<open>Stop_if\<close> is an early
  way to the unlock.
\<close>

datatype ('f, 'v) var_access = Load_var 'f | Compute "'v \<Rightarrow> 'v" | Store_var 'f | Read_out | Stop_if "'v \<Rightarrow> bool"

type_synonym ('f, 'v) place = "'v \<times> 'v list \<times> ('f, 'v) var_access list"

fun perform :: "('f \<Rightarrow> 's \<Rightarrow> 'v) \<Rightarrow> ('f \<Rightarrow> 'v \<Rightarrow> 's \<Rightarrow> 's) \<Rightarrow> 's \<Rightarrow> ('f, 'v) place \<Rightarrow>
    's \<times> (('f, 'v) place + 'v list)" where
  "perform rd wr s (v, out, []) = (s, Inr out)"
| "perform rd wr s (v, out, Load_var f # code) = (s, Inl (rd f s, out, code))"
| "perform rd wr s (v, out, Compute g # code) = (s, Inl (g v, out, code))"
| "perform rd wr s (v, out, Store_var f # code) = (wr f v s, Inl (v, out, code))"
| "perform rd wr s (v, out, Read_out # code) = (s, Inl (v, out @ [v], code))"
| "perform rd wr s (v, out, Stop_if b # code) = (s, if b v then Inr out else Inl (v, out, code))"

text \<open>The whole sequence in one go.\<close>

fun run_code :: "('f \<Rightarrow> 's \<Rightarrow> 'v) \<Rightarrow> ('f \<Rightarrow> 'v \<Rightarrow> 's \<Rightarrow> 's) \<Rightarrow> 's \<Rightarrow> ('f, 'v) place \<Rightarrow> 'v list \<times> 's" where
  "run_code rd wr s (v, out, []) = (out, s)"
| "run_code rd wr s (v, out, Load_var f # code) = run_code rd wr s (rd f s, out, code)"
| "run_code rd wr s (v, out, Compute g # code) = run_code rd wr s (g v, out, code)"
| "run_code rd wr s (v, out, Store_var f # code) = run_code rd wr (wr f v s) (v, out, code)"
| "run_code rd wr s (v, out, Read_out # code) = run_code rd wr s (v, out @ [v], code)"
| "run_code rd wr s (v, out, Stop_if b # code) =
     (if b v then (out, s) else run_code rd wr s (v, out, code))"

definition places_left :: "('f, 'v) place \<Rightarrow> nat" where
  "places_left l = length (snd (snd l))"

lemma perform_yields: "yields (perform rd wr) s l (run_code rd wr s l)"
  by (induction rd wr s l rule: run_code.induct) (auto intro: yields.intros)

lemma perform_fewer: "perform rd wr s l = (s', Inl l') \<Longrightarrow> places_left l' < places_left l"
  by (cases "(rd, wr, s, l)" rule: perform.cases) (auto simp: places_left_def split: if_splits)

text \<open>Every family of such sequences is a critical section.\<close>

locale straight_line =
  fixes rd :: "'f \<Rightarrow> 's \<Rightarrow> 'v" and wr :: "'f \<Rightarrow> 'v \<Rightarrow> 's \<Rightarrow> 's" and idle :: 'v
    and code :: "'r \<Rightarrow> ('f, 'v) var_access list" and operate :: "'s \<Rightarrow> 'r \<Rightarrow> 'v list \<times> 's"
  assumes code_operates: "run_code rd wr s (idle, [], code r) = operate s r"

sublocale straight_line \<subseteq> critical_section "perform rd wr" "\<lambda>r. (idle, [], code r)" operate places_left
proof unfold_locales
  fix s r
  show "yields (perform rd wr) s (idle, [], code r) (operate s r)"
    using perform_yields [of rd wr s "(idle, [], code r)"] by (simp add: code_operates)
next
  fix s l s' l'
  assume "perform rd wr s l = (s', Inl l')"
  then show "places_left l' < places_left l" by (rule perform_fewer)
qed

end
