(* ===== verification/State_Threads.thy ===== *)
theory State_Threads
  imports Kernel_Core Critical_Section
begin

section \<open>Processors that share the global state: kernel/main.c\<close>

text \<open>
  The level, the time, the counters and the enabled flag of \<open>uroam_global_state\<close> are written only
  under \<open>uroam_state_lock\<close>: by notifications (which also read the count for their message there),
  by recorded allocations and reclaims, by the sysfs attribute and by the module's end. The status
  file is printed and the statistics message is filled under the same lock. Here the loads and stores of these operations are
  interleaved, as they are when several processors perform them at once.

  Two things reach across the lock. The statistics message also takes \<open>tracked_count\<close>, which is
  written under the lock of the process tree: what that load finds is an argument of the request,
  any number. And a notification sends its message before it gives the lock back; where netlink
  delivers that message to the module itself, the notification never gets there
  (\<open>notification_waits_for_itself\<close>). The runs here are those in which it does.
\<close>

datatype state_var = V_enabled | V_level | V_time | V_pressures | V_allocs | V_reclaims

datatype state_value = Flag bool | Level psi_pressure | Number u64

fun read_state :: "state_var \<Rightarrow> uroam_state \<Rightarrow> state_value" where
  "read_state V_enabled s = Flag (enabled s)"
| "read_state V_level s = Level (pressure_level s)"
| "read_state V_time s = Number (last_pressure_time s)"
| "read_state V_pressures s = Number (pressure_count s)"
| "read_state V_allocs s = Number (allocation_count s)"
| "read_state V_reclaims s = Number (reclaim_count s)"

fun write_state :: "state_var \<Rightarrow> state_value \<Rightarrow> uroam_state \<Rightarrow> uroam_state" where
  "write_state V_enabled (Flag b) s = s\<lparr>enabled := b\<rparr>"
| "write_state V_level (Level l) s = s\<lparr>pressure_level := l\<rparr>"
| "write_state V_time (Number n) s = s\<lparr>last_pressure_time := n\<rparr>"
| "write_state V_pressures (Number n) s = s\<lparr>pressure_count := n\<rparr>"
| "write_state V_allocs (Number n) s = s\<lparr>allocation_count := n\<rparr>"
| "write_state V_reclaims (Number n) s = s\<lparr>reclaim_count := n\<rparr>"
| "write_state _ _ s = s"

fun one_more :: "state_value \<Rightarrow> state_value" where
  "one_more (Number n) = Number (n + 1)"
| "one_more v = v"

subsection \<open>The accesses under the lock\<close>

text \<open>A notification with the time it reads, a recorded allocation and reclaim, a new value of the
  enabled flag, a print of the status file, a statistics message with the number of tracked
  processes it finds.\<close>

datatype state_request = Notice psi_pressure u64 | Note_alloc | Note_reclaim | Switch bool | Print_status | Fill_stats u32

text \<open>What is read out: the count for the message of a notification, the values the status file
  prints, those the statistics message is filled with.\<close>

definition notify_code :: "psi_pressure \<Rightarrow> u64 \<Rightarrow> (state_var, state_value) var_access list" where
  "notify_code l now =
     [Compute (\<lambda>_. Level l), Store_var V_level,
      Load_var V_pressures, Compute one_more, Store_var V_pressures,
      Compute (\<lambda>_. Number now), Store_var V_time, Load_var V_pressures, Read_out]"

definition record_allocation_code :: "(state_var, state_value) var_access list" where
  "record_allocation_code =
     [Load_var V_allocs, Compute one_more, Store_var V_allocs]"

definition record_reclaim_code :: "(state_var, state_value) var_access list" where
  "record_reclaim_code =
     [Load_var V_reclaims, Compute one_more, Store_var V_reclaims]"

definition enabled_store_code :: "bool \<Rightarrow> (state_var, state_value) var_access list" where
  "enabled_store_code b =
     [Compute (\<lambda>_. Flag b), Store_var V_enabled]"

definition status_show_code :: "(state_var, state_value) var_access list" where
  "status_show_code =
     [Load_var V_enabled, Read_out, Load_var V_level, Read_out, Load_var V_pressures, Read_out,
      Load_var V_allocs, Read_out, Load_var V_reclaims, Read_out]"

definition send_stats_code :: "u32 \<Rightarrow> (state_var, state_value) var_access list" where
  "send_stats_code tracked =
     [Load_var V_allocs, Read_out, Load_var V_reclaims, Read_out,
      Load_var V_pressures, Read_out, Load_var V_level, Read_out,
      Compute (\<lambda>_. Number (ucast tracked)), Read_out]"

fun state_code :: "state_request \<Rightarrow> (state_var, state_value) var_access list" where
  "state_code (Notice l now) = notify_code l now"
| "state_code Note_alloc = record_allocation_code"
| "state_code Note_reclaim = record_reclaim_code"
| "state_code (Switch b) = enabled_store_code b"
| "state_code Print_status = status_show_code"
| "state_code (Fill_stats tracked) = send_stats_code tracked"

lemmas state_code_defs = notify_code_def record_allocation_code_def record_reclaim_code_def enabled_store_code_def status_show_code_def send_stats_code_def

text \<open>The same in one step.\<close>

fun state_operation :: "uroam_state \<Rightarrow> state_request \<Rightarrow> state_value list \<times> uroam_state" where
  "state_operation s (Notice l now) =
     ([Number (pressure_count s + 1)],
      s\<lparr>pressure_level := l, pressure_count := pressure_count s + 1, last_pressure_time := now\<rparr>)"
| "state_operation s Note_alloc = ([], s\<lparr>allocation_count := allocation_count s + 1\<rparr>)"
| "state_operation s Note_reclaim = ([], s\<lparr>reclaim_count := reclaim_count s + 1\<rparr>)"
| "state_operation s (Switch b) = ([], s\<lparr>enabled := b\<rparr>)"
| "state_operation s Print_status =
     ([Flag (enabled s), Level (pressure_level s), Number (pressure_count s),
       Number (allocation_count s), Number (reclaim_count s)], s)"
| "state_operation s (Fill_stats tracked) =
     ([Number (allocation_count s), Number (reclaim_count s), Number (pressure_count s),
       Level (pressure_level s), Number (ucast tracked)], s)"

text \<open>The lines \<open>uroam_proc_status_show\<close> makes of the values.\<close>

fun status_text :: "state_value list \<Rightarrow> string" where
  "status_text [Flag e, Level l, Number p, Number a, Number r] =
     ''Module Status: '' @ (if e then ''Enabled'' else ''Disabled'') @ newline @
     ''Pressure Level: '' @ uroam_get_pressure_level_str l @ newline @
     ''Pressure Count: '' @ dec_u64 p @ newline @
     ''Allocation Count: '' @ dec_u64 a @ newline @
     ''Reclaim Count: '' @ dec_u64 r @ newline"
| "status_text _ = []"

text \<open>The step is what \<open>Kernel_Core\<close> and \<open>Kernel_Ipc\<close> have for the whole operations.\<close>

lemma status_is_show: "status_text (fst (state_operation s Print_status)) = fst (uroam_proc_status_show s)"
  by (simp add: uroam_proc_status_show_def Let_def)

definition state_of :: "'a uroam_state_scheme \<Rightarrow> uroam_state" where
  "state_of s = uroam_state.truncate s"

lemma operations_are_state_operations:
  "\<exists>now log. state_of (uroam_notify_pressure K l s) =
     (snd (state_operation (state_of s) (Notice l now)))\<lparr>klog := log\<rparr>"
  "\<exists>log. state_of (uroam_record_allocation n g i s) = (snd (state_operation (state_of s) Note_alloc))\<lparr>klog := log\<rparr>"
  "\<exists>log. state_of (uroam_record_reclaim n s) = (snd (state_operation (state_of s) Note_reclaim))\<lparr>klog := log\<rparr>"
  by (cases s, fastforce simp: state_of_def uroam_state.truncate_def notify_pressure_eq
        record_allocation_eq record_reclaim_eq)+

lemma message_count_is_read_out:
  "fst (state_operation (state_of s) (Notice l now)) = [Number (mp_count (pressure_msg K l (notified K l s)))]"
  by (cases s) (simp add: state_of_def uroam_state.truncate_def pressure_msg_def notified_def)

text \<open>The statistics message of the values.\<close>

fun stats_of :: "kenv \<Rightarrow> state_value list \<Rightarrow> uroam_nl_msg_stats option" where
  "stats_of K [Number a, Number r, Number p, Level l, Number t] =
     Some \<lparr>ms_allocation_count = a, ms_reclaim_count = r, ms_pressure_count = p,
        ms_pressure_level = psi_value K l, ms_tracked_processes = ucast t\<rparr>"
| "stats_of K _ = None"

lemma u32_in_u64 [simp]: "ucast (ucast w :: u64) = (w :: u32)"
  by (rule bit_word_eqI) (simp add: bit_unsigned_iff)

lemma message_is_stats:
  "stats_of K (fst (state_operation (state_of s) (Fill_stats (tracked_count s)))) = Some (stats_msg K s)"
  by (cases s) (simp add: state_of_def uroam_state.truncate_def stats_msg_def)

interpretation state_threads: straight_line read_state write_state "Flag False" state_code state_operation
proof unfold_locales
  fix s r
  show "run_code read_state write_state s (Flag False, [], state_code r) = state_operation s r"
    by (cases r; cases s) (simp_all add: state_code_defs)
qed

abbreviation state_step where
  "state_step \<equiv> section_step (perform read_state write_state) (\<lambda>r. (Flag False, [], state_code r))"

subsection \<open>Runs of the operations\<close>

fun notice_level :: "psi_pressure \<Rightarrow> state_request list \<Rightarrow> psi_pressure" where
  "notice_level l [] = l"
| "notice_level l (Notice m now # rs) = notice_level m rs"
| "notice_level l (r # rs) = notice_level l rs"

fun is_notice :: "state_request \<Rightarrow> bool" where
  "is_notice (Notice l now) = True"
| "is_notice _ = False"

definition how_many :: "('r \<Rightarrow> bool) \<Rightarrow> 'r list \<Rightarrow> u64" where
  "how_many f rs = of_nat (length (filter f rs))"

lemma how_many_simps [simp]:
  "how_many f [] = 0" "how_many f (r # rs) = of_bool (f r) + how_many f rs"
  by (simp_all add: how_many_def)

lemma state_run:
  "run_ops state_operation s rs = (as, t) \<Longrightarrow>
   pressure_level t = notice_level (pressure_level s) rs \<and>
   pressure_count t = pressure_count s + how_many is_notice rs \<and>
   allocation_count t = allocation_count s + how_many (\<lambda>r. r = Note_alloc) rs \<and>
   reclaim_count t = reclaim_count s + how_many (\<lambda>r. r = Note_reclaim) rs"
proof (induction rs arbitrary: s as)
  case Nil
  then show ?case by simp
next
  case (Cons r rs)
  have "run_ops state_operation (snd (state_operation s r)) rs = (tl as, t)"
    using Cons.prems by (auto simp: case_prod_beta Let_def)
  from Cons.IH [OF this] show ?case by (cases r) (simp_all add: ac_simps)
qed

lemma run_ops_nth:
  "k < length rs \<Longrightarrow>
   fst (run_ops f s rs) ! k = fst (f (snd (run_ops f s (take k rs))) (rs ! k))"
proof (induction rs arbitrary: s k)
  case Nil
  then show ?case by simp
next
  case (Cons r rs)
  then show ?case by (cases k) (simp_all add: case_prod_beta Let_def)
qed

text \<open>The state when the operation with number \<open>k\<close> passed the lock.\<close>

abbreviation state_before :: "uroam_state \<Rightarrow> state_request list \<Rightarrow> nat \<Rightarrow> uroam_state" where
  "state_before s rs k \<equiv> snd (run_ops state_operation s (take k rs))"

subsection \<open>Properties\<close>

text \<open>C14: Any number of processors that notify, record, switch the module on and off, print the status
  file and fill statistics messages at once. What a print says, and the two counters, the count of
  notifications and the level of a statistics message, are of one moment, the one between the
  operations that passed the lock before it and those after it; level and counters are the last
  notified level and the numbers of notifications, allocations and reclaims among the former. The
  number of tracked processes in a statistics message is whatever its load found, of another
  moment: it is not under this lock. The count a notification reads for its message is the number
  of notifications up to and including itself, so the counts read follow the order of the lock
  without gap or repetition (a message that cannot be built leaves its own out).\<close>

theorem state_shared_by_processors:
  assumes "state_step\<^sup>*\<^sup>* (section_start s0 rs) c" and "k < length (passed c)"
  defines "before \<equiv> take k (requests c)"
  shows "(requests c ! k = Print_status \<longrightarrow>
      (let s = state_before s0 (requests c) k
       in status_text (results c ! k) = fst (uroam_proc_status_show s) \<and>
          pressure_level s = notice_level (pressure_level s0) before \<and>
          pressure_count s = pressure_count s0 + how_many is_notice before \<and>
          allocation_count s = allocation_count s0 + how_many (\<lambda>r. r = Note_alloc) before \<and>
          reclaim_count s = reclaim_count s0 + how_many (\<lambda>r. r = Note_reclaim) before)) \<and>
    (requests c ! k = Notice l now \<longrightarrow>
       results c ! k = [Number (pressure_count s0 + how_many is_notice before + 1)]) \<and>
    (requests c ! k = Fill_stats tracked \<longrightarrow>
       results c ! k = [Number (allocation_count s0 + how_many (\<lambda>r. r = Note_alloc) before),
         Number (reclaim_count s0 + how_many (\<lambda>r. r = Note_reclaim) before),
         Number (pressure_count s0 + how_many is_notice before),
         Level (notice_level (pressure_level s0) before), Number (ucast tracked)]) \<and>
    (holder c = None \<longrightarrow> shared c = snd (run_ops state_operation s0 (requests c)))"
proof -
  let ?s = "state_before s0 (requests c) k"
  note one = state_threads.one_after_another [OF assms(1)]
  have "k < length (requests c)" using assms(2) by (simp add: requests_def)
  from run_ops_nth [OF this] have res: "results c ! k = fst (state_operation ?s (requests c ! k))"
    using one by metis
  have run: "pressure_level ?s = notice_level (pressure_level s0) before \<and>
      pressure_count ?s = pressure_count s0 + how_many is_notice before \<and>
      allocation_count ?s = allocation_count s0 + how_many (\<lambda>r. r = Note_alloc) before \<and>
      reclaim_count ?s = reclaim_count s0 + how_many (\<lambda>r. r = Note_reclaim) before"
    by (rule state_run [of _ _ "fst (run_ops state_operation s0 before)"]) (simp add: before_def)
  show ?thesis
    using res run one status_is_show [of ?s] by (simp add: Let_def)
qed

theorem state_shared_by_processors_witness:
  "\<exists>c. state_step\<^sup>*\<^sup>* (section_start uroam_global_state [Print_status, Notice PSI_MEMORY_FULL 7]) c \<and>
     passed c = [1, 0] \<and> results c ! 0 = [Number 1] \<and>
     status_text (results c ! 1) =
       fst (uroam_proc_status_show (snd (state_operation uroam_global_state (Notice PSI_MEMORY_FULL 7))))"
proof -
  let ?c = "section_start uroam_global_state [Print_status, Notice PSI_MEMORY_FULL 7]"
  obtain d where d: "state_step\<^sup>*\<^sup>* ?c d" "passed d = [1]" "holder d = None"
    "threads d = [(Print_status, At_lock), (Notice PSI_MEMORY_FULL 7, Past [Number 1])]"
    using state_threads.run_alone [of 1 ?c "Notice PSI_MEMORY_FULL 7"]
    by (fastforce simp: section_start_def uroam_global_state_def)
  then obtain c where c: "state_step\<^sup>*\<^sup>* d c" "passed c = [1, 0]"
    "map fst (threads c) = [Print_status, Notice PSI_MEMORY_FULL 7]"
    using state_threads.run_alone [of 0 d Print_status] by fastforce
  have run: "state_step\<^sup>*\<^sup>* ?c c" using d(1) c(1) by (rule rtranclp_trans)
  have reqs: "requests c = [Notice PSI_MEMORY_FULL 7, Print_status]"
    using c(2,3) by (cases "threads c" rule: list.exhaust; cases "tl (threads c)") (auto simp: requests_def)
  from state_shared_by_processors [OF run, of 0 PSI_MEMORY_FULL 7]
    state_shared_by_processors [OF run, of 1]
  show ?thesis
    using run c(2) reqs by (auto simp: Let_def uroam_global_state_def)
qed

subsection \<open>A reader without the lock\<close>

text \<open>
  The answer to a pressure query takes the level (in \<open>uroam_netlink_rcv\<close>) and the count (in
  \<open>uroam_netlink_send_pressure\<close>) one after the other, and without the lock. Its loads fall between
  the accesses of the others.
\<close>

definition query_code :: "(state_var, state_value) var_access list" where
  "query_code = [Load_var V_level, Read_out, Load_var V_pressures, Read_out]"

type_synonym state_config =
  "(uroam_state, state_request, (state_var, state_value) place, state_value list) section_config"

inductive with_reader :: "state_config \<times> (state_var, state_value) place \<Rightarrow>
    state_config \<times> (state_var, state_value) place \<Rightarrow> bool" where
  others: "state_step c c' \<Longrightarrow> with_reader (c, l) (c', l)"
| reader: "perform read_state write_state (shared c) l = (shared c, Inl l') \<Longrightarrow> with_reader (c, l) (c, l')"

lemma others_run: "state_step\<^sup>*\<^sup>* c c' \<Longrightarrow> with_reader\<^sup>*\<^sup>* (c, l) (c', l)"
proof (induction rule: rtranclp_induct)
  case base
  show ?case by simp
next
  case (step d e)
  from step.IH others [OF step.hyps(2)] show ?case by (rule rtranclp.rtrancl_into_rtrancl)
qed

lemma reader_loads:
  "with_reader\<^sup>*\<^sup>* (c, (v, out, Load_var f # Read_out # code))
     (c, (read_state f (shared c), out @ [read_state f (shared c)], code))"
proof -
  have "with_reader (c, (v, out, Load_var f # Read_out # code)) (c, (read_state f (shared c), out, Read_out # code))"
    "with_reader (c, (read_state f (shared c), out, Read_out # code))
       (c, (read_state f (shared c), out @ [read_state f (shared c)], code))"
    by (rule reader, simp)+
  then show ?thesis by (rule converse_rtranclp_into_rtranclp [OF _ r_into_rtranclp])
qed

text \<open>So the answer can hold a level and a count that never were the state's at one moment: here the
  count of a notification with the level from before it.\<close>

theorem pressure_answer_mixes_moments:
  "\<exists>c v. with_reader\<^sup>*\<^sup>* (section_start uroam_global_state [Notice PSI_MEMORY_FULL 7],
        (Flag False, [], query_code)) (c, (v, [Level PSI_MEMORY_SOME, Number 1], [])) \<and>
    requests c = [Notice PSI_MEMORY_FULL 7] \<and>
    (\<forall>k\<le>1. let s = state_before uroam_global_state (requests c) k
       in [Level (pressure_level s), Number (pressure_count s)] \<noteq> [Level PSI_MEMORY_SOME, Number 1])"
proof -
  let ?c = "section_start uroam_global_state [Notice PSI_MEMORY_FULL 7] :: state_config"
  let ?l = "(Level PSI_MEMORY_SOME, [Level PSI_MEMORY_SOME], [Load_var V_pressures, Read_out])"
  have start: "with_reader\<^sup>*\<^sup>* (?c, (Flag False, [], query_code)) (?c, ?l)"
    using reader_loads [of ?c "Flag False" "[]" V_level "[Load_var V_pressures, Read_out]"]
    by (simp add: query_code_def section_start_def uroam_global_state_def)
  obtain c where c: "state_step\<^sup>*\<^sup>* ?c c" "requests c = [Notice PSI_MEMORY_FULL 7]"
    "shared c = snd (state_operation uroam_global_state (Notice PSI_MEMORY_FULL 7))"
    using state_threads.run_alone [of 0 ?c "Notice PSI_MEMORY_FULL 7"]
    by (fastforce simp: section_start_def requests_def)
  have "with_reader\<^sup>*\<^sup>* (?c, ?l) (c, ?l)" by (rule others_run [OF c(1)])
  moreover have "with_reader\<^sup>*\<^sup>* (c, ?l) (c, (Number 1, [Level PSI_MEMORY_SOME, Number 1], []))"
    using reader_loads [of c "Level PSI_MEMORY_SOME" "[Level PSI_MEMORY_SOME]" V_pressures "[]"]
    by (simp add: c(3) uroam_global_state_def)
  ultimately have "with_reader\<^sup>*\<^sup>* (?c, (Flag False, [], query_code))
      (c, (Number 1, [Level PSI_MEMORY_SOME, Number 1], []))"
    using start by (meson rtranclp_trans)
  moreover have "[Level (pressure_level s), Number (pressure_count s)] \<noteq> [Level PSI_MEMORY_SOME, Number 1]"
    if "k \<le> 1" and "s = state_before uroam_global_state (requests c) k" for k s
    using that by (cases k) (auto simp: c(2) uroam_global_state_def)
  ultimately show ?thesis using c(2) unfolding Let_def by blast
qed

end
