(* ===== verification/Module_Life.thy ===== *)
theory Module_Life
  imports Kernel_Main
begin

section \<open>The life of the module: load, events, unload\<close>

text \<open>
  What can happen to the loaded module between \<open>uroam_init\<close> and \<open>uroam_exit\<close>: the events other
  parts of the kernel, its own threads and its users send to the components, in any order, each
  one call of a function of the module, or a write to one of the four parameters of mode 0644.
  (Tracing of the hooks is switched only by the start and the stop of the hooks; no event does.)
  \<open>calm\<close> relates two states between which locks were taken in
  the order of their ranks and released, everything obtained was given back and no component was
  started or stopped; every event is calm but for the parameters it may write. What is said of
  locks is of the calls an event makes itself; a message that netlink delivers to the module
  itself takes further locks (\<open>whole\<close> in \<open>Kernel_State\<close>). Message buffers, references to pids and policies of tasks are not in the
  account: \<open>Kernel_Ipc\<close> and \<open>Kernel_Numa\<close> say which of those the code leaves behind.
\<close>

datatype module_event =
    Me_core core_event
  | Me_check
  | Me_psi_update bool
  | Me_psi_monitor
  | Me_receive "(u16 \<times> u32) option"
  | Me_hooked hooked_call
  | Me_probe u64 kprobe_id
  | Me_mmap_entry u64
  | Me_brk_entry hook_ctx u64
  | Me_scan
  | Me_process task_struct
  | Me_get_process int
  | Me_numa_update
  | Me_best_node int u64
  | Me_migrate int int int
  | Me_set_policy int mpol_mode "int list option" int
  | Me_balancer bool
  | Me_balance_work
  | Me_store_enabled "string \<Rightarrow> int + int" string int
  | Me_show_status
  | Me_set_pressure_monitor bool
  | Me_set_allocation_hooks bool
  | Me_set_numa_aware bool
  | Me_set_use_ftrace bool

text \<open>\<open>None\<close> when the event's function does not return.\<close>

fun module_step ::
  "kenv \<Rightarrow> 'a main_state_scheme \<Rightarrow> module_event \<Rightarrow> 'a main_state_scheme option" where
  "module_step K s (Me_core e) = Some (core_step K s e)"
| "module_step K s Me_check = Some (uroam_pressure_check K s)"
| "module_step K s (Me_psi_update st) = Some (uroam_psi_update K st s)"
| "module_step K s Me_psi_monitor = Some (uroam_psi_monitor K s)"
| "module_step K s (Me_receive skb) = Some (uroam_netlink_rcv K skb s)"
| "module_step K s (Me_hooked c) = Some (hooked_step K s c)"
| "module_step K s (Me_probe hooked p) = Some (uroam_kprobe_handler hooked p s)"
| "module_step K s (Me_mmap_entry len) = Some (uroam_ftrace_hook_mmap_entry len s)"
| "module_step K s (Me_brk_entry c brk) = Some (uroam_ftrace_hook_brk_entry c brk s)"
| "module_step K s Me_scan = uroam_tracking_scan K s"
| "module_step K s (Me_process task) = Some (uroam_tracking_update_process K task s)"
| "module_step K s (Me_get_process pid) = Some (snd (uroam_tracking_get_process pid s))"
| "module_step K s Me_numa_update = Some (uroam_numa_update K s)"
| "module_step K s (Me_best_node pid sz) = Some (snd (uroam_numa_get_best_node K pid sz s))"
| "module_step K s (Me_migrate pid from_node to_node) =
     Some (uroam_numa_migrate_pages K pid from_node to_node s)"
| "module_step K s (Me_set_policy pid policy nodes n) =
     Some (snd (uroam_numa_set_policy K pid policy nodes n s))"
| "module_step K s (Me_balancer b) = Some (uroam_numa_enable_balancer b s)"
| "module_step K s Me_balance_work = Some (uroam_numa_balance_work s)"
| "module_step K s (Me_store_enabled kstrtoint buf n) = Some (snd (uroam_enabled_store kstrtoint buf n s))"
| "module_step K s Me_show_status = Some (snd (uroam_proc_status_show s))"
| "module_step K s (Me_set_pressure_monitor b) = Some (s\<lparr>enable_pressure_monitor := b\<rparr>)"
| "module_step K s (Me_set_allocation_hooks b) = Some (s\<lparr>enable_allocation_hooks := b\<rparr>)"
| "module_step K s (Me_set_numa_aware b) = Some (s\<lparr>enable_numa_aware := b\<rparr>)"
| "module_step K s (Me_set_use_ftrace b) = Some (s\<lparr>use_ftrace := b\<rparr>)"

fun module_run ::
  "kenv \<Rightarrow> 'a main_state_scheme \<Rightarrow> module_event list \<Rightarrow> 'a main_state_scheme option" where
  "module_run K s [] = Some s"
| "module_run K s (e # es) =
     (case module_step K s e of None \<Rightarrow> None | Some t \<Rightarrow> module_run K t es)"

text \<open>The parameters the load and the unload go by, after an event.\<close>

fun param_write :: "module_event \<Rightarrow> bool \<times> bool \<times> bool \<Rightarrow> bool \<times> bool \<times> bool" where
  "param_write (Me_set_pressure_monitor b) (p, h, n) = (b, h, n)"
| "param_write (Me_set_allocation_hooks b) (p, h, n) = (p, b, n)"
| "param_write (Me_set_numa_aware b) (p, h, n) = (p, h, b)"
| "param_write _ ps = ps"

subsection \<open>Calm changes\<close>

text \<open>What has an account of its own.\<close>

definition apart :: "resource set" where
  "apart = {R_skb, R_pid, R_mempolicy}"

definition calm :: "'a main_state_scheme \<Rightarrow> 'a main_state_scheme \<Rightarrow> bool" where
  "calm s t \<longleftrightarrow> flags_of t = flags_of s \<and>
     (\<exists>cs. klog t = klog s @ cs \<and> rank_run [] cs = Some [] \<and> (\<forall>r. r \<notin> apart \<longrightarrow> held r cs = 0))"

lemma calmI:
  "flags_of t = flags_of s \<Longrightarrow> klog t = klog s @ cs \<Longrightarrow> rank_run [] cs = Some [] \<Longrightarrow>
    (\<And>r. r \<notin> apart \<Longrightarrow> held r cs = 0) \<Longrightarrow> calm s t"
  unfolding calm_def by blast

lemma calm_refl [simp]: "calm s s"
  by (rule calmI [of _ _ "[]"]) simp_all

lemma calm_trans:
  assumes "calm s t" and "calm t u"
  shows "calm s u"
proof -
  from assms obtain cs ds where "klog t = klog s @ cs" "klog u = klog t @ ds"
    "rank_run [] cs = Some []" "rank_run [] ds = Some []" "flags_of u = flags_of s"
    "\<forall>r. r \<notin> apart \<longrightarrow> held r cs = 0" "\<forall>r. r \<notin> apart \<longrightarrow> held r ds = 0"
    unfolding calm_def by auto
  then show ?thesis
    by (intro calmI [of _ _ "cs @ ds"]) (simp_all add: rank_run_append)
qed

lemma calm_kdo: "rank_run [] [c] = Some [] \<Longrightarrow> (\<And>r. r \<notin> apart \<Longrightarrow> res_delta r c = 0) \<Longrightarrow> calm s (kdo c s)"
  by (rule calmI [of _ _ "[c]"]) simp_all

text \<open>Calm, and the parameters are \<open>ps\<close> now.\<close>

definition calm_but :: "bool \<times> bool \<times> bool \<Rightarrow> 'a main_state_scheme \<Rightarrow> 'a main_state_scheme \<Rightarrow> bool" where
  "calm_but ps s t \<longleftrightarrow> flags_of t = (flags_of s)\<lparr>mf_params := ps\<rparr> \<and>
     (\<exists>cs. klog t = klog s @ cs \<and> rank_run [] cs = Some [] \<and> (\<forall>r. r \<notin> apart \<longrightarrow> held r cs = 0))"

lemma calm_but_self: "calm_but (mf_params (flags_of s)) s t \<longleftrightarrow> calm s t"
  by (simp add: calm_but_def calm_def)

lemma calm_but_write: "klog t = klog s \<Longrightarrow> flags_of t = (flags_of s)\<lparr>mf_params := ps\<rparr> \<Longrightarrow> calm_but ps s t"
  unfolding calm_but_def by (intro conjI exI [of _ "[]"]) simp_all

lemma calm_but_trans:
  assumes "calm_but ps s t" and "calm_but qs t u"
  shows "calm_but qs s u"
proof -
  from assms obtain cs ds where "klog t = klog s @ cs" "klog u = klog t @ ds"
    "rank_run [] cs = Some []" "rank_run [] ds = Some []" "flags_of u = (flags_of s)\<lparr>mf_params := qs\<rparr>"
    "\<forall>r. r \<notin> apart \<longrightarrow> held r cs = 0" "\<forall>r. r \<notin> apart \<longrightarrow> held r ds = 0"
    unfolding calm_but_def by auto
  then show ?thesis
    unfolding calm_but_def by (intro conjI exI [of _ "cs @ ds"]) (simp_all add: rank_run_append)
qed

text \<open>What a calm change means for the account and the locks: the unload goes by the parameters
  as they are then.\<close>

lemma calm_held: "calm_but ps s t \<Longrightarrow> r \<notin> apart \<Longrightarrow> held r (klog t) = held r (klog s)"
  by (auto simp: calm_but_def)

lemma calm_exit:
  assumes "calm_but (p, h, n) s t" and "r \<notin> apart" and "mf_hooks (flags_of s) = (b, b, m, k)"
  shows "held r (klog (uroam_exit t)) = held r (klog s) - nl_part r (mf_nl (flags_of s)) -
     kobj_part r (mf_kobj (flags_of s)) - proc_part r (mf_proc (flags_of s)) -
     (if p then pressure_part r (mf_pressure (flags_of s)) + double_release r (flags_of s) else 0) -
     (if h then hooks_part r (mf_hooks (flags_of s)) else 0) -
     (if n then numa_part r (mf_numa (flags_of s)) else 0) -
     tracking_part r (mf_tracking (flags_of s))"
proof -
  have f: "flags_of t = (flags_of s)\<lparr>mf_params := (p, h, n)\<rparr>" using assms(1) by (simp add: calm_but_def)
  then have "mf_hooks (flags_of t) = (b, b, m, k)" using assms(3) by simp
  from exit_account [OF this, of r] show ?thesis
    by (simp add: f flags_params calm_held [OF assms(1,2)] double_release_def assms(3))
qed

subsection \<open>Every event is calm\<close>

lemma calm_notify: "calm s (uroam_notify_pressure K level s)"
  by (rule calmI [of _ _ "notify_calls K level s"])
     (simp_all add: notify_pressure_eq flags_of_def rank_run_notify_calls held_notify_calls
        held_send_calls apart_def)

lemma calm_core: "calm s (core_step K s e)"
proof (cases e)
  case (Ev_pressure l)
  then show ?thesis by (simp add: calm_notify)
next
  case (Ev_alloc n g i)
  then show ?thesis
    by (intro calmI [of _ _ "[Lock State_lock, Unlock State_lock]"])
       (simp_all add: record_allocation_eq flags_of_def)
next
  case (Ev_reclaim n)
  then show ?thesis
    by (intro calmI [of _ _ "[Lock State_lock, Unlock State_lock]"])
       (simp_all add: record_reclaim_eq flags_of_def)
qed

lemma calm_service [simp]: "calm s (kdo (Service x) s)"
  by (rule calm_kdo) simp_all

lemma calm_psi: "calm s (uroam_psi_monitor K s)" "calm s (uroam_psi_update K st s)"
  "calm s (uroam_pressure_check K s)"
  by (auto simp: psi_monitor_eq uroam_psi_update_def pressure_check_eq
      intro: calm_trans [OF calm_trans [OF calm_service calm_notify] calm_service]
        calm_trans [OF calm_service calm_notify] calm_notify)

lemma calm_send: "calm s (snd (uroam_netlink_send K ty data len portid s))"
proof -
  obtain l n where "snd (uroam_netlink_send K ty data len portid s) = s\<lparr>klog := l, uroam_nl_seq := n\<rparr>"
    using send_frame by blast
  then have "flags_of (snd (uroam_netlink_send K ty data len portid s)) = flags_of s"
    by (simp add: flags_of_def)
  from calmI [OF this send_klog] show ?thesis
    by (simp add: rank_run_send_calls held_send_calls apart_def)
qed

lemma calm_rcv: "calm s (uroam_netlink_rcv K skb s)"
proof (cases skb)
  case None
  then show ?thesis by (simp add: uroam_netlink_rcv_def)
next
  case (Some msg)
  obtain ty pid where msg: "msg = (ty, pid)" by fastforce
  have locked: "calm s (kdo (Unlock State_lock) (kdo (Lock State_lock) s))"
    by (rule calmI [of _ _ "[Lock State_lock, Unlock State_lock]"]) simp_all
  have "calm s (if ty = UROAM_NL_MSG_PRESSURE then uroam_netlink_send_pressure K (pressure_level s) s
      else if ty = UROAM_NL_MSG_STATS then snd (uroam_netlink_send_stats K s) else s)"
    by (auto simp: netlink_send_pressure_eq netlink_send_stats_eq intro: calm_send
        calm_trans [OF locked calm_send])
  moreover have "calm t (kdo (Release R_skb) t)" for t :: "'a main_state_scheme"
    by (rule calm_kdo) (auto simp: apart_def)
  ultimately show ?thesis
    using Some msg by (auto simp: uroam_netlink_rcv_def Let_def intro: calm_trans)
qed

text \<open>A change of the hooks' counters and records only.\<close>

lemma calm_counters:
  "calm s (s\<lparr>total_mmap_bytes := a\<rparr>)" "calm s (s\<lparr>total_brk_bytes := a\<rparr>)"
  "calm s (uroam_record_alloc_event c ty sz gf node s)" "calm s (uroam_record_allocation sz gf node s)"
  "calm s (uroam_ftrace_hook_mmap_entry len s)" "calm s (uroam_ftrace_hook_brk_entry c brk s)"
proof -
  show "calm s (s\<lparr>total_mmap_bytes := a\<rparr>)" "calm s (s\<lparr>total_brk_bytes := a\<rparr>)"
    "calm s (uroam_record_alloc_event c ty sz gf node s)"
    by (rule calmI [of _ _ "[]"]; simp add: uroam_record_alloc_event_def flags_of_def)+
  show "calm s (uroam_record_allocation sz gf node s)"
    using calm_core [of s _ "Ev_alloc sz gf node"] by simp
  show "calm s (uroam_ftrace_hook_mmap_entry len s)" "calm s (uroam_ftrace_hook_brk_entry c brk s)"
    by (rule calmI [of _ _ "[]"]; simp add: uroam_ftrace_hook_mmap_entry_def
        uroam_ftrace_hook_brk_entry_def flags_of_def Let_def split: option.splits)+
qed

lemma calm_null_call [simp]: "calm s (kdo (Null_call f) s)"
  by (rule calm_kdo) simp_all

lemma calm_hooked: "calm s (hooked_step K s x)"
  by (cases x) (auto simp: uroam_hooked_mmap_def uroam_hooked_brk_def Let_def
      intro: calm_trans [OF calm_trans [OF calm_counters(1) calm_counters(4)] calm_counters(3)]
        calm_trans [OF calm_trans [OF calm_counters(2) calm_counters(4)] calm_counters(3)])

lemma calm_probe: "calm s (uroam_kprobe_handler hooked p s)"
  by (rule calmI [of _ _ "[]"])
     (simp_all add: uroam_kprobe_handler_def flags_of_def split: kprobe_id.split)

text \<open>Tracking writes fields no flag depends on.\<close>

lemma tracking_write_flags: "tracking_write s t \<Longrightarrow> flags_of t = flags_of s"
  by (auto simp: tracking_write_def flags_of_def)

lemma calm_process: "calm s (uroam_tracking_update_process K task s)"
proof -
  obtain cs where "klog (uroam_tracking_update_process K task s) = klog s @ cs"
    "rank_run [] cs = Some []"
    "\<forall>r. r \<noteq> R_skb \<longrightarrow> held r cs = 0"
    using update_calls [of K task s] by blast
  then show ?thesis
    using tracking_write_flags [OF tracking_write_update [of s K task]]
    by (intro calmI [of _ _ cs]) (auto simp: apart_def)
qed

lemma calm_scan:
  assumes "bounded_pids K m"
  shows "\<exists>t. uroam_tracking_scan K s = Some t \<and> calm s t"
proof -
  obtain t cs where t: "uroam_tracking_scan K s = Some t" "klog t = klog s @ cs"
    "rank_run [] cs = Some []"
    "\<forall>r. r \<noteq> R_skb \<longrightarrow> held r cs = 0"
    using scan_returns [OF assms, of s] by blast
  have "tracking_write s t"
    by (rule tracking_write_scan [OF t(1) [unfolded uroam_tracking_scan_def]])
  then have "calm s t"
    using t by (intro calmI [of _ _ cs]) (auto simp: apart_def tracking_write_flags)
  with t(1) show ?thesis by blast
qed

lemma calm_get_process: "calm s (snd (uroam_tracking_get_process pid s))"
  by (rule calmI [of _ _ "[Lock Tree_lock, Unlock Tree_lock]"])
     (simp_all add: uroam_tracking_get_process_def Let_def)

lemma calm_update_node_info: "calm s (uroam_numa_update_node_info K s)"
proof -
  obtain cs ns where "uroam_numa_update_node_info K s = s\<lparr>klog := klog s @ cs, numa_nodes := ns,
      numa_node_count := word_of_int (nr_numa_nodes s)\<rparr>" "\<forall>c \<in> set cs. is_oob c"
    using update_node_info_eq [of K s] by blast
  then show ?thesis
    by (intro calmI [of _ _ cs] numa_update_flags) (simp_all add: oob_calls_neutral)
qed

lemma calm_numa_update: "calm s (uroam_numa_update K s)"
  by (simp add: uroam_numa_update_def calm_update_node_info)

lemma calm_access_fold: "calm s (fold (access a n) xs s)"
proof (induction xs arbitrary: s)
  case Nil
  then show ?case by simp
next
  case (Cons x xs)
  have "calm s (access a n x s)"
    by (auto simp: access_def kdo_if_def intro: calm_kdo)
  from calm_trans [OF this Cons.IH] show ?case by simp
qed

text \<open>A lookup of a task: what is done with it stands between the reference and its return.\<close>

lemma calm_pid: "calm s (kdo (Acquire R_pid ok) s)"
  by (rule calm_kdo) (auto simp: apart_def)

lemma calm_no_task: "calm s (kdo (Acquire r False) s)"
  by (rule calm_kdo) simp_all

lemma calm_around:
  assumes "calm (kdo (Acquire r True) s) t" and "rank_run [] [Release r] = Some []"
  shows "calm s (kdo (Release r) t)"
proof -
  obtain cs where cs: "klog t = klog s @ Acquire r True # cs" "rank_run [] cs = Some []"
    "\<And>q. q \<notin> apart \<Longrightarrow> held q cs = 0" "flags_of t = flags_of s"
    using assms(1) by (auto simp: calm_def)
  then show ?thesis
    by (intro calmI [of _ _ "Acquire r True # cs @ [Release r]"]) (simp_all add: rank_run_append)
qed

lemma calm_best_node: "calm s (snd (uroam_numa_get_best_node K pid sz s))"
proof -
  let ?p = "find_get_pid K (klog s) pid"
  let ?s1 = "kdo (Acquire R_pid (?p \<noteq> None)) s"
  let ?t = "case ?p of None \<Rightarrow> None | Some q \<Rightarrow> get_pid_task K (klog ?s1) q"
  have "calm ?s1 (snd (uroam_numa_get_best_node K pid sz s))"
    by (cases ?t) (auto simp: uroam_numa_get_best_node_def Let_def calm_no_task split: option.split
        intro!: calm_around intro: calm_access_fold calm_trans [OF calm_access_fold calm_access_fold])
  with calm_pid show ?thesis by (rule calm_trans)
qed

lemma calm_migrate: "calm s (uroam_numa_migrate_pages K pid from_node to_node s)"
proof -
  let ?p = "find_get_pid K (klog s) pid"
  let ?s1 = "kdo (Acquire R_pid (?p \<noteq> None)) s"
  let ?t = "case ?p of None \<Rightarrow> None | Some q \<Rightarrow> get_pid_task K (klog ?s1) q"
  have walk: "calm t (kdo (Unlock Page_table_lock) (kdo (Lock Page_table_lock) t))"
    for t :: "'a main_state_scheme"
    by (rule calmI [of _ _ "[Lock Page_table_lock, Unlock Page_table_lock]"]) simp_all
  have "calm ?s1 (uroam_numa_migrate_pages K pid from_node to_node s)"
    by (cases ?t) (auto simp: uroam_numa_migrate_pages_def Let_def calm_no_task split: option.split
        intro!: calm_around walk)
  with calm_pid show ?thesis by (rule calm_trans)
qed

lemma calm_mempolicy: "calm s (kdo (Acquire R_mempolicy ok) s)" "calm s (kdo (Release R_mempolicy) s)"
  by (rule calm_kdo; auto simp: apart_def)+

lemma calm_set_policy: "calm s (snd (uroam_numa_set_policy K pid policy nodes n s))"
proof -
  let ?p = "find_get_pid K (klog s) pid"
  let ?s1 = "kdo (Acquire R_pid (?p \<noteq> None)) s"
  let ?t = "case ?p of None \<Rightarrow> None | Some q \<Rightarrow> get_pid_task K (klog ?s1) q"
  have policy: "calm t (kdo_if w (Acquire R_mempolicy ok) t)"
    "calm t (kdo_if v (Release R_mempolicy) (kdo_if w (Acquire R_mempolicy ok) t))"
    for t :: "'a main_state_scheme" and v w ok
    by (auto simp: kdo_if_def intro: calm_mempolicy calm_trans [OF calm_mempolicy(1) calm_mempolicy(2)])
  have "calm ?s1 (snd (uroam_numa_set_policy K pid policy nodes n s))"
    by (cases ?t) (auto simp: uroam_numa_set_policy_def Let_def calm_no_task split: option.split
        intro!: calm_around policy)
  with calm_pid show ?thesis by (rule calm_trans)
qed

lemma calm_balancer: "calm s (uroam_numa_enable_balancer b s)" "calm s (uroam_numa_balance_work s)"
proof -
  show "calm s (uroam_numa_enable_balancer b s)"
    by (rule calmI [of _ _ "if b then [Service Init_work, Service Schedule_work]
          else [Service Cancel_work_sync]"])
       (simp_all add: uroam_numa_enable_balancer_def flags_of_def kdo_def Let_def)
  have "for_upto k (\<lambda>node t. t) s = s" for k
    by (induction k) (simp_all add: for_upto_Suc)
  then show "calm s (uroam_numa_balance_work s)"
    by (simp add: uroam_numa_balance_work_def)
qed

lemma calm_files: "calm s (snd (uroam_enabled_store kstrtoint buf n s))"
  "calm s (snd (uroam_proc_status_show s))"
  by (rule calmI [of _ _ "case kstrtoint buf of Inl _ \<Rightarrow> [] | Inr _ \<Rightarrow> [Lock State_lock, Unlock State_lock]"];
      simp add: uroam_enabled_store_def flags_of_def Let_def kdo_def split: sum.splits)
     (rule calmI [of _ _ "[Lock State_lock, Unlock State_lock]"];
      simp add: uroam_proc_status_show_def Let_def)

lemmas calm_events = calm_core calm_psi calm_rcv calm_hooked calm_probe calm_counters(5,6)
  calm_process calm_get_process calm_numa_update calm_best_node calm_migrate calm_set_policy
  calm_balancer calm_files

lemma calm_but_params:
  "calm_but (b, enable_allocation_hooks s, enable_numa_aware s) s (s\<lparr>enable_pressure_monitor := b\<rparr>)"
  "calm_but (enable_pressure_monitor s, b, enable_numa_aware s) s (s\<lparr>enable_allocation_hooks := b\<rparr>)"
  "calm_but (enable_pressure_monitor s, enable_allocation_hooks s, b) s (s\<lparr>enable_numa_aware := b\<rparr>)"
  by (rule calm_but_write; simp add: flags_of_def)+

lemma calm_use_ftrace: "calm s (s\<lparr>use_ftrace := b\<rparr>)"
  by (rule calmI [of _ _ "[]"]) (simp_all add: flags_of_def)

lemma params_of: "mf_params (flags_of s) = (enable_pressure_monitor s, enable_allocation_hooks s, enable_numa_aware s)"
  by (simp add: flags_of_def)

lemma calm_step:
  assumes "bounded_pids K m"
  shows "\<exists>t. module_step K s e = Some t \<and> calm_but (param_write e (mf_params (flags_of s))) s t"
proof -
  have "\<exists>t. module_step K s e = Some t \<and> calm s t" if "\<And>ps. param_write e ps = ps"
    using that [of "(True, True, True)"] that [of "(False, False, False)"]
    by (cases e) (simp_all add: calm_events calm_scan [OF assms] calm_use_ftrace)
  moreover have ?thesis if "\<not> (\<forall>ps. param_write e ps = ps)"
    using that by (cases e) (simp_all add: params_of calm_but_params)
  ultimately show ?thesis by (metis calm_but_self)
qed

lemma calm_run:
  assumes "bounded_pids K m"
  shows "\<exists>t. module_run K s es = Some t \<and> calm_but (fold param_write es (mf_params (flags_of s))) s t"
proof (induction es arbitrary: s)
  case Nil
  then show ?case by (simp add: calm_but_self)
next
  case (Cons e es)
  obtain t where t: "module_step K s e = Some t" "calm_but (param_write e (mf_params (flags_of s))) s t"
    using calm_step [OF assms] by blast
  obtain u where "module_run K t es = Some u" "calm_but (fold param_write es (mf_params (flags_of t))) t u"
    using Cons.IH by blast
  moreover have "mf_params (flags_of t) = param_write e (mf_params (flags_of s))"
    using t(2) by (simp add: calm_but_def)
  ultimately show ?case using t by (auto intro: calm_but_trans)
qed

subsection \<open>What every stage of the load and the unload keeps\<close>

text \<open>
  The load keeps \<open>P\<close> up to the start of tracking, which establishes \<open>Q\<close>; the stops of the
  components, on the error path and in the unload, keep \<open>Q\<close>.
\<close>

lemmas cleanup_defs = cleanup_proc_def cleanup_sysfs_def cleanup_netlink_def cleanup_pressure_def
  cleanup_hooks_def cleanup_numa_def

locale stage_invariant =
  fixes K :: kenv and P Q :: "'a main_state_scheme \<Rightarrow> bool"
  assumes weaken: "P s \<Longrightarrow> Q s"
    and reset: "P s \<Longrightarrow> P (s\<lparr>allocation_list := [], enabled := True\<rparr>)"
    and proc: "P s \<Longrightarrow> P (snd (uroam_create_proc_entries K s))"
    and sysfs: "P s \<Longrightarrow> P (snd (uroam_create_sysfs_entries K s))"
    and netlink: "P s \<Longrightarrow> P (snd (uroam_netlink_init K s))"
    and pressure: "P s \<Longrightarrow> P (snd (uroam_pressure_init K s))"
    and hooks: "P s \<Longrightarrow> P (snd (uroam_hooks_init K s))"
    and numa: "P s \<Longrightarrow> P (snd (uroam_numa_init K s))"
    and tracking: "P s \<Longrightarrow> uroam_tracking_init K s = Some (ret, t) \<Longrightarrow> Q t"
    and stop_proc: "Q s \<Longrightarrow> Q (uroam_remove_proc_entries s)"
    and stop_sysfs: "Q s \<Longrightarrow> Q (uroam_remove_sysfs_entries s)"
    and stop_netlink: "Q s \<Longrightarrow> Q (uroam_netlink_exit s)"
    and stop_pressure: "Q s \<Longrightarrow> Q (uroam_pressure_exit s)"
    and stop_hooks: "Q s \<Longrightarrow> Q (uroam_hooks_exit s)"
    and stop_numa: "Q s \<Longrightarrow> Q (uroam_numa_exit s)"
begin

lemmas stops = stop_proc stop_sysfs stop_netlink stop_pressure stop_hooks stop_numa

lemma cleanup_keeps: "Q s \<Longrightarrow> Q (cleanup_numa s)" "Q s \<Longrightarrow> Q (cleanup_hooks s)"
  "Q s \<Longrightarrow> Q (cleanup_pressure s)" "Q s \<Longrightarrow> Q (cleanup_netlink s)"
  "Q s \<Longrightarrow> Q (cleanup_sysfs s)" "Q s \<Longrightarrow> Q (cleanup_proc s)"
  by (simp_all add: cleanup_defs stops)

lemma start_if_keeps:
  assumes "start_if b init s = (ret, t)" and "P s" and "\<And>u. P u \<Longrightarrow> P (snd (init u))"
  shows "P t"
  using assms(1) assms(3) [OF assms(2)] assms(2) by (auto simp: start_if_def split: if_splits)

lemma init_keeps:
  assumes "P s" and "uroam_init K s = Some (ret, t)"
  shows "Q t"
proof -
  let ?s0 = "s\<lparr>allocation_list := [], enabled := True\<rparr>"
  obtain r1 s1 where e1: "uroam_create_proc_entries K ?s0 = (r1, s1)" by fastforce
  obtain r2 s2 where e2: "uroam_create_sysfs_entries K s1 = (r2, s2)" by fastforce
  obtain r3 s3 where e3: "uroam_netlink_init K s2 = (r3, s3)" by fastforce
  obtain r4 s4 where e4: "start_if (enable_pressure_monitor s3) (uroam_pressure_init K) s3 = (r4, s4)"
    by fastforce
  obtain r5 s5 where e5: "start_if (enable_allocation_hooks s4) (uroam_hooks_init K) s4 = (r5, s5)"
    by fastforce
  obtain r6 s6 where e6: "start_if (enable_numa_aware s5) (uroam_numa_init K) s5 = (r6, s6)"
    by fastforce
  have s1: "P s1" using proc [OF reset [OF assms(1)]] e1 by simp
  have s2: "P s2" using sysfs [OF s1] e2 by simp
  have s3: "P s3" using netlink [OF s2] e3 by simp
  have s4: "P s4" by (rule start_if_keeps [OF e4 s3]) (rule pressure)
  have s5: "P s5" by (rule start_if_keeps [OF e5 s4]) (rule hooks)
  have s6: "P s6" by (rule start_if_keeps [OF e6 s5]) (rule numa)
  show ?thesis
    using assms(2) weaken [OF s1] weaken [OF s2] weaken [OF s3] weaken [OF s4] weaken [OF s5]
      weaken [OF s6] tracking [OF s6]
    by (auto simp: uroam_init_def e1 e2 e3 e4 e5 e6 cleanup_keeps split: if_splits option.splits)
qed

end

subsection \<open>No lock is left behind by the load and the unload\<close>

definition lock_free :: "'a kworld_scheme \<Rightarrow> bool" where
  "lock_free s \<longleftrightarrow> lock_run [] (klog s) = Some []"

lemma lock_free_kdo [simp]:
  "lock_run [] [c] = Some [] \<Longrightarrow> lock_free s \<Longrightarrow> lock_free (kdo c s)"
  by (simp add: lock_free_def lock_run_append)

lemma calm_but_free: "calm_but ps s t \<Longrightarrow> lock_free s \<Longrightarrow> lock_free t"
  by (auto simp: calm_but_def lock_free_def lock_run_append dest: rank_run_lock_run)

lemma calm_free: "calm s t \<Longrightarrow> lock_free s \<Longrightarrow> lock_free t"
  using calm_but_free [of "mf_params (flags_of s)" s t] by (simp add: calm_but_self)

lemma free_entries:
  assumes "lock_free s"
  shows "lock_free (snd (uroam_create_proc_entries K s))" "lock_free (uroam_remove_proc_entries s)"
    "lock_free (snd (uroam_create_sysfs_entries K s))" "lock_free (uroam_remove_sysfs_entries s)"
  using assms
  by (simp_all add: lock_free_def lock_run_append uroam_create_proc_entries_def cleanup_dir_def
      cleanup_status_def cleanup_config_def uroam_remove_proc_entries_def kdo_if_def
      uroam_create_sysfs_entries_def uroam_remove_sysfs_entries_def Let_def)

lemma free_netlink:
  "lock_free s \<Longrightarrow> lock_free (snd (uroam_netlink_init K s))"
  "lock_free s \<Longrightarrow> lock_free (uroam_netlink_exit s)"
  by (simp_all add: lock_free_def lock_run_append uroam_netlink_init_def uroam_netlink_exit_def Let_def)

lemma free_pressure:
  "lock_free s \<Longrightarrow> lock_free (snd (uroam_pressure_init K s))"
  "lock_free s \<Longrightarrow> lock_free (uroam_pressure_exit s)"
  by (simp_all add: lock_free_def lock_run_append uroam_pressure_init_def uroam_pressure_exit_def Let_def)

lemma free_hooks:
  "lock_free s \<Longrightarrow> lock_free (snd (uroam_hooks_init K s))"
  "lock_free s \<Longrightarrow> lock_free (uroam_hooks_exit s)"
  by (simp_all add: lock_free_def lock_run_append hooks_start_defs hooks_stop_defs Let_def)

lemma free_numa:
  fixes s :: "'a main_state_scheme"
  assumes "lock_free s"
  shows "lock_free (snd (uroam_numa_init K s))" "lock_free (uroam_numa_exit s)"
proof -
  have "lock_free (uroam_numa_init_distance_table K t)" if "lock_free t" for t :: "'a main_state_scheme"
    using that by (simp add: lock_free_def lock_run_append uroam_numa_init_distance_table_def Let_def
        split: option.split)
  then show "lock_free (snd (uroam_numa_init K s))"
    using assms by (auto simp: uroam_numa_init_def Let_def lock_free_def
        intro!: calm_free [OF calm_update_node_info, unfolded lock_free_def])
  show "lock_free (uroam_numa_exit s)"
    using assms by (simp add: lock_free_def lock_run_append uroam_numa_exit_def
        uroam_numa_enable_balancer_def Let_def split: option.split)
qed

lemma free_tracking_exit: "lock_free s \<Longrightarrow> lock_free (uroam_tracking_exit s)"
  by (simp add: lock_free_def lock_run_append uroam_tracking_exit_def Let_def)

lemma free_tracking_init:
  fixes s :: "'a main_state_scheme"
  assumes "bounded_pids K m" and "lock_free s" and "uroam_tracking_init K s = Some (ret, t)"
  shows "lock_free t"
proof -
  let ?s1 = "(kdo (Service (Init_waitqueue_head Tracking_thread)) (s\<lparr>tracked_count := 0\<rparr>))
    \<lparr>tracking_running := True\<rparr>"
  let ?err = "kthread_run_ret K (klog ?s1)"
  let ?s3 = "kdo (Acquire (R_thread Tracking_thread) (0 \<le> ?err)) (?s1\<lparr>tracking_thread := True\<rparr>)"
  have s3: "lock_free ?s3" using assms(2) by (simp add: lock_free_def lock_run_append)
  show ?thesis
  proof (cases "?err < 0")
    case True
    with assms(3) have "t = ?s3\<lparr>tracking_running := False\<rparr>"
      by (simp add: uroam_tracking_init_def Let_def)
    with s3 show ?thesis by (simp add: lock_free_def)
  next
    case False
    obtain s4 where s4: "uroam_tracking_scan K ?s3 = Some s4" "calm ?s3 s4"
      using calm_scan [OF assms(1), of ?s3] by blast
    obtain r s5 where s5: "uroam_numa_init K (s4\<lparr>numa_aware := True\<rparr>) = (r, s5)" by fastforce
    have "lock_free (s4\<lparr>numa_aware := True\<rparr>)"
      using calm_free [OF s4(2) s3] by (simp add: lock_free_def)
    from free_numa(1) [OF this, of K] s5 have "lock_free s5" by simp
    moreover have "t = (if r = 0 then uroam_numa_update K s5 else s5)"
      using assms(3) False s4(1) s5 by (simp add: uroam_tracking_init_def Let_def)
    ultimately show ?thesis by (simp add: calm_free [OF calm_numa_update])
  qed
qed

lemmas free_stops = free_entries(2,4) free_netlink(2) free_pressure(2) free_hooks(2) free_numa(2)
  free_tracking_exit

lemma free_exit: "lock_free s \<Longrightarrow> lock_free (uroam_exit s)"
proof -
  assume "lock_free s"
  then have "lock_free (kdo (Unlock State_lock) ((kdo (Lock State_lock) s)\<lparr>enabled := False\<rparr>))"
    by (simp add: lock_free_def lock_run_append)
  then show ?thesis by (simp add: uroam_exit_def Let_def free_stops)
qed

interpretation lock_stages: stage_invariant K "\<lambda>s. bounded_pids K m \<and> lock_free s" lock_free for K m
proof
  show "bounded_pids K m \<and> lock_free (s\<lparr>allocation_list := [], enabled := True\<rparr>)"
    if "bounded_pids K m \<and> lock_free s" for s :: "'a main_state_scheme"
    using that by (simp add: lock_free_def)
qed (auto simp: free_entries free_netlink free_pressure free_hooks free_numa intro: free_tracking_init)

subsection \<open>Properties\<close>



end
