(* ===== verification/Lock_Order.thy ===== *)
theory Lock_Order
  imports Module_Life
begin

section \<open>Many threads in the module at once\<close>

text \<open>
  The events of \<open>Module_Life\<close> happen on many processors at the same time. A thread is the list of
  calls it still has to make and the locks it holds, the last one taken first; a call that takes a
  lock waits until no thread holds it. What the calls of an event are depends on the state it finds,
  which the others change meanwhile, so a thread may make the calls of its events from any states.
  Every thread has a processor of its own: that the module sleeps with spinlocks held
  (\<open>Kernel_Core\<close>, \<open>Kernel_Tracking\<close>) is another matter.
\<close>

subsection \<open>Threads and locks\<close>

type_synonym locker = "lockid list \<times> kcall list"

fun wants :: "kcall \<Rightarrow> lockid option" where
  "wants (Lock l) = Some l"
| "wants _ = None"

text \<open>The locks a thread holds after a call.\<close>

fun after :: "lockid list \<Rightarrow> kcall \<Rightarrow> lockid list" where
  "after h (Lock l) = l # h"
| "after h (Unlock l) = remove1 l h"
| "after h _ = h"

definition is_free :: "locker list \<Rightarrow> lockid \<Rightarrow> bool" where
  "is_free ts l \<longleftrightarrow> list_all (\<lambda>t. l \<notin> set (fst t)) ts"

inductive lock_step :: "locker list \<Rightarrow> locker list \<Rightarrow> bool" where
  next_call: "i < length ts \<Longrightarrow> ts ! i = (h, c # cs) \<Longrightarrow>
    (\<And>l. wants c = Some l \<Longrightarrow> is_free ts l) \<Longrightarrow> lock_step ts (ts[i := (after h c, cs)])"

lemma lock_stepE:
  assumes "lock_step ts ts'"
  obtains i h c cs where "i < length ts" "ts ! i = (h, c # cs)" "ts' = ts[i := (after h c, cs)]"
    "\<And>l. wants c = Some l \<Longrightarrow> is_free ts l"
  using assms by (cases rule: lock_step.cases) blast

definition lock_start :: "kcall list list \<Rightarrow> locker list" where
  "lock_start ps = map (\<lambda>p. ([], p)) ps"

definition calls_left :: "locker list \<Rightarrow> nat" where
  "calls_left = total_of (\<lambda>t. length (snd t))"

definition all_done :: "locker list \<Rightarrow> bool" where
  "all_done ts \<longleftrightarrow> list_all (\<lambda>t. t = ([], [])) ts"

subsection \<open>Threads that take locks by rank\<close>

definition ranked :: "locker list \<Rightarrow> bool" where
  "ranked ts \<longleftrightarrow> list_all (\<lambda>t. rank_run (fst t) (snd t) = Some []) ts"

lemma after_ranked: "rank_run h (c # cs) = Some [] \<Longrightarrow> rank_run (after h c) cs = Some []"
  by (cases c; cases h) (simp_all split: if_splits)

lemma rankedD:
  assumes "ranked ts" and "i < length ts" and "ts ! i = (h, cs)"
  shows "rank_run h cs = Some []"
proof -
  have "rank_run (fst (ts ! i)) (snd (ts ! i)) = Some []"
    using assms(1,2) by (simp add: ranked_def list_all_length)
  with assms(3) show ?thesis by simp
qed

lemma ranked_step:
  assumes "lock_step ts ts'" and "ranked ts"
  shows "ranked ts'"
  using assms(1)
proof (rule lock_stepE)
  fix i h c cs
  assume 1: "i < length ts" "ts ! i = (h, c # cs)" "ts' = ts[i := (after h c, cs)]"
    and free: "\<And>l. wants c = Some l \<Longrightarrow> is_free ts l"
  have "rank_run (after h c) cs = Some []"
    using 1 rankedD [OF assms(2)] after_ranked by blast
  with 1 assms(2) show ?thesis by (simp add: ranked_def list_all_length nth_list_update)
qed

lemma ranked_run: "lock_step\<^sup>*\<^sup>* ts ts' \<Longrightarrow> ranked ts \<Longrightarrow> ranked ts'"
  by (induction rule: rtranclp_induct) (auto dest: ranked_step)

lemma rank_concat: "\<forall>cs \<in> set css. rank_run [] cs = Some [] \<Longrightarrow> rank_run [] (concat css) = Some []"
  by (induction css) (simp_all add: rank_run_append)

text \<open>A thread that cannot go on wants a lock above all it holds, and another thread has it.\<close>

lemma stuck_wants:
  assumes "\<nexists>ts'. lock_step ts ts'" and "i < length ts" and "ts ! i = (h, c # cs)"
  obtains l where "c = Lock l" "\<not> is_free ts l"
proof -
  have "\<exists>l. wants c = Some l \<and> \<not> is_free ts l"
    using assms lock_step.next_call by blast
  then show ?thesis using that by (cases c) auto
qed

lemma holder:
  assumes "ranked ts" and "\<not> is_free ts l"
  obtains i h c cs where "i < length ts" "ts ! i = (h, c # cs)" "l \<in> set h"
proof -
  obtain i where i: "i < length ts" "l \<in> set (fst (ts ! i))"
    using assms(2) by (auto simp: is_free_def list_all_length)
  moreover have "rank_run (fst (ts ! i)) (snd (ts ! i)) = Some []"
    using assms(1) i(1) by (simp add: ranked_def list_all_length)
  ultimately have "snd (ts ! i) \<noteq> []" by auto
  with i that show ?thesis by (metis neq_Nil_conv prod.collapse)
qed

text \<open>Hence a lock that blocks is held by a thread that waits for one that ranks higher.\<close>

lemma blocked_higher:
  assumes "ranked ts" and "\<nexists>ts'. lock_step ts ts'" and "\<not> is_free ts l"
  obtains m where "lock_rank l < lock_rank m" "\<not> is_free ts m"
proof -
  obtain i h c cs where i: "i < length ts" "ts ! i = (h, c # cs)" "l \<in> set h"
    using holder [OF assms(1,3)] by blast
  obtain m where m: "c = Lock m" "\<not> is_free ts m"
    using stuck_wants [OF assms(2) i(1,2)] by blast
  have "rank_run h (c # cs) = Some []"
    by (rule rankedD [OF assms(1) i(1,2)])
  with m(1) i(3) have "lock_rank l < lock_rank m"
    by (auto simp: list_all_iff split: if_splits)
  with m(2) that show ?thesis by blast
qed

lemma never_stuck:
  assumes "ranked ts" and "\<not> all_done ts"
  shows "\<exists>ts'. lock_step ts ts'"
proof (rule ccontr)
  assume stuck: "\<nexists>ts'. lock_step ts ts'"
  have low: "lock_rank l \<le> 1" for l by (cases l) simp_all
  obtain i where i: "i < length ts" "ts ! i \<noteq> ([], [])"
    using assms(2) by (auto simp: all_done_def list_all_length)
  have run: "rank_run (fst (ts ! i)) (snd (ts ! i)) = Some []"
    using assms(1) i(1) by (simp add: ranked_def list_all_length)
  with i(2) have "snd (ts ! i) \<noteq> []" by (cases "ts ! i") auto
  then obtain h c cs where "ts ! i = (h, c # cs)" by (metis neq_Nil_conv prod.collapse)
  then obtain l where "\<not> is_free ts l" using stuck_wants [OF stuck i(1)] by blast
  then obtain m where "0 < lock_rank m" "\<not> is_free ts m"
    using blocked_higher [OF assms(1) stuck] by (metis gr_zeroI not_less_zero)
  then obtain n where "lock_rank m < lock_rank n"
    using blocked_higher [OF assms(1) stuck] by blast
  with \<open>0 < lock_rank m\<close> low [of n] show False by simp
qed

lemma calls_left_step:
  assumes "lock_step ts ts'"
  shows "calls_left ts = Suc (calls_left ts')"
proof (rule lock_stepE [OF assms])
  fix i h c cs
  assume "i < length ts" "ts ! i = (h, c # cs)" "ts' = ts[i := (after h c, cs)]"
  with total_of_update [of i ts "\<lambda>t. length (snd t)" "(after h c, cs)"] show ?thesis
    by (simp add: calls_left_def)
qed

lemma can_finish:
  assumes "ranked ts"
  shows "\<exists>ts'. lock_step\<^sup>*\<^sup>* ts ts' \<and> all_done ts'"
  using assms
proof (induction "calls_left ts" arbitrary: ts rule: less_induct)
  case less
  show ?case
  proof (cases "all_done ts")
    case False
    then obtain u where u: "lock_step ts u" using never_stuck [OF less.prems] by blast
    then obtain ts' where "lock_step\<^sup>*\<^sup>* u ts'" "all_done ts'"
      using less.hyps [of u] calls_left_step [OF u] ranked_step [OF u less.prems] by auto
    with u show ?thesis by (meson converse_rtranclp_into_rtranclp)
  qed blast
qed

subsection \<open>Two threads never hold the same lock\<close>

definition exclusive :: "locker list \<Rightarrow> bool" where
  "exclusive ts \<longleftrightarrow> (\<forall>i<length ts. \<forall>j<length ts. i \<noteq> j \<longrightarrow> set (fst (ts ! i)) \<inter> set (fst (ts ! j)) = {})"

lemma after_held: "x \<in> set (after h c) \<Longrightarrow> x \<in> set h \<or> wants c = Some x"
  using notin_set_remove1 by (cases c) fastforce+

lemma exclusive_step:
  assumes "lock_step ts ts'" and "exclusive ts"
  shows "exclusive ts'"
  using assms(1)
proof (rule lock_stepE)
  fix i h c cs
  assume 1: "i < length ts" "ts ! i = (h, c # cs)" "ts' = ts[i := (after h c, cs)]"
    and free: "\<And>l. wants c = Some l \<Longrightarrow> is_free ts l"
  have "x \<notin> set (fst (ts ! j))" if "x \<in> set (after h c)" "j < length ts" "j \<noteq> i" for x j
    using after_held [OF that(1)]
  proof
    assume "x \<in> set h"
    with assms(2) 1 that(2,3) show ?thesis by (fastforce simp: exclusive_def)
  next
    assume "wants c = Some x"
    from free [OF this] that(2) show ?thesis by (simp add: is_free_def list_all_length)
  qed
  with 1 assms(2) show ?thesis
    by (auto simp: exclusive_def nth_list_update)
qed

lemma exclusive_run: "lock_step\<^sup>*\<^sup>* ts ts' \<Longrightarrow> exclusive ts \<Longrightarrow> exclusive ts'"
  by (induction rule: rtranclp_induct) (auto dest: exclusive_step)

subsection \<open>A thread that waits for itself\<close>

definition waits_for_itself :: "locker \<Rightarrow> bool" where
  "waits_for_itself t \<longleftrightarrow> self_wait (fst t) (snd t) \<noteq> None"

lemma self_wait_next:
  assumes "self_wait h (c # cs) \<noteq> None" and "\<And>l. wants c = Some l \<Longrightarrow> l \<notin> set h"
  shows "self_wait (after h c) cs \<noteq> None"
  using assms by (cases c) auto

text \<open>It never gets to its end: the lock it asks for is free only when it has given it back.\<close>

lemma waits_step:
  assumes "lock_step ts ts'" and "list_ex waits_for_itself ts"
  shows "list_ex waits_for_itself ts'"
  using assms(1)
proof (rule lock_stepE)
  fix i h c cs
  assume 1: "i < length ts" "ts ! i = (h, c # cs)" "ts' = ts[i := (after h c, cs)]"
    and free: "\<And>l. wants c = Some l \<Longrightarrow> is_free ts l"
  obtain j where j: "j < length ts" "waits_for_itself (ts ! j)"
    using assms(2) by (auto simp: list_ex_length)
  have "l \<notin> set h" if "wants c = Some l" for l
    using free [OF that] 1(1,2) by (auto simp: is_free_def list_all_length)
  then have "waits_for_itself (ts' ! j)"
    using 1 j self_wait_next [of h c cs] by (cases "j = i") (auto simp: waits_for_itself_def)
  with 1 j(1) show ?thesis by (auto simp: list_ex_length)
qed

lemma waits_run: "lock_step\<^sup>*\<^sup>* ts ts' \<Longrightarrow> list_ex waits_for_itself ts \<Longrightarrow> list_ex waits_for_itself ts'"
  by (induction rule: rtranclp_induct) (auto dest: waits_step)

lemma waits_not_done: "list_ex waits_for_itself ts \<Longrightarrow> \<not> all_done ts"
  by (fastforce simp: list_ex_iff all_done_def list_all_iff waits_for_itself_def)

subsection \<open>The module's threads\<close>

text \<open>
  What an event calls when it finds the state \<open>s\<close>, what a thread with several events calls itself,
  and all the calls of the thread, those of the receiver included where netlink delivers a
  message to the module in the sender's thread.
\<close>

definition calls_of :: "kenv \<Rightarrow> main_state \<Rightarrow> module_event \<Rightarrow> kcall list" where
  "calls_of K s e =
     (case module_step K s e of None \<Rightarrow> [] | Some t \<Rightarrow> drop (length (klog s)) (klog t))"

definition thread_calls :: "kenv \<Rightarrow> (main_state \<times> module_event) list \<Rightarrow> kcall list" where
  "thread_calls K evs = concat (map (\<lambda>(s, e). calls_of K s e) evs)"

definition thread_program :: "kenv \<Rightarrow> (main_state \<times> module_event) list \<Rightarrow> kcall list" where
  "thread_program K evs = whole (thread_calls K evs)"

lemma calls_ranked: "bounded_pids K m \<Longrightarrow> rank_run [] (calls_of K s e) = Some []"
  using calm_step [of K m s e] by (auto simp: calls_of_def calm_but_def)

lemma threads_ranked:
  assumes "bounded_pids K m" and "\<forall>evs \<in> set evss. echo_free (thread_calls K evs)"
  shows "ranked (lock_start (map (thread_program K) evss))"
proof -
  have "rank_run [] (thread_calls K evs) = Some []" for evs
    by (auto simp: thread_calls_def calls_ranked [OF assms(1)] intro!: rank_concat)
  then show ?thesis
    using assms(2) by (simp add: ranked_def lock_start_def list_all_iff thread_program_def echo_free_runs)
qed

lemma steps_left: "(lock_step ^^ n) ts ts' \<Longrightarrow> n + calls_left ts' = calls_left ts"
  by (induction n arbitrary: ts') (fastforce dest: calls_left_step)+

text \<open>The events that send a message of a type the receiver answers.\<close>

fun announces :: "module_event \<Rightarrow> bool" where
  "announces (Me_core (Ev_pressure l)) = True"
| "announces (Me_receive (Some (ty, pid))) = (ty = UROAM_NL_MSG_PRESSURE \<or> ty = UROAM_NL_MSG_STATS)"
| "announces e = False"

lemma announcer_waits:
  assumes "nl_ready K" and "nl_accepts K" and "uroam_nl_sock s" and "announces e"
  shows "self_wait [] (whole (calls_of K s e)) = Some Nl_mutex"
  using assms(4)
proof (cases e rule: announces.cases)
  case (1 l)
  then show ?thesis
    using notification_waits_for_itself [OF assms(1-3), of l] by (auto simp: calls_of_def)
next
  case (2 ty pid)
  then show ?thesis
    using rcv_calls_wait [OF assms(1-3), of ty] assms(4) by (auto simp: calls_of_def rcv_klog)
qed simp_all

lemma start_waits:
  assumes "nl_ready K" and "nl_accepts K" and "uroam_nl_sock s" and "announces e"
    and "(s, e) # rest \<in> set evss"
  shows "\<exists>evs \<in> set evss. self_wait [] (thread_program K evs) \<noteq> None"
proof (rule bexI [OF _ assms(5)])
  from self_wait_append [OF announcer_waits [OF assms(1-4)]]
  show "self_wait [] (thread_program K ((s, e) # rest)) \<noteq> None"
    by (simp add: thread_program_def thread_calls_def whole_append)
qed

subsection \<open>Properties\<close>



end
