(* ===== verification/Process_Table.thy ===== *)
theory Process_Table
  imports Module_Life
begin

section \<open>The process table over the life of the module\<close>

text \<open>
  The component's invariant \<open>tracking_ok\<close> (a search tree over the pids of exactly the entries in
  use, at most as many as the array has, every name of its declared length) from the load on,
  whatever the module does: every other component leaves the table alone. And what no
  operation of the module does: take a process out of the table.
\<close>

subsection \<open>Operations that leave the table alone\<close>

definition same_table :: "'a main_state_scheme \<Rightarrow> 'a main_state_scheme \<Rightarrow> bool" where
  "same_table s t \<longleftrightarrow> tracked_processes t = tracked_processes s \<and>
     uroam_process_tree t = uroam_process_tree s \<and> tracked_count t = tracked_count s"

lemma same_table_refl [simp]: "same_table s s"
  by (simp add: same_table_def)

lemma same_table_trans: "same_table s t \<Longrightarrow> same_table t u \<Longrightarrow> same_table s u"
  by (simp add: same_table_def)

lemma same_table_kdo [simp]: "same_table s (kdo c t) = same_table s t"
  by (simp add: same_table_def)

lemma same_table_ok:
  assumes "same_table s t"
  shows "tracking_ok K t = tracking_ok K s" and "tracked t = tracked s"
proof -
  have "tracked_processes t = tracked_processes s" "uroam_process_tree t = uroam_process_tree s"
    "tracked_count t = tracked_count s"
    using assms by (simp_all add: same_table_def)
  then show "tracking_ok K t = tracking_ok K s" "tracked t = tracked s"
    unfolding tracking_ok_def tracked_def [abs_def] by simp_all
qed

lemma table_send: "same_table s (snd (uroam_netlink_send K ty data len portid s))"
  using send_frame [of K ty data len portid s] by (auto simp: same_table_def)

lemma table_notify: "same_table s (uroam_notify_pressure K level s)"
  by (simp add: notify_pressure_eq same_table_def)

lemma table_core: "same_table s (core_step K s e)"
  using table_notify
  by (cases e) (simp_all add: record_allocation_eq record_reclaim_eq same_table_def)

lemma table_psi: "same_table s (uroam_psi_monitor K s)" "same_table s (uroam_psi_update K st s)"
  "same_table s (uroam_pressure_check K s)"
  by (auto simp: psi_monitor_eq uroam_psi_update_def pressure_check_eq table_notify
      intro: same_table_trans [OF _ table_notify])

lemma table_rcv: "same_table s (uroam_netlink_rcv K skb s)"
  by (auto simp: uroam_netlink_rcv_def netlink_send_pressure_eq netlink_send_stats_eq Let_def table_send
      intro: same_table_trans [OF _ table_send] split: option.split prod.split)

lemma table_hooked: "same_table s (hooked_step K s x)"
  by (cases x) (simp_all add: uroam_hooked_mmap_def uroam_hooked_brk_def Let_def same_table_def
      record_allocation_eq uroam_record_alloc_event_def kdo_def)

lemma table_probe: "same_table s (uroam_kprobe_handler hooked p s)"
  "same_table s (uroam_ftrace_hook_mmap_entry len s)" "same_table s (uroam_ftrace_hook_brk_entry c brk s)"
  by (simp_all add: uroam_kprobe_handler_def uroam_ftrace_hook_mmap_entry_def Let_def
      uroam_ftrace_hook_brk_entry_def same_table_def split: kprobe_id.split option.split)

lemma table_node_info: "same_table s (uroam_numa_update_node_info K s)"
  using update_node_info_eq [of K s] by (auto simp: same_table_def)

lemma table_numa_update: "same_table s (uroam_numa_update K s)"
  by (simp add: uroam_numa_update_def table_node_info)

lemma table_access_fold: "same_table s (fold (access a n) xs t) = same_table s t"
  by (induction xs arbitrary: t) (simp_all add: access_def kdo_if_def)

lemma table_best_node: "same_table s (snd (uroam_numa_get_best_node K pid sz s))"
  by (simp add: uroam_numa_get_best_node_def Let_def table_access_fold split: option.split)

lemma table_migrate: "same_table s (uroam_numa_migrate_pages K pid f t s)"
  by (simp add: uroam_numa_migrate_pages_def Let_def split: option.split)

lemma table_set_policy: "same_table s (snd (uroam_numa_set_policy K pid policy nodes n s))"
  by (simp add: uroam_numa_set_policy_def Let_def kdo_if_def split: option.split)

lemma table_balancer: "same_table s (uroam_numa_enable_balancer b s)" "same_table s (uroam_numa_balance_work s)"
proof -
  show "same_table s (uroam_numa_enable_balancer b s)"
    by (simp add: uroam_numa_enable_balancer_def Let_def) (simp add: same_table_def)
  have "for_upto k (\<lambda>node t. t) s = s" for k
    by (induction k) (simp_all add: for_upto_Suc)
  then show "same_table s (uroam_numa_balance_work s)"
    by (simp add: uroam_numa_balance_work_def)
qed

lemma table_files: "same_table s (snd (uroam_enabled_store kstrtoint buf n s))"
  "same_table s (snd (uroam_proc_status_show s))"
  by (simp_all add: uroam_enabled_store_def uroam_proc_status_show_def Let_def split: sum.split)
     (simp add: same_table_def kdo_def)

lemma table_get_process: "same_table s (snd (uroam_tracking_get_process pid s))"
  by (simp add: get_process_state same_table_def)

lemma table_params: "same_table s (s\<lparr>enable_pressure_monitor := b\<rparr>)"
  "same_table s (s\<lparr>enable_allocation_hooks := b\<rparr>)" "same_table s (s\<lparr>enable_numa_aware := b\<rparr>)"
  "same_table s (s\<lparr>use_ftrace := b\<rparr>)"
  by (simp_all add: same_table_def)

lemmas table_events = table_params table_core table_psi table_rcv table_hooked table_probe table_numa_update
  table_best_node table_migrate table_set_policy table_balancer table_files table_get_process

subsection \<open>Runs\<close>

text \<open>The invariant is kept and no process leaves the table.\<close>

definition keeps_table :: "kenv \<Rightarrow> 'a tracking_state_scheme \<Rightarrow> 'a tracking_state_scheme \<Rightarrow> bool" where
  "keeps_table K s t \<longleftrightarrow>
     (tracking_ok K s \<longrightarrow> tracking_ok K t \<and> dom (tracked s) \<subseteq> dom (tracked t))"

lemma keeps_refl: "keeps_table K s s"
  by (simp add: keeps_table_def)

lemma keeps_trans: "keeps_table K s t \<Longrightarrow> keeps_table K t u \<Longrightarrow> keeps_table K s u"
  by (auto simp: keeps_table_def)

lemma keeps_same: "same_table s t \<Longrightarrow> keeps_table K s t"
  by (simp add: keeps_table_def same_table_ok)

lemma dom_track: "dom m \<subseteq> dom (track K task m)"
  by (auto simp: track_def split: option.splits if_splits)

lemma keeps_process: "keeps_table K s (uroam_tracking_update_process K task s)"
  using update_refines [of K s task] dom_track [of "tracked s" K task] by (auto simp: keeps_table_def)

lemma keeps_scan:
  fixes s :: "'a tracking_state_scheme"
  assumes "bounded_pids K m"
  shows "\<exists>t. uroam_tracking_scan K s = Some t \<and> keeps_table K s t"
  unfolding uroam_tracking_scan_def
proof (rule scan_from_keeps [OF assms, where P = "keeps_table K"])
  show "keeps_table K s (scan_one K q (kdo (Acquire R_pid True) s))"
    for q and s :: "'a tracking_state_scheme"
    using scan_one_refines [of K "kdo (Acquire R_pid True) s" q] dom_track
    by (fastforce simp: keeps_table_def split: option.splits)
qed (auto simp: keeps_table_def)

lemma keeps_step:
  assumes "bounded_pids K m" and "module_step K s e = Some t"
  shows "keeps_table K s t"
proof -
  have scan: "keeps_table K s t" if "uroam_tracking_scan K s = Some t"
    using keeps_scan [OF assms(1), of s] that by auto
  show ?thesis
    using assms(2) scan by (cases e) (auto simp: keeps_process intro: keeps_same table_events)
qed

lemma keeps_run:
  assumes "bounded_pids K m"
  shows "module_run K s es = Some t \<Longrightarrow> keeps_table K s t"
  by (induction es arbitrary: s) (auto simp: keeps_refl split: option.splits
      intro: keeps_trans keeps_step [OF assms])

subsection \<open>The load\<close>

lemma table_stages:
  "same_table s (snd (uroam_create_proc_entries K s))" "same_table s (snd (uroam_create_sysfs_entries K s))"
  "same_table s (snd (uroam_netlink_init K s))" "same_table s (snd (uroam_pressure_init K s))"
  "same_table s (snd (uroam_hooks_init K s))"
  "same_table s (uroam_remove_proc_entries s)" "same_table s (uroam_remove_sysfs_entries s)"
  "same_table s (uroam_netlink_exit s)" "same_table s (uroam_pressure_exit s)"
  "same_table s (uroam_hooks_exit s)" "same_table s (uroam_numa_exit s)"
  by (simp_all add: same_table_def uroam_create_proc_entries_def cleanup_dir_def cleanup_status_def
      cleanup_config_def uroam_create_sysfs_entries_def uroam_netlink_init_def uroam_pressure_init_def
      hooks_start_defs uroam_remove_proc_entries_def uroam_remove_sysfs_entries_def kdo_if_def
      uroam_netlink_exit_def uroam_pressure_exit_def hooks_stop_defs uroam_numa_exit_def
      uroam_numa_enable_balancer_def Let_def split: option.split)

lemma table_numa_init: "same_table s (snd (uroam_numa_init K s))"
proof -
  have "same_table s (uroam_numa_update_node_info K t) = same_table s t" for t
    using table_node_info [of t K] by (simp add: same_table_def)
  moreover have "same_table s (uroam_numa_init_distance_table K t) = same_table s t" for t
    by (simp add: uroam_numa_init_distance_table_def Let_def split: option.split)
       (simp add: same_table_def)
  ultimately show ?thesis
    by (simp add: uroam_numa_init_def Let_def) (simp add: same_table_def)
qed

lemma tracking_init_ok:
  fixes s :: "'a main_state_scheme"
  assumes "bounded_pids K m" and "tracking_ok K s" and "uroam_process_tree s = Leaf"
    and "uroam_tracking_init K s = Some (ret, t)"
  shows "tracking_ok K t"
proof -
  let ?s1 = "(kdo (Service (Init_waitqueue_head Tracking_thread)) (s\<lparr>tracked_count := 0\<rparr>))
    \<lparr>tracking_running := True\<rparr>"
  let ?err = "kthread_run_ret K (klog ?s1)"
  let ?s3 = "kdo (Acquire (R_thread Tracking_thread) (0 \<le> ?err)) (?s1\<lparr>tracking_thread := True\<rparr>)"
  have "tracked_count s = 0"
    using assms(2,3) by (auto simp: tracking_ok_def unat_eq_zero [symmetric])
  then have "same_table s ?s3" by (simp add: same_table_def)
  with assms(2) have s3: "tracking_ok K ?s3" by (simp add: same_table_ok)
  show ?thesis
  proof (cases "?err < 0")
    case True
    with assms(4) have "t = ?s3\<lparr>tracking_running := False\<rparr>"
      by (simp add: uroam_tracking_init_def Let_def)
    then have "same_table ?s3 t" by (simp add: same_table_def)
    with s3 show ?thesis by (simp add: same_table_ok)
  next
    case False
    obtain s4 where s4: "uroam_tracking_scan K ?s3 = Some s4" "keeps_table K ?s3 s4"
      using keeps_scan [OF assms(1), of ?s3] by blast
    let ?s4 = "s4\<lparr>numa_aware := True\<rparr>"
    obtain r s5 where s5: "uroam_numa_init K ?s4 = (r, s5)" by fastforce
    have t: "t = (if r = 0 then uroam_numa_update K s5 else s5)"
      using assms(4) False s4(1) s5 by (simp add: uroam_tracking_init_def Let_def)
    have "same_table s4 ?s4" by (simp add: same_table_def)
    moreover have "same_table ?s4 s5" using table_numa_init [of ?s4 K] s5 by simp
    moreover have "same_table s5 t" by (simp add: t table_numa_update)
    ultimately have "same_table s4 t" by (blast intro: same_table_trans)
    then show ?thesis using s3 s4(2) by (simp add: keeps_table_def same_table_ok)
  qed
qed

text \<open>The table is empty until tracking starts.\<close>

definition empty_table :: "kenv \<Rightarrow> 'a main_state_scheme \<Rightarrow> bool" where
  "empty_table K s \<longleftrightarrow> tracking_ok K s \<and> uroam_process_tree s = Leaf"

lemma empty_same: "same_table s t \<Longrightarrow> empty_table K s \<Longrightarrow> empty_table K t"
  using same_table_ok(1) [of s t K] by (simp add: empty_table_def same_table_def)

lemma ok_same: "same_table s t \<Longrightarrow> tracking_ok K s \<Longrightarrow> tracking_ok K t"
  by (simp add: same_table_ok)

lemmas empty_stages = table_stages(1-5) [THEN empty_same] table_numa_init [THEN empty_same]
lemmas ok_stages = table_stages(6-11) [THEN ok_same]

interpretation stages_table: stage_invariant K "\<lambda>s. bounded_pids K m \<and> empty_table K s" "tracking_ok K"
  for K m
proof
  show "bounded_pids K m \<and> empty_table K (s\<lparr>allocation_list := [], enabled := True\<rparr>)"
    if "bounded_pids K m \<and> empty_table K s" for s :: "'a main_state_scheme"
    using that empty_same [of s "s\<lparr>allocation_list := [], enabled := True\<rparr>" K]
    by (simp add: same_table_def)
  show "tracking_ok K t" if "bounded_pids K m \<and> empty_table K s" "uroam_tracking_init K s = Some (ret, t)"
    for s t :: "'a main_state_scheme" and ret
    using that tracking_init_ok [of K m s ret t] by (simp add: empty_table_def)
  show "tracking_ok K s" if "bounded_pids K m \<and> empty_table K s" for s :: "'a main_state_scheme"
    using that by (simp add: empty_table_def)
qed (simp_all add: empty_stages ok_stages)

lemma main_boot_table: "rb_ok K \<Longrightarrow> tracking_ok K main_boot" "uroam_process_tree main_boot = Leaf"
  by (simp_all add: main_boot_def main_state.defs tracking_ok_def tracking_boot_def tracking_state.defs
      numa_boot_def numa_state.defs hooks_boot_def hooks_state.defs pressure_boot_def
      pressure_state.defs nl_boot_def nl_state.defs uroam_state.defs uroam_global_state_def
      zero_process_def)

subsection \<open>Properties\<close>

text \<open>C6: Type safety of the process table: on a machine with bounded pids, from the load on, through any
  run of events, the table is
  well formed (a search tree over the pids that holds exactly the entries in use, no two with one
  pid, at most 1024, every name 16 bytes long), and a process once in it never leaves it: the
  function that removes an entry is called from nowhere, so the places of processes that have ended
  are lost.\<close>

theorem process_table_well_formed:
  assumes "bounded_pids K m" and "tracking_ok K s" and "uroam_process_tree s = Leaf"
    and "uroam_init K s = Some (ret, t)" and "module_run K t es = Some u"
  shows "tracking_ok K u \<and> dom (tracked t) \<subseteq> dom (tracked u) \<and>
    card (dom (tracked u)) \<le> MAX_TRACKED_PROCESSES"
proof -
  have "tracking_ok K t"
    using stages_table.init_keeps [OF _ assms(4), of m] assms(1-3) by (simp add: empty_table_def)
  with keeps_run [OF assms(1,5)] have u: "tracking_ok K u" "dom (tracked t) \<subseteq> dom (tracked u)"
    by (auto simp: keeps_table_def)
  then show ?thesis
    by (simp add: card_dom_tracked) (simp add: tracking_ok_def)
qed

theorem process_table_well_formed_witness:
  "\<exists>t u. uroam_init example_kernel main_boot = Some (0, t) \<and>
     module_run example_kernel t [Me_process (example_task 7 ''llama'')] = Some u \<and> tracking_ok example_kernel u"
proof -
  obtain t where t: "uroam_init example_kernel main_boot = Some (0, t)"
    by (rule example_loaded)
  from process_table_well_formed [OF example_kernel_ok(3) main_boot_table(1) [OF example_kernel_ok(1)]
      main_boot_table(2) t,
      of "[Me_process (example_task 7 ''llama'')]"] t
  show ?thesis by auto
qed

end
