(* ===== verification/Ipc_Race.thy ===== *)
theory Ipc_Race
  imports Kernel_Core
begin

section \<open>Senders on several processors, and the release of the socket: kernel/ipc.c\<close>

text \<open>
  \<open>uroam_netlink_send\<close> numbers a message by \<open>uroam_nl_seq++\<close>, a load and a store of a shared
  variable, before it takes the mutex under which the socket is tested and the message is handed
  to netlink. Its callers hold different locks (the state lock, the tree lock or none), so several
  of them can be in it at once. \<open>uroam_netlink_exit\<close> tests the pointer, releases the socket and only
  then clears the pointer, without the mutex. The relation \<open>ipc_step\<close> lets any sender, or the exit,
  perform its next access.

  What the kernel grants a sender is its luck: whether it gets a buffer, whether the header fits,
  and what becomes of the message netlink accepts. The module sends to port 0, its own socket, so
  an accepted message runs the receiver in the sender's thread with the mutex held: it does
  nothing to the channel (\<open>Quiet\<close>: the message was refused, is of a type the receiver drops, or the
  receiver gets no buffer for its answer), or it takes the next number and fails to put the header
  (\<open>Echo_fails\<close>), or it takes the next number and asks for the mutex (\<open>Echo_waits\<close>). The state lock,
  which callers and the receiver take besides, is in \<open>Lock_Order\<close>.
\<close>

subsection \<open>The accesses of one send\<close>

record channel =
  seq :: u32
  mutex :: bool
  pointer :: bool
  there :: bool
  sent :: "(u32 \<times> bool) list"

text \<open>\<open>pointer\<close> is the variable \<open>uroam_nl_sock\<close>, \<open>there\<close> whether the socket has not been released;
  \<open>sent\<close> has for every message handed over its number and whether the socket was still there.\<close>

datatype echo = Quiet | Echo_fails | Echo_waits

record luck =
  buffer :: bool
  header :: bool
  echo :: echo

datatype send_phase =
    New_buffer | Load_seq | Store_seq u32 | Put_header u32 | Take_mutex u32 | Test_sock u32
  | Unicast_it u32 | Echo_load | Echo_store u32 | Own_mutex | Drop_mutex bool
  | No_buffer | No_header | Refused | Sent

text \<open>\<open>Own_mutex\<close> is the receiver at the mutex its own thread holds: it has no next access.\<close>

fun next_send :: "luck \<Rightarrow> channel \<Rightarrow> send_phase \<Rightarrow> (channel \<times> send_phase) option" where
  "next_send l c New_buffer = Some (c, if buffer l then Load_seq else No_buffer)"
| "next_send l c Load_seq = Some (c, Store_seq (seq c))"
| "next_send l c (Store_seq n) = Some (c\<lparr>seq := n + 1\<rparr>, Put_header n)"
| "next_send l c (Put_header n) = Some (c, if header l then Take_mutex n else No_header)"
| "next_send l c (Take_mutex n) = (if mutex c then None else Some (c\<lparr>mutex := True\<rparr>, Test_sock n))"
| "next_send l c (Test_sock n) = Some (c, if pointer c then Unicast_it n else Drop_mutex False)"
| "next_send l c (Unicast_it n) =
     Some (c\<lparr>sent := sent c @ [(n, there c)]\<rparr>, if echo l = Quiet then Drop_mutex True else Echo_load)"
| "next_send l c Echo_load = Some (c, Echo_store (seq c))"
| "next_send l c (Echo_store m) =
     Some (c\<lparr>seq := m + 1\<rparr>, if echo l = Echo_fails then Drop_mutex True else Own_mutex)"
| "next_send l c (Drop_mutex b) = Some (c\<lparr>mutex := False\<rparr>, if b then Sent else Refused)"
| "next_send l c _ = None"

text \<open>The exit; \<open>Exit_idle\<close> when none is under way.\<close>

datatype exit_phase = Exit_idle | Exit_test | Exit_release | Exit_clear | Exit_done

fun next_exit :: "channel \<Rightarrow> exit_phase \<Rightarrow> (channel \<times> exit_phase) option" where
  "next_exit c Exit_test = Some (c, if pointer c then Exit_release else Exit_done)"
| "next_exit c Exit_release = Some (c\<lparr>there := False\<rparr>, Exit_clear)"
| "next_exit c Exit_clear = Some (c\<lparr>pointer := False\<rparr>, Exit_done)"
| "next_exit c _ = None"

type_synonym sender = "luck \<times> send_phase"

type_synonym ipc_config = "channel \<times> exit_phase \<times> sender list"

inductive ipc_step :: "ipc_config \<Rightarrow> ipc_config \<Rightarrow> bool" where
  sender_accesses:
    "i < length ts \<Longrightarrow> ts ! i = (l, p) \<Longrightarrow> next_send l c p = Some (c', p') \<Longrightarrow>
     ipc_step (c, e, ts) (c', e, ts[i := (l, p')])"
| exit_accesses:
    "next_exit c e = Some (c', e') \<Longrightarrow> ipc_step (c, e, ts) (c', e', ts)"

inductive_cases ipc_step_cases: "ipc_step (c, e, ts) s'"

text \<open>The socket is open, the next number is \<open>n\<close>, an exit is coming or not.\<close>

definition ipc_start :: "u32 \<Rightarrow> bool \<Rightarrow> luck list \<Rightarrow> ipc_config" where
  "ipc_start n unload ls =
     (\<lparr>seq = n, mutex = False, pointer = True, there = True, sent = []\<rparr>,
      if unload then Exit_test else Exit_idle, map (\<lambda>l. (l, New_buffer)) ls)"

subsection \<open>The invariant\<close>

fun in_mutex :: "sender \<Rightarrow> nat" where
  "in_mutex (l, Test_sock n) = 1"
| "in_mutex (l, Unicast_it n) = 1"
| "in_mutex (l, Echo_load) = 1"
| "in_mutex (l, Echo_store m) = 1"
| "in_mutex (l, Own_mutex) = 1"
| "in_mutex (l, Drop_mutex b) = 1"
| "in_mutex t = 0"

text \<open>Who has handed over its message: whoever found the socket and has passed the unicast.\<close>

fun has_sent :: "sender \<Rightarrow> nat" where
  "has_sent (l, Echo_load) = 1"
| "has_sent (l, Echo_store m) = 1"
| "has_sent (l, Own_mutex) = 1"
| "has_sent (l, Drop_mutex b) = of_bool b"
| "has_sent (l, Sent) = 1"
| "has_sent t = 0"

text \<open>How many numbers a sender and its echo have taken.\<close>

fun numbers :: "sender \<Rightarrow> nat" where
  "numbers (l, New_buffer) = 0"
| "numbers (l, Load_seq) = 0"
| "numbers (l, Store_seq n) = 0"
| "numbers (l, No_buffer) = 0"
| "numbers (l, Own_mutex) = 2"
| "numbers (l, Drop_mutex b) = (if b \<and> echo l \<noteq> Quiet then 2 else 1)"
| "numbers (l, Sent) = (if echo l \<noteq> Quiet then 2 else 1)"
| "numbers t = 1"

fun sends_left :: "sender \<Rightarrow> nat" where
  "sends_left (l, New_buffer) = 10"
| "sends_left (l, Load_seq) = 9"
| "sends_left (l, Store_seq n) = 8"
| "sends_left (l, Put_header n) = 7"
| "sends_left (l, Take_mutex n) = 6"
| "sends_left (l, Test_sock n) = 5"
| "sends_left (l, Unicast_it n) = 4"
| "sends_left (l, Echo_load) = 3"
| "sends_left (l, Echo_store m) = 2"
| "sends_left (l, Drop_mutex b) = 1"
| "sends_left t = 0"

fun exit_left :: "exit_phase \<Rightarrow> nat" where
  "exit_left Exit_test = 3"
| "exit_left Exit_release = 2"
| "exit_left Exit_clear = 1"
| "exit_left _ = 0"

fun ended :: "sender \<Rightarrow> bool" where
  "ended (l, p) = (p \<in> {No_buffer, No_header, Refused, Sent})"

text \<open>How far a number is from the first one; the number a sender has loaded, and the one it carries.\<close>

definition offset :: "u32 \<Rightarrow> u32 \<Rightarrow> nat" where
  "offset n0 n = unat (n - n0)"

fun loaded :: "sender \<Rightarrow> u32 option" where
  "loaded (l, Store_seq n) = Some n"
| "loaded (l, Echo_store m) = Some m"
| "loaded t = None"

fun carries :: "sender \<Rightarrow> u32 option" where
  "carries (l, Put_header n) = Some n"
| "carries (l, Take_mutex n) = Some n"
| "carries (l, Test_sock n) = Some n"
| "carries (l, Unicast_it n) = Some n"
| "carries t = None"

definition lock_ok :: "ipc_config \<Rightarrow> bool" where
  "lock_ok s \<longleftrightarrow> (case s of (c, e, ts) \<Rightarrow>
     total_of in_mutex ts = of_bool (mutex c) \<and> length (sent c) = total_of has_sent ts \<and>
     (\<forall>l. (l, Own_mutex) \<in> set ts \<longrightarrow> echo l = Echo_waits) \<and>
     (\<forall>l. (l, Echo_load) \<in> set ts \<longrightarrow> echo l \<noteq> Quiet) \<and>
     (\<forall>l m. (l, Echo_store m) \<in> set ts \<longrightarrow> echo l \<noteq> Quiet) \<and>
     (there c \<longleftrightarrow> e \<in> {Exit_idle, Exit_test, Exit_release}) \<and> (pointer c \<longleftrightarrow> e \<noteq> Exit_done) \<and>
     (there c \<longrightarrow> list_all snd (sent c)))"

definition numbers_ok :: "u32 \<Rightarrow> channel \<Rightarrow> sender list \<Rightarrow> nat \<Rightarrow> bool" where
  "numbers_ok n0 c ts k \<longleftrightarrow> offset n0 (seq c) \<le> k \<and>
     (\<forall>t \<in> set ts. \<forall>n. loaded t = Some n \<longrightarrow> offset n0 n \<le> k) \<and>
     (\<forall>t \<in> set ts. \<forall>n. carries t = Some n \<longrightarrow> offset n0 n < k) \<and>
     (\<forall>m \<in> set (sent c). offset n0 (fst m) < k)"

lemma offset_Suc: "offset n0 (n + 1) \<le> Suc (offset n0 n)"
proof -
  have "n + 1 - n0 = (n - n0) + 1" by simp
  then have "offset n0 (n + 1) = unat ((n - n0) + 1)" by (simp only: offset_def)
  also have "\<dots> \<le> unat (n - n0) + unat (1 :: u32)"
    by (simp only: unat_word_ariths) (rule mod_less_eq_dividend)
  finally show ?thesis by (simp add: offset_def)
qed

lemma numbers_ok_mono: "numbers_ok n0 c ts k \<Longrightarrow> k \<le> k' \<Longrightarrow> numbers_ok n0 c ts k'"
  unfolding numbers_ok_def by (meson le_trans less_le_trans)

text \<open>One access of a sender: what it leaves of the numbers, with one more where it took one.\<close>

lemma numbers_next:
  assumes "next_send l c p = Some (c', p')" and "numbers_ok n0 c ts k" and "(l, p) \<in> set ts"
    and "echo l = Quiet \<longrightarrow> (\<forall>m. p \<noteq> Echo_store m)"
  shows "numbers (l, p) \<le> numbers (l, p')"
    and "numbers_ok n0 c' (ts[i := (l, p')]) (k + (numbers (l, p') - numbers (l, p)))"
proof -
  have load: "offset n0 n \<le> k" if "loaded (l, p) = Some n" for n
    using assms(2,3) that unfolding numbers_ok_def by blast
  have carry: "offset n0 n < k" if "carries (l, p) = Some n" for n
    using assms(2,3) that unfolding numbers_ok_def by blast
  show "numbers (l, p) \<le> numbers (l, p')"
    using assms(1,4) by (cases p) (auto split: if_splits)
  have mono: "numbers_ok n0 c ts (k + (numbers (l, p') - numbers (l, p)))"
    by (rule numbers_ok_mono [OF assms(2)]) simp
  have "offset n0 (seq c') \<le> k + (numbers (l, p') - numbers (l, p)) \<and>
      (\<forall>n. loaded (l, p') = Some n \<longrightarrow> offset n0 n \<le> k + (numbers (l, p') - numbers (l, p))) \<and>
      (\<forall>n. carries (l, p') = Some n \<longrightarrow> offset n0 n < k + (numbers (l, p') - numbers (l, p))) \<and>
      (\<forall>m \<in> set (sent c'). offset n0 (fst m) < k + (numbers (l, p') - numbers (l, p)))"
  proof (cases p)
    case (Store_seq n)
    with load [of n] offset_Suc [of n0 n] mono assms(1) show ?thesis
      by (auto simp: numbers_ok_def)
  next
    case (Echo_store n)
    with load [of n] offset_Suc [of n0 n] mono assms(1,4) show ?thesis
      by (auto simp: numbers_ok_def split: if_splits)
  qed (use carry mono assms(1) in \<open>auto simp: numbers_ok_def split: if_splits\<close>)
  then show "numbers_ok n0 c' (ts[i := (l, p')]) (k + (numbers (l, p') - numbers (l, p)))"
    using mono unfolding numbers_ok_def by (metis set_updateD)
qed

definition ipc_inv :: "u32 \<Rightarrow> ipc_config \<Rightarrow> bool" where
  "ipc_inv n0 s \<longleftrightarrow> lock_ok s \<and> (case s of (c, e, ts) \<Rightarrow> numbers_ok n0 c ts (total_of numbers ts))"

lemma ipc_inv_start: "ipc_inv n0 (ipc_start n0 unload ls)"
proof -
  have "total_of f (map (\<lambda>l. (l, New_buffer)) ls) = 0" if "\<And>l. f (l, New_buffer) = 0" for f
    using that by (induction ls) (simp_all add: total_of_def)
  then show ?thesis
    by (auto simp: ipc_inv_def lock_ok_def numbers_ok_def ipc_start_def offset_def)
qed

lemma lock_ok_step:
  assumes "ipc_step (c, e, ts) s'" and "lock_ok (c, e, ts)"
  shows "lock_ok s'"
  using assms(1)
proof (rule ipc_step_cases)
  fix i l p c' p'
  assume s': "s' = (c', e, ts[i := (l, p')])" and i: "i < length ts" "ts ! i = (l, p)"
    and nx: "next_send l c p = Some (c', p')"
  have sums: "total_of in_mutex (ts[i := (l, p')]) + in_mutex (l, p) = total_of in_mutex ts + in_mutex (l, p')"
    "total_of has_sent (ts[i := (l, p')]) + has_sent (l, p) = total_of has_sent ts + has_sent (l, p')"
    using total_of_update [OF i(1), of _ "(l, p')"] by (simp_all add: i(2))
  have here: "(l, p) \<in> set ts" using i by (metis nth_mem)
  note inv = assms(2) [unfolded lock_ok_def prod.case]
  have held: "total_of in_mutex ts = of_bool (mutex c)" "length (sent c) = total_of has_sent ts"
    "there c \<longrightarrow> list_all snd (sent c)" and store: "\<forall>m. p = Echo_store m \<longrightarrow> echo l \<noteq> Quiet"
    and load: "p = Echo_load \<longrightarrow> echo l \<noteq> Quiet"
    using inv here by blast+
  have own1: "p' = Own_mutex \<longrightarrow> echo l = Echo_waits"
    using nx store by (cases p; cases "echo l") (auto split: if_splits)
  have own2: "p' = Echo_load \<longrightarrow> echo l \<noteq> Quiet"
    using nx by (cases p) (auto split: if_splits)
  have own3: "\<forall>m. p' = Echo_store m \<longrightarrow> echo l \<noteq> Quiet"
    using nx load by (cases p) (auto split: if_splits)
  have one: "total_of in_mutex (ts[i := (l, p')]) = of_bool (mutex c')"
    using nx sums(1) held(1) by (cases p; cases "mutex c") (auto split: if_splits)
  have two: "length (sent c') = total_of has_sent (ts[i := (l, p')])"
    using nx sums(2) held(2) by (cases p) (auto split: if_splits)
  have three: "there c' = there c \<and> pointer c' = pointer c"
    using nx by (cases p) (auto split: if_splits)
  have live: "there c \<longrightarrow> list_all snd (sent c')"
    using nx held(3) by (cases p) (auto split: if_splits)
  have four: "(\<forall>l'. (l', Own_mutex) \<in> set (ts[i := (l, p')]) \<longrightarrow> echo l' = Echo_waits)"
    "(\<forall>l'. (l', Echo_load) \<in> set (ts[i := (l, p')]) \<longrightarrow> echo l' \<noteq> Quiet)"
    "(\<forall>l' m. (l', Echo_store m) \<in> set (ts[i := (l, p')]) \<longrightarrow> echo l' \<noteq> Quiet)"
    using own1 own2 own3 inv by (auto dest!: set_updateD)
  show ?thesis
    unfolding lock_ok_def s' prod.case three [THEN conjunct1] three [THEN conjunct2]
    using one two live four inv by blast
next
  fix c' e'
  assume "s' = (c', e', ts)" and "next_exit c e = Some (c', e')"
  then show ?thesis using assms(2) by (cases e) (auto simp: lock_ok_def split: if_splits)
qed

lemma ipc_inv_step:
  assumes "ipc_step (c, e, ts) s'" and "ipc_inv n0 (c, e, ts)"
  shows "ipc_inv n0 s'"
proof -
  have "lock_ok s'" using lock_ok_step assms by (simp add: ipc_inv_def)
  moreover have "case s' of (c', e', ts') \<Rightarrow> numbers_ok n0 c' ts' (total_of numbers ts')"
    using assms(1)
  proof (rule ipc_step_cases)
    fix i l p c' p'
    assume s': "s' = (c', e, ts[i := (l, p')])" and i: "i < length ts" "ts ! i = (l, p)"
      and nx: "next_send l c p = Some (c', p')"
    have here: "(l, p) \<in> set ts" using i by (metis nth_mem)
    have quiet: "echo l = Quiet \<longrightarrow> (\<forall>m. p \<noteq> Echo_store m)"
      using assms(2) here by (auto simp: ipc_inv_def lock_ok_def)
    have numb: "numbers_ok n0 c ts (total_of numbers ts)" using assms(2) by (simp add: ipc_inv_def)
    note n = numbers_next [OF nx numb here quiet]
    have "total_of numbers (ts[i := (l, p')]) = total_of numbers ts + (numbers (l, p') - numbers (l, p))"
      using total_of_update [OF i(1), of numbers "(l, p')"] n(1)
      by (simp add: i(2))
    then show ?thesis using n(2) [of i] by (simp add: s')
  next
    fix c' e'
    assume "s' = (c', e', ts)" and "next_exit c e = Some (c', e')"
    then show ?thesis using assms(2) by (cases e) (auto simp: ipc_inv_def numbers_ok_def split: if_splits)
  qed
  ultimately show ?thesis by (simp add: ipc_inv_def)
qed

lemma ipc_inv_run: "ipc_step\<^sup>*\<^sup>* s s' \<Longrightarrow> ipc_inv n0 s \<Longrightarrow> ipc_inv n0 s'"
proof (induction rule: rtranclp_induct)
  case (step t u)
  then show ?case using ipc_inv_step by (cases t) blast
qed

subsection \<open>Steps left\<close>

fun steps_left :: "ipc_config \<Rightarrow> nat" where
  "steps_left (c, e, ts) = exit_left e + total_of sends_left ts"

lemma sends_left_next: "next_send l c p = Some (c', p') \<Longrightarrow> sends_left (l, p') < sends_left (l, p)"
  by (cases p) (auto split: if_splits)

lemma ipc_left_step:
  assumes "ipc_step (c, e, ts) s'"
  shows "steps_left s' < steps_left (c, e, ts) \<and> map fst (snd (snd s')) = map fst ts"
  using assms
proof (rule ipc_step_cases)
  fix i l p c' p'
  assume s': "s' = (c', e, ts[i := (l, p')])" and i: "i < length ts" "ts ! i = (l, p)"
    and nx: "next_send l c p = Some (c', p')"
  have "map fst (ts[i := (l, p')]) = map fst ts"
    using i by (simp add: map_update list_update_same_conv)
  with total_of_update [OF i(1), of sends_left "(l, p')"] sends_left_next [OF nx] s' i(2)
  show ?thesis by simp
next
  fix c' e'
  assume "s' = (c', e', ts)" and "next_exit c e = Some (c', e')"
  then show ?thesis by (cases e) (auto split: if_splits)
qed

lemma ipc_left_run:
  "(ipc_step ^^ j) s s' \<Longrightarrow>
     j + steps_left s' \<le> steps_left s \<and> map fst (snd (snd s')) = map fst (snd (snd s))"
proof (induction j arbitrary: s')
  case 0
  then show ?case by simp
next
  case (Suc j)
  then obtain t where "(ipc_step ^^ j) s t" "ipc_step t s'" by auto
  with Suc.IH [of t] ipc_left_step [of "fst t" "fst (snd t)" "snd (snd t)" s'] show ?case by simp
qed

lemma steps_at_start:
  "steps_left (ipc_start n unload ls) = (if unload then 3 else 0) + 10 * length ls"
  "map fst (snd (snd (ipc_start n unload ls))) = ls"
proof -
  have "total_of sends_left (map (\<lambda>l. (l, New_buffer)) ls) = 10 * length ls"
    by (induction ls) (simp_all add: total_of_def)
  then show "steps_left (ipc_start n unload ls) = (if unload then 3 else 0) + 10 * length ls"
    by (simp add: ipc_start_def)
  show "map fst (snd (snd (ipc_start n unload ls))) = ls" by (simp add: ipc_start_def comp_def)
qed

text \<open>The senders and the exit are at their ends and the mutex is free.\<close>

definition all_over :: "ipc_config \<Rightarrow> bool" where
  "all_over s \<longleftrightarrow> (case s of (c, e, ts) \<Rightarrow>
     list_all ended ts \<and> e \<in> {Exit_idle, Exit_done} \<and> \<not> mutex c)"

lemma total_of_pos: "0 < total_of f ts \<Longrightarrow> \<exists>t \<in> set ts. 0 < f t"
  by (induction ts) (auto simp: total_of_def)

lemma total_of_zero: "\<forall>t \<in> set ts. f t = 0 \<Longrightarrow> total_of f ts = 0"
  by (induction ts) (simp_all add: total_of_def)

lemma sender_moves:
  assumes "(l, p) \<in> set ts" and "next_send l c p \<noteq> None"
  shows "\<exists>s. ipc_step (c, e, ts) s"
proof -
  obtain i where "i < length ts" "ts ! i = (l, p)" using assms(1) by (metis in_set_conv_nth)
  with assms(2) show ?thesis by (fastforce intro: sender_accesses)
qed

text \<open>Who is inside the mutex can go on unless it waits for itself; when nobody is, everybody can.\<close>

lemma ipc_goes_on:
  assumes "lock_ok (c, e, ts)"
  shows "all_over (c, e, ts) \<or> (\<exists>s. ipc_step (c, e, ts) s) \<or>
    (mutex c \<and> (\<exists>l. (l, Own_mutex) \<in> set ts \<and> echo l = Echo_waits))"
proof (cases "mutex c")
  case True
  then obtain l p where t: "(l, p) \<in> set ts" "0 < in_mutex (l, p)"
    using total_of_pos [of in_mutex ts] assms by (auto simp: lock_ok_def)
  show ?thesis
  proof (cases "p = Own_mutex")
    case True
    with t(1) assms \<open>mutex c\<close> show ?thesis by (auto simp: lock_ok_def)
  next
    case False
    with t(2) have "next_send l c p \<noteq> None" by (cases p) simp_all
    with sender_moves [OF t(1)] show ?thesis by blast
  qed
next
  case False
  then have "total_of in_mutex ts = 0" using assms by (simp add: lock_ok_def)
  then have out: "in_mutex t = 0" if "t \<in> set ts" for t
    using total_of_member [OF that, of in_mutex] by simp
  show ?thesis
  proof (cases "list_all ended ts")
    case True
    show ?thesis
    proof (cases "e \<in> {Exit_idle, Exit_done}")
      case e: True
      with True False show ?thesis by (simp add: all_over_def)
    next
      case e: False
      then obtain c' e' where "next_exit c e = Some (c', e')" by (cases e) auto
      then show ?thesis using exit_accesses by blast
    qed
  next
    case False
    then obtain l p where t: "(l, p) \<in> set ts" "\<not> ended (l, p)"
      by (auto simp: list_all_iff)
    then have "next_send l c p \<noteq> None"
      using \<open>\<not> mutex c\<close> out [OF t(1)] by (cases p) simp_all
    with sender_moves [OF t(1)] show ?thesis by blast
  qed
qed

lemma ipc_can_end:
  assumes "ipc_inv n0 (c, e, ts)" and "\<forall>l \<in> set (map fst ts). echo l \<noteq> Echo_waits"
  shows "\<exists>s'. ipc_step\<^sup>*\<^sup>* (c, e, ts) s' \<and> all_over s'"
  using assms
proof (induction "steps_left (c, e, ts)" arbitrary: c e ts rule: less_induct)
  case less
  show ?case
  proof (cases "all_over (c, e, ts)")
    case False
    with less.prems ipc_goes_on [of c e ts] obtain s where s: "ipc_step (c, e, ts) s"
      by (force simp: ipc_inv_def)
    obtain c' e' ts' where s': "s = (c', e', ts')" by (metis surj_pair)
    have "steps_left (c', e', ts') < steps_left (c, e, ts)" "map fst ts' = map fst ts"
      using ipc_left_step [OF s] by (simp_all add: s')
    with less.hyps [of c' e' ts'] ipc_inv_step [OF s less.prems(1)] less.prems(2)
    show ?thesis unfolding s' by (metis s s' converse_rtranclp_into_rtranclp)
  qed blast
qed

subsection \<open>A sender alone\<close>

text \<open>Up to \<open>k\<close> accesses of one sender while the others wait.\<close>

fun go :: "nat \<Rightarrow> luck \<Rightarrow> channel \<times> send_phase \<Rightarrow> channel \<times> send_phase" where
  "go 0 l x = x"
| "go (Suc k) l (c, p) = (case next_send l c p of None \<Rightarrow> (c, p) | Some x \<Rightarrow> go k l x)"

lemma go_run:
  assumes "ipc_step\<^sup>*\<^sup>* s (c, e, ts)" and "i < length ts" and "ts ! i = (l, p)" and "go k l (c, p) = (c', p')"
  shows "ipc_step\<^sup>*\<^sup>* s (c', e, ts[i := (l, p')])"
  using assms
proof (induction k l "(c, p)" arbitrary: c p ts rule: go.induct)
  case (1 l)
  then show ?case by (metis go.simps(1) list_update_id prod.inject)
next
  case (2 k l c p)
  show ?case
  proof (cases "next_send l c p")
    case None
    with 2 show ?thesis by (metis go.simps(2) list_update_id option.simps(4) prod.inject)
  next
    case (Some x)
    obtain d q where x: "x = (d, q)" by fastforce
    have "ipc_step (c, e, ts) (d, e, ts[i := (l, q)])"
      using sender_accesses 2(3,4) Some x by blast
    with 2(2) have "ipc_step\<^sup>*\<^sup>* s (d, e, ts[i := (l, q)])" by (rule rtranclp.rtrancl_into_rtrancl)
    from 2(1) [OF Some [unfolded x] this] 2(3,5) Some x show ?thesis by simp
  qed
qed

lemma exit_run:
  assumes "ipc_step\<^sup>*\<^sup>* s (c, e, ts)" and "next_exit c e = Some (c', e')"
  shows "ipc_step\<^sup>*\<^sup>* s (c', e', ts)"
  using assms(1) exit_accesses [OF assms(2)] by (rule rtranclp.rtrancl_into_rtrancl)

text \<open>The luck of a send as the kernel \<open>K\<close> deals it out.\<close>

definition luck_of :: "kenv \<Rightarrow> u16 \<Rightarrow> u8 list \<Rightarrow> u32 \<Rightarrow> 'a nl_state_scheme \<Rightarrow> luck" where
  "luck_of K ty bs portid s =
     (let h1 = klog s @ [Acquire R_skb True];
          h3 = h1 @ [Service (Nlmsg_put portid (uroam_nl_seq s) True), Lock Nl_mutex];
          r = nlmsg_unicast_ret K h3;
          inner = klog (kdo (Unicast ty portid (uroam_nl_seq s) bs r) (s\<lparr>klog := h3\<rparr>)) @
            (if ty = UROAM_NL_MSG_STATS then [Lock State_lock, Unlock State_lock] else [])
      in \<lparr>buffer = nlmsg_new_ok K (klog s), header = nlmsg_put_ok K h1,
          echo = (if portid = 0 \<and> 0 \<le> r \<and> (ty = UROAM_NL_MSG_PRESSURE \<or> ty = UROAM_NL_MSG_STATS) \<and>
                     nlmsg_new_ok K inner
                  then if nlmsg_put_ok K (inner @ [Acquire R_skb True]) then Echo_waits else Echo_fails
                  else Quiet)\<rparr>)"

lemma go_from_start:
  "go 11 l (\<lparr>seq = n, mutex = False, pointer = True, there = True, sent = []\<rparr>, New_buffer) =
     (if \<not> buffer l then (\<lparr>seq = n, mutex = False, pointer = True, there = True, sent = []\<rparr>, No_buffer)
      else if \<not> header l
      then (\<lparr>seq = n + 1, mutex = False, pointer = True, there = True, sent = []\<rparr>, No_header)
      else (\<lparr>seq = (if echo l = Quiet then n + 1 else n + 2), mutex = (echo l = Echo_waits),
               pointer = True, there = True, sent = [(n, True)]\<rparr>,
            if echo l = Echo_waits then Own_mutex else Sent))"
  by (cases "echo l") (simp_all add: eval_nat_numeral)

lemma next_seq_luck:
  assumes "uroam_nl_sock s"
  shows "next_seq K ty bs portid s =
     (let l = luck_of K ty bs portid s
      in if \<not> buffer l then uroam_nl_seq s
         else if \<not> header l \<or> echo l = Quiet then uroam_nl_seq s + 1 else uroam_nl_seq s + 2)"
  using assms
  by (cases "ty = UROAM_NL_MSG_STATS"; cases "portid = 0")
     (simp_all add: luck_of_def next_seq_def payload_def uroam_netlink_send_def
       send_prepared_def delivered_def rcv_inside_def nl_type_defs Let_def)

lemma unicasts_luck:
  assumes "uroam_nl_sock s"
  shows "unicasts (snd (send_calls K ty bs portid s)) =
    (if buffer (luck_of K ty bs portid s) \<and> header (luck_of K ty bs portid s) then [(ty, portid, bs)] else [])"
  using assms by (simp add: luck_of_def send_calls_def Let_def)

lemma waits_luck:
  assumes "uroam_nl_sock s"
  shows "self_wait [] (whole (snd (send_calls K ty bs portid s))) = Some Nl_mutex \<longleftrightarrow>
    buffer (luck_of K ty bs portid s) \<and> header (luck_of K ty bs portid s) \<and>
    echo (luck_of K ty bs portid s) = Echo_waits"
  using assms
  by (cases "ty = UROAM_NL_MSG_STATS"; cases "portid = 0")
     (simp_all add: luck_of_def send_calls_def echo_calls_def nl_type_defs Let_def)

text \<open>Undisturbed, the accesses amount to \<open>uroam_netlink_send\<close> as \<open>Kernel_Ipc\<close> has it: the same number
  is next, the same message was handed over, and the sender is left at its own mutex when its
  calls wait for it.\<close>

lemma alone_is_netlink_send:
  assumes "uroam_nl_sock s" and l: "l = luck_of K ty bs portid s"
  shows "\<exists>p. ipc_step\<^sup>*\<^sup>* (ipc_start (uroam_nl_seq s) False [l])
      (\<lparr>seq = next_seq K ty bs portid s, mutex = (p = Own_mutex), pointer = True, there = True,
         sent = map (\<lambda>u. (uroam_nl_seq s, True)) (unicasts (snd (send_calls K ty bs portid s)))\<rparr>,
       Exit_idle, [(l, p)]) \<and>
    (p = Own_mutex \<longleftrightarrow> self_wait [] (whole (snd (send_calls K ty bs portid s))) = Some Nl_mutex)"
proof -
  let ?n = "uroam_nl_seq s"
  let ?c = "\<lparr>seq = ?n, mutex = False, pointer = True, there = True, sent = []\<rparr>"
  have "ipc_step\<^sup>*\<^sup>* (ipc_start ?n False [l]) (?c, Exit_idle, [(l, New_buffer)])"
    by (simp add: ipc_start_def)
  note run = go_run [OF this, of 0 l New_buffer 11, unfolded go_from_start]
  show ?thesis
    unfolding next_seq_luck [OF assms(1)] unicasts_luck [OF assms(1)] waits_luck [OF assms(1)]
      l [symmetric] Let_def
    using run
    by (intro exI [of _ "if \<not> buffer l then No_buffer else if \<not> header l then No_header
          else if echo l = Echo_waits then Own_mutex else Sent"])
       (cases "buffer l"; cases "header l"; cases "echo l"; simp)
qed

subsection \<open>Properties\<close>


text \<open>A sender that everything is granted to and whose message is not answered, and one that is.\<close>

abbreviation plain_send :: luck where
  "plain_send \<equiv> \<lparr>buffer = True, header = True, echo = Quiet\<rparr>"

abbreviation echo_send :: luck where
  "echo_send \<equiv> \<lparr>buffer = True, header = True, echo = Echo_waits\<rparr>"

abbreviation open_channel :: "u32 \<Rightarrow> channel" where
  "open_channel n \<equiv> \<lparr>seq = n, mutex = False, pointer = True, there = True, sent = []\<rparr>"


text \<open>The numbers do not identify messages nor their order. Two senders at once can hand over two
  messages with one number; and they can hand over the message with the later number first, since
  the number is taken before the mutex.\<close>

theorem netlink_numbers_repeat:
  "(\<exists>c. ipc_step\<^sup>*\<^sup>* (ipc_start n False [plain_send, plain_send])
      (c, Exit_idle, [(plain_send, Sent), (plain_send, Sent)]) \<and> sent c = [(n, True), (n, True)]) \<and>
   (\<exists>c. ipc_step\<^sup>*\<^sup>* (ipc_start n False [plain_send, plain_send])
      (c, Exit_idle, [(plain_send, Sent), (plain_send, Sent)]) \<and> sent c = [(n + 1, True), (n, True)])"
proof
  let ?s = "ipc_start n False [plain_send, plain_send]"
  have start: "ipc_step\<^sup>*\<^sup>* ?s (open_channel n, Exit_idle, [(plain_send, New_buffer), (plain_send, New_buffer)])"
    by (simp add: ipc_start_def)
  from go_run [OF start, of 0 plain_send New_buffer 2]
  have one: "ipc_step\<^sup>*\<^sup>* ?s (open_channel n, Exit_idle, [(plain_send, Store_seq n), (plain_send, New_buffer)])"
    by (simp add: eval_nat_numeral)
  from go_run [OF one, of 1 plain_send New_buffer 2]
  have "ipc_step\<^sup>*\<^sup>* ?s (open_channel n, Exit_idle, [(plain_send, Store_seq n), (plain_send, Store_seq n)])"
    by (simp add: eval_nat_numeral)
  from go_run [OF this, of 0 plain_send "Store_seq n" 9]
  have "ipc_step\<^sup>*\<^sup>* ?s ((open_channel n)\<lparr>seq := n + 1, sent := [(n, True)]\<rparr>, Exit_idle,
      [(plain_send, Sent), (plain_send, Store_seq n)])"
    by (simp add: eval_nat_numeral)
  from go_run [OF this, of 1 plain_send "Store_seq n" 9]
  have "ipc_step\<^sup>*\<^sup>* ?s ((open_channel n)\<lparr>seq := n + 1, sent := [(n, True), (n, True)]\<rparr>, Exit_idle,
      [(plain_send, Sent), (plain_send, Sent)])"
    by (simp add: eval_nat_numeral)
  then show "\<exists>c. ipc_step\<^sup>*\<^sup>* ?s (c, Exit_idle, [(plain_send, Sent), (plain_send, Sent)]) \<and>
      sent c = [(n, True), (n, True)]" by fastforce
  from go_run [OF one, of 0 plain_send "Store_seq n" 2]
  have "ipc_step\<^sup>*\<^sup>* ?s ((open_channel n)\<lparr>seq := n + 1\<rparr>, Exit_idle,
      [(plain_send, Take_mutex n), (plain_send, New_buffer)])"
    by (simp add: eval_nat_numeral)
  from go_run [OF this, of 1 plain_send New_buffer 9]
  have "ipc_step\<^sup>*\<^sup>* ?s ((open_channel n)\<lparr>seq := n + 1 + 1, sent := [(n + 1, True)]\<rparr>, Exit_idle,
      [(plain_send, Take_mutex n), (plain_send, Sent)])"
    by (simp add: eval_nat_numeral)
  from go_run [OF this, of 0 plain_send "Take_mutex n" 9]
  have "ipc_step\<^sup>*\<^sup>* ?s ((open_channel n)\<lparr>seq := n + 1 + 1, sent := [(n + 1, True), (n, True)]\<rparr>, Exit_idle,
      [(plain_send, Sent), (plain_send, Sent)])"
    by (simp add: eval_nat_numeral)
  then show "\<exists>c. ipc_step\<^sup>*\<^sup>* ?s (c, Exit_idle, [(plain_send, Sent), (plain_send, Sent)]) \<and>
      sent c = [(n + 1, True), (n, True)]" by fastforce
qed

end
