(* ===== verification/Ipc_Exit.thy ===== *)
theory Ipc_Exit
  imports Ipc_Race
begin

section \<open>What the missing mutex of the exit allows, and what it does not: kernel/ipc.c\<close>

text \<open>
  \<open>uroam_netlink_exit\<close> does not take \<open>uroam_nl_mutex\<close>. A query from user space is handled by the
  process that sends it, and \<open>uroam_notify_pressure\<close> is exported, so both can be under way when
  the module is unloaded. The runs are those of \<open>Ipc_Race\<close> with the exit coming.
\<close>

subsection \<open>After the exit\<close>

fun about_to_use :: "sender \<Rightarrow> nat" where
  "about_to_use (l, Unicast_it n) = 1"
| "about_to_use t = 0"

lemma about_to_use_inside: "total_of about_to_use ts \<le> total_of in_mutex ts"
  unfolding total_of_def
proof (rule sum_list_mono)
  fix t
  show "about_to_use t \<le> in_mutex t" by (cases t rule: about_to_use.cases) simp_all
qed

text \<open>Every message handed over after the exit was about to be when the exit returned.\<close>

lemma after_exit_step:
  assumes "ipc_step (c, Exit_done, ts) s'" and "\<not> pointer c"
  shows "case s' of (c', e', ts') \<Rightarrow> e' = Exit_done \<and> \<not> pointer c' \<and>
    length (sent c') + total_of about_to_use ts' = length (sent c) + total_of about_to_use ts"
  using assms(1)
proof (rule ipc_step_cases)
  fix i l p c' p'
  assume s': "s' = (c', Exit_done, ts[i := (l, p')])" and i: "i < length ts" "ts ! i = (l, p)"
    and nx: "next_send l c p = Some (c', p')"
  with assms(2) total_of_update [OF i(1), of about_to_use "(l, p')"] show ?thesis
    by (cases p) (auto split: if_splits)
qed simp

lemma after_exit_run:
  assumes "ipc_step\<^sup>*\<^sup>* (c, Exit_done, ts) s'" and "\<not> pointer c"
  shows "case s' of (c', e', ts') \<Rightarrow> e' = Exit_done \<and> \<not> pointer c' \<and>
    length (sent c') + total_of about_to_use ts' = length (sent c) + total_of about_to_use ts"
  using assms(1)
proof (induction rule: rtranclp_induct)
  case base
  then show ?case using assms(2) by simp
next
  case (step t u)
  then show ?case using after_exit_step [of "fst t" "snd (snd t)" u] by (cases t) auto
qed

text \<open>An exit that is coming stays one.\<close>

lemma exit_comes:
  assumes "ipc_step\<^sup>*\<^sup>* s s'" and "fst (snd s) \<noteq> Exit_idle"
  shows "fst (snd s') \<noteq> Exit_idle"
  using assms(1)
proof (induction rule: rtranclp_induct)
  case base
  then show ?case by (rule assms(2))
next
  case (step t u)
  obtain c e ts where t: "t = (c, e, ts)" by (metis surj_pair)
  from step show ?case
    unfolding t by (elim ipc_step_cases; cases e) (auto split: if_splits)
qed

text \<open>Undisturbed, the accesses of the exit amount to \<open>uroam_netlink_exit\<close> as \<open>Kernel_Ipc\<close> has it.\<close>

lemma alone_is_netlink_exit:
  assumes "uroam_nl_sock s" and "Release R_nlsock \<notin> set (klog s)"
  shows "ipc_step\<^sup>*\<^sup>* (ipc_start n True [])
      ((open_channel n)\<lparr>pointer := uroam_nl_sock (uroam_netlink_exit s),
         there := (Release R_nlsock \<notin> set (klog (uroam_netlink_exit s)))\<rparr>, Exit_done, [])"
proof -
  let ?c = "\<lambda>p t. (open_channel n)\<lparr>pointer := p, there := t\<rparr>"
  have "ipc_step\<^sup>*\<^sup>* (ipc_start n True []) (?c True True, Exit_test, [])" by (simp add: ipc_start_def)
  from exit_run [OF this] have "ipc_step\<^sup>*\<^sup>* (ipc_start n True []) (?c True True, Exit_release, [])" by simp
  from exit_run [OF this] have "ipc_step\<^sup>*\<^sup>* (ipc_start n True []) (?c True False, Exit_clear, [])" by simp
  from exit_run [OF this] have "ipc_step\<^sup>*\<^sup>* (ipc_start n True []) (?c False False, Exit_done, [])" by simp
  then show ?thesis using assms by (simp add: uroam_netlink_exit_def)
qed

subsection \<open>Properties\<close>

text \<open>A message can be handed to the socket after it was released, also when the exit has returned.\<close>

lemma late_message:
  "ipc_step\<^sup>*\<^sup>* (ipc_start n True [plain_send])
     ((open_channel n)\<lparr>seq := n + 1, pointer := False, there := False, sent := [(n, False)]\<rparr>,
      Exit_done, [(plain_send, Sent)])"
proof -
  let ?s = "ipc_start n True [plain_send]"
  have "ipc_step\<^sup>*\<^sup>* ?s (open_channel n, Exit_test, [(plain_send, New_buffer)])"
    by (simp add: ipc_start_def)
  from go_run [OF this, of 0 plain_send New_buffer 6]
  have "ipc_step\<^sup>*\<^sup>* ?s ((open_channel n)\<lparr>seq := n + 1, mutex := True\<rparr>, Exit_test, [(plain_send, Unicast_it n)])"
    by (simp add: eval_nat_numeral)
  from exit_run [OF this]
  have "ipc_step\<^sup>*\<^sup>* ?s ((open_channel n)\<lparr>seq := n + 1, mutex := True\<rparr>, Exit_release, [(plain_send, Unicast_it n)])"
    by simp
  from exit_run [OF this]
  have "ipc_step\<^sup>*\<^sup>* ?s ((open_channel n)\<lparr>seq := n + 1, mutex := True, there := False\<rparr>, Exit_clear,
      [(plain_send, Unicast_it n)])"
    by simp
  from exit_run [OF this]
  have "ipc_step\<^sup>*\<^sup>* ?s ((open_channel n)\<lparr>seq := n + 1, mutex := True, pointer := False, there := False\<rparr>, Exit_done,
      [(plain_send, Unicast_it n)])"
    by simp
  from go_run [OF this, of 0 plain_send "Unicast_it n" 2] show ?thesis
    by (simp add: eval_nat_numeral)
qed

theorem netlink_exit_race:
  "\<exists>c. ipc_step\<^sup>*\<^sup>* (ipc_start n True [plain_send]) (c, Exit_done, [(plain_send, Sent)]) \<and>
     sent c = [(n, False)]"
  using late_message by fastforce



end
