(* ===== verification/Hooks_Race.thy ===== *)
theory Hooks_Race
  imports Kernel_Hooks
begin

section \<open>Hooked calls on several processors: kernel/hooks.c and kernel/main.c\<close>

text \<open>
  \<open>Kernel_Hooks\<close> takes a hooked call as one operation. Here the two counters a hooked \<open>mmap\<close>
  updates are followed through the calls of several processors, one memory access at a time: the
  byte counter is loaded and stored without a lock, the allocation counter under the lock of the
  global state, and both only when the call was granted and the module is found enabled. The
  relation \<open>race_step\<close> lets any processor perform its next access, and lets the module be switched
  on and off at any time. A call is its length and what the original \<open>mmap\<close> returned.
\<close>

subsection \<open>The accesses of one call\<close>

record counters =
  bytes :: u64
  allocs :: u64
  locked :: bool
  switched_on :: bool
  was_off :: bool

text \<open>
  Where a processor is in \<open>uroam_hooked_mmap\<close> behind the original call: the test of the call's
  result and of the enabled flag, the two accesses of \<open>total_mmap_bytes += len\<close>, and those of
  \<open>uroam_record_allocation\<close>; a call that has returned has been counted or not. \<open>was_off\<close> is a
  ghost: the module has been off at some moment.
\<close>

datatype phase =
    Test_call | Load_bytes | Store_bytes u64
  | Take_lock | Load_allocs | Store_allocs u64 | Drop_lock | Returned bool

type_synonym mmap_call = "u64 \<times> int"

type_synonym race_config = "counters \<times> (mmap_call \<times> phase) list"

fun next_access :: "counters \<Rightarrow> mmap_call \<Rightarrow> phase \<Rightarrow> (counters \<times> phase) option" where
  "next_access s x Test_call =
     Some (s, if 0 \<le> snd x \<and> switched_on s then Load_bytes else Returned False)"
| "next_access s x Load_bytes = Some (s, Store_bytes (bytes s))"
| "next_access s x (Store_bytes v) = Some (s\<lparr>bytes := v + fst x\<rparr>, Take_lock)"
| "next_access s x Take_lock =
     (if locked s then None else Some (s\<lparr>locked := True\<rparr>, Load_allocs))"
| "next_access s x Load_allocs = Some (s, Store_allocs (allocs s))"
| "next_access s x (Store_allocs v) = Some (s\<lparr>allocs := v + 1\<rparr>, Drop_lock)"
| "next_access s x Drop_lock = Some (s\<lparr>locked := False\<rparr>, Returned True)"
| "next_access s x (Returned b) = None"

inductive race_step :: "race_config \<Rightarrow> race_config \<Rightarrow> bool" where
  processor_accesses:
    "i < length ts \<Longrightarrow> ts ! i = (x, p) \<Longrightarrow> next_access s x p = Some (s', p') \<Longrightarrow>
     race_step (s, ts) (s', ts[i := (x, p')])"
| switches:
    "race_step (s, ts) (s\<lparr>switched_on := b, was_off := (was_off s \<or> \<not> b)\<rparr>, ts)"

inductive_cases race_step_cases: "race_step (s, ts) (s', ts')"

definition race_start :: "u64 \<Rightarrow> u64 \<Rightarrow> bool \<Rightarrow> mmap_call list \<Rightarrow> race_config" where
  "race_start b a sw calls =
     (\<lparr>bytes = b, allocs = a, locked = False, switched_on = sw, was_off = (\<not> sw)\<rparr>,
      map (\<lambda>x. (x, Test_call)) calls)"

definition all_returned :: "(mmap_call \<times> phase) list \<Rightarrow> bool" where
  "all_returned ts \<longleftrightarrow> list_all (\<lambda>t. snd t = Returned True \<or> snd t = Returned False) ts"

text \<open>The calls that have been counted.\<close>

definition calls_counted :: "(mmap_call \<times> phase) list \<Rightarrow> mmap_call list" where
  "calls_counted ts = map fst (filter (\<lambda>t. snd t = Returned True) ts)"

subsection \<open>Where the processors are\<close>

fun inside :: "mmap_call \<times> phase \<Rightarrow> nat" where
  "inside (x, Load_allocs) = 1"
| "inside (x, Store_allocs v) = 1"
| "inside (x, Drop_lock) = 1"
| "inside t = 0"

fun recorded :: "mmap_call \<times> phase \<Rightarrow> nat" where
  "recorded (x, Drop_lock) = 1"
| "recorded (x, Returned True) = 1"
| "recorded t = 0"

fun stored :: "mmap_call \<times> phase \<Rightarrow> nat" where
  "stored (x, Test_call) = 0"
| "stored (x, Load_bytes) = 0"
| "stored (x, Store_bytes v) = 0"
| "stored (x, Returned False) = 0"
| "stored (x, p) = unat (fst x)"

fun accesses_left :: "mmap_call \<times> phase \<Rightarrow> nat" where
  "accesses_left (x, Test_call) = 7"
| "accesses_left (x, Load_bytes) = 6"
| "accesses_left (x, Store_bytes v) = 5"
| "accesses_left (x, Take_lock) = 4"
| "accesses_left (x, Load_allocs) = 3"
| "accesses_left (x, Store_allocs v) = 2"
| "accesses_left (x, Drop_lock) = 1"
| "accesses_left (x, Returned b) = 0"

text \<open>What a phase says of the call's test: a call past it was granted, and one that was granted
  and not counted found the module off.\<close>

fun passed_test :: "bool \<Rightarrow> mmap_call \<times> phase \<Rightarrow> bool" where
  "passed_test off (x, Test_call) = True"
| "passed_test off (x, Returned False) = (0 \<le> snd x \<longrightarrow> off)"
| "passed_test off (x, p) = (0 \<le> snd x)"

subsection \<open>The invariant\<close>

text \<open>
  At most one processor is inside the lock; the allocation counter counts the calls that have
  recorded, and a value loaded inside the lock is still current; the byte counter, and every value
  of it some processor is about to add to, is at most what the calls before it have stored.
\<close>

definition lock_inv :: "u64 \<Rightarrow> race_config \<Rightarrow> bool" where
  "lock_inv a c \<longleftrightarrow>
     total_of inside (snd c) = of_bool (locked (fst c)) \<and>
     allocs (fst c) = a + of_nat (total_of recorded (snd c)) \<and>
     (\<forall>t\<in>set (snd c). \<forall>v. snd t = Store_allocs v \<longrightarrow> v = allocs (fst c))"

definition bytes_inv :: "u64 \<Rightarrow> race_config \<Rightarrow> bool" where
  "bytes_inv b c \<longleftrightarrow>
     unat (bytes (fst c)) \<le> unat b + total_of stored (snd c) \<and>
     (\<forall>t\<in>set (snd c). \<forall>v. snd t = Store_bytes v \<longrightarrow> unat v \<le> unat b + total_of stored (snd c))"

definition test_inv :: "race_config \<Rightarrow> bool" where
  "test_inv c \<longleftrightarrow> (\<not> switched_on (fst c) \<longrightarrow> was_off (fst c)) \<and>
     (\<forall>t\<in>set (snd c). passed_test (was_off (fst c)) t)"

lemma step_accesses:
  assumes "race_step (s, ts) (s', ts')"
  shows "total_of accesses_left ts' < total_of accesses_left ts \<or> ts' = ts"
  using assms
proof (rule race_step_cases)
  fix i x p p'
  assume i: "ts' = ts[i := (x, p')]" "i < length ts" "ts ! i = (x, p)"
    and n: "next_access s x p = Some (s', p')"
  from n have "accesses_left (x, p') < accesses_left (x, p)"
    by (cases p) (auto split: if_splits)
  then show ?thesis
    using total_of_update [OF i(2), of accesses_left "(x, p')"] i by simp
qed simp

lemma passed_test_mono: "passed_test off t \<Longrightarrow> passed_test (off \<or> b) t"
  by (cases "(off, t)" rule: passed_test.cases) auto

lemma step_test_inv:
  assumes "race_step (s, ts) (s', ts')" and inv: "test_inv (s, ts)"
  shows "test_inv (s', ts')"
  using assms(1)
proof (rule race_step_cases)
  fix i x p p'
  assume ts': "ts' = ts[i := (x, p')]" and i: "i < length ts" "ts ! i = (x, p)"
    and n: "next_access s x p = Some (s', p')"
  have "passed_test (was_off s) (x, p)" using inv i by (metis (no_types) fst_conv nth_mem snd_conv test_inv_def)
  then have "passed_test (was_off s') (x, p')" "was_off s' = was_off s" "switched_on s' = switched_on s"
    using n inv by (cases p; auto simp: test_inv_def split: if_splits)+
  then show ?thesis using inv by (auto simp: test_inv_def ts' dest!: set_updateD)
next
  fix b
  assume "s' = s\<lparr>switched_on := b, was_off := was_off s \<or> \<not> b\<rparr>" "ts' = ts"
  then show ?thesis using inv passed_test_mono by (fastforce simp: test_inv_def)
qed

text \<open>Inside the lock there is no other processor.\<close>

lemma alone_inside:
  assumes "total_of inside ts \<le> 1" and "i < length ts" and "inside (ts ! i) = 1"
    and "t \<in> set (ts[i := x])" and "t \<noteq> x"
  shows "inside t = 0"
proof -
  obtain j where j: "j < length ts" "ts[i := x] ! j = t"
    using assms(4) by (auto simp: in_set_conv_nth)
  with assms(5) have "j \<noteq> i" by auto
  then have t: "ts ! j = t" using j by simp
  have "total_of inside (ts[j := ((0, 0), Returned False)]) + inside t = total_of inside ts"
    using total_of_update [OF j(1), of inside "((0, 0), Returned False)"] t by simp
  moreover have "ts ! i \<in> set (ts[j := ((0, 0), Returned False)])"
    using assms(2) \<open>j \<noteq> i\<close> by (metis length_list_update nth_list_update_neq nth_mem)
  from total_of_member [OF this, of inside] have "1 \<le> total_of inside (ts[j := ((0, 0), Returned False)])"
    using assms(3) by simp
  ultimately show ?thesis using assms(1) by simp
qed

text \<open>One access keeps the two parts of the invariant.\<close>

lemma step_lock_inv:
  assumes "race_step (s, ts) (s', ts')" and inv: "lock_inv a (s, ts)"
  shows "lock_inv a (s', ts')"
  using assms(1)
proof (rule race_step_cases)
  fix i x p p'
  assume ts': "ts' = ts[i := (x, p')]" and i: "i < length ts" "ts ! i = (x, p)"
    and n: "next_access s x p = Some (s', p')"
  have sums: "total_of inside ts' + inside (x, p) = total_of inside ts + inside (x, p')"
    "total_of recorded ts' + recorded (x, p) = total_of recorded ts + recorded (x, p')"
    using total_of_update [OF i(1), of _ "(x, p')"] by (simp_all add: ts' i(2))
  have old: "total_of inside ts = of_bool (locked s)" "allocs s = a + of_nat (total_of recorded ts)"
    "\<And>t v. t \<in> set ts \<Longrightarrow> snd t = Store_allocs v \<Longrightarrow> v = allocs s"
    using inv by (auto simp: lock_inv_def)
  have here: "(x, p) \<in> set ts" using i by (metis nth_mem)
  have one: "total_of inside ts \<le> 1" by (simp add: old(1))
  show ?thesis
  proof (cases "\<exists>v. p = Store_allocs v")
    case True
    then obtain v where p: "p = Store_allocs v" by blast
    with here old(3) have "v = allocs s" by fastforce
    moreover have "snd t \<noteq> Store_allocs w" if "t \<in> set ts'" for t w
      using alone_inside [OF one i(1), of t "(x, p')"] that n i p by (cases t) (auto simp: ts')
    ultimately show ?thesis
      using n p sums old(1,2) by (auto simp: lock_inv_def)
  next
    case False
    have "v = allocs s" if "t \<in> set ts'" "snd t = Store_allocs v" for t v
    proof (cases "t \<in> set ts")
      case True
      then show ?thesis using that(2) by (rule old(3))
    next
      case False
      then have "t = (x, p')" using that(1) set_updateD by (metis ts')
      then show ?thesis using that(2) n by (cases p) (auto split: if_splits)
    qed
    then show ?thesis
      using n False sums old(1,2)
      by (cases p; cases "locked s") (auto simp: lock_inv_def split: if_splits)
  qed
qed (use inv in \<open>auto simp: lock_inv_def\<close>)

lemma unat_add_le: "unat (v + w :: u64) \<le> unat v + unat w"
  by (simp add: unat_word_ariths)

lemma step_bytes_inv:
  assumes "race_step (s, ts) (s', ts')" and inv: "bytes_inv b (s, ts)"
  shows "bytes_inv b (s', ts')"
  using assms(1)
proof (rule race_step_cases)
  fix i x p p'
  assume ts': "ts' = ts[i := (x, p')]" and i: "i < length ts" "ts ! i = (x, p)"
    and n: "next_access s x p = Some (s', p')"
  have sums: "total_of stored ts' + stored (x, p) = total_of stored ts + stored (x, p')"
    using total_of_update [OF i(1), of stored "(x, p')"] by (simp add: ts' i(2))
  have old: "unat (bytes s) \<le> unat b + total_of stored ts"
    "\<And>t v. t \<in> set ts \<Longrightarrow> snd t = Store_bytes v \<Longrightarrow> unat v \<le> unat b + total_of stored ts"
    using inv by (auto simp: bytes_inv_def)
  have here: "(x, p) \<in> set ts" using i by (metis nth_mem)
  have more: "total_of stored ts' = total_of stored ts + (case p of Store_bytes v \<Rightarrow> unat (fst x) | _ \<Rightarrow> 0)"
    using n sums by (cases p) (auto split: if_splits)
  have "unat (bytes s') \<le> unat b + total_of stored ts'"
  proof (cases p)
    case (Store_bytes v)
    then have "unat v \<le> unat b + total_of stored ts" using here old(2) by fastforce
    then show ?thesis using n Store_bytes more unat_add_le [of v "fst x"] by auto
  qed (use n more old(1) in \<open>auto split: if_splits\<close>)
  moreover have "unat v \<le> unat b + total_of stored ts'" if "t \<in> set ts'" "snd t = Store_bytes v" for t v
    using set_updateD [of t ts i "(x, p')"] that old more n
    by (cases p) (fastforce simp: ts' split: if_splits)+
  ultimately show ?thesis by (simp add: bytes_inv_def)
qed (use inv in \<open>simp add: bytes_inv_def\<close>)

subsection \<open>Progress\<close>

lemma none_left: "total_of accesses_left ts = 0 \<Longrightarrow> all_returned ts"
proof (induction ts)
  case (Cons t ts)
  then show ?case by (cases t rule: accesses_left.cases) (simp_all add: total_of_def all_returned_def)
qed (simp add: all_returned_def)

lemma can_move:
  assumes "t \<in> set ts" and "next_access s (fst t) (snd t) \<noteq> None"
  shows "\<exists>s' ts'. race_step (s, ts) (s', ts') \<and> total_of accesses_left ts' < total_of accesses_left ts"
proof -
  from assms(1) obtain i where i: "i < length ts" "ts ! i = (fst t, snd t)"
    by (metis in_set_conv_nth surjective_pairing)
  obtain s' p' where n: "next_access s (fst t) (snd t) = Some (s', p')" using assms(2) by auto
  have "accesses_left (fst t, p') < accesses_left (fst t, snd t)"
    using n by (cases "snd t") (auto split: if_splits)
  then show ?thesis
    using processor_accesses [OF i n] total_of_update [OF i(1), of accesses_left "(fst t, p')"] i(2)
    by fastforce
qed

text \<open>The processor inside the lock can always go on; if there is none, any other can.\<close>

lemma some_moves:
  assumes "lock_inv a (s, ts)"
  shows "all_returned ts \<or> (\<exists>s' ts'. race_step (s, ts) (s', ts') \<and>
    total_of accesses_left ts' < total_of accesses_left ts)"
proof (cases "total_of accesses_left ts = 0")
  case True
  then show ?thesis using none_left by blast
next
  case left: False
  show ?thesis
  proof (cases "locked s")
    case True
    then have "total_of inside ts \<noteq> 0" using assms(1) by (simp add: lock_inv_def)
    then obtain t where t: "t \<in> set ts" "inside t \<noteq> 0" by (auto simp: total_of_def)
    from t(2) have "next_access s (fst t) (snd t) \<noteq> None"
      by (cases t rule: inside.cases) simp_all
    with t(1) show ?thesis using can_move by blast
  next
    case False
    from left obtain t where t: "t \<in> set ts" "accesses_left t \<noteq> 0" by (auto simp: total_of_def)
    from t(2) False have "next_access s (fst t) (snd t) \<noteq> None"
      by (cases t rule: accesses_left.cases) simp_all
    with t(1) show ?thesis using can_move by blast
  qed
qed

subsection \<open>What the counters say in the end\<close>

lemma start_inv: "lock_inv a (race_start b a sw calls)" "bytes_inv b (race_start b a sw calls)"
  "test_inv (race_start b a sw calls)"
proof -
  have "total_of f (map (\<lambda>x. (x, Test_call)) calls) = 0" if "\<And>x. f (x, Test_call) = 0" for f
    using that by (induction calls) (simp_all add: total_of_def)
  then show "lock_inv a (race_start b a sw calls)" "bytes_inv b (race_start b a sw calls)"
    "test_inv (race_start b a sw calls)"
    by (auto simp: lock_inv_def bytes_inv_def test_inv_def race_start_def)
qed

lemma reachable_inv:
  assumes "race_step\<^sup>*\<^sup>* (race_start b a sw calls) c"
  shows "lock_inv a c \<and> bytes_inv b c \<and> test_inv c \<and> map fst (snd c) = calls"
  using assms
proof (induction rule: rtranclp_induct)
  case base
  show ?case using start_inv by (simp add: race_start_def comp_def)
next
  case (step c d)
  obtain s ts s' ts' where cd: "c = (s, ts)" "d = (s', ts')" by (metis surj_pair)
  have "map fst ts' = map fst ts"
    using step.hyps(2) unfolding cd
    by (elim race_step_cases) (simp_all add: map_update list_update_same_conv)
  then show ?case
    using step cd step_lock_inv step_bytes_inv step_test_inv by (metis snd_conv)
qed

lemma returned_totals:
  assumes "all_returned ts"
  shows "total_of recorded ts = length (calls_counted ts)"
    "total_of stored ts = sum_list (map (\<lambda>x. unat (fst x)) (calls_counted ts))" "total_of inside ts = 0"
proof -
  have "total_of recorded ts = length (calls_counted ts) \<and>
      total_of stored ts = sum_list (map (\<lambda>x. unat (fst x)) (calls_counted ts)) \<and> total_of inside ts = 0"
    using assms
  proof (induction ts)
    case (Cons t ts)
    then show ?case by (cases t) (auto simp: all_returned_def total_of_def calls_counted_def)
  qed (simp add: total_of_def calls_counted_def)
  then show "total_of recorded ts = length (calls_counted ts)"
    "total_of stored ts = sum_list (map (\<lambda>x. unat (fst x)) (calls_counted ts))" "total_of inside ts = 0" by simp_all
qed

lemma calls_counted_granted:
  assumes "test_inv (s, ts)"
  shows "\<forall>x \<in> set (calls_counted ts). 0 \<le> snd x"
  using assms by (fastforce simp: calls_counted_def test_inv_def)

lemma calls_counted_all:
  assumes "test_inv (s, ts)" and "all_returned ts" and "\<not> was_off s"
  shows "calls_counted ts = filter (\<lambda>x. 0 \<le> snd x) (map fst ts)"
proof -
  have "(snd t = Returned True) = (0 \<le> snd (fst t))" if "t \<in> set ts" for t
  proof -
    have "snd t = Returned True \<or> snd t = Returned False"
      using assms(2) that by (simp add: all_returned_def list_all_iff)
    then obtain c where c: "snd t = Returned c" by blast
    have "passed_test False t" using assms(1,3) that by (simp add: test_inv_def)
    then have "passed_test False (fst t, Returned c)" using c by (metis surjective_pairing)
    with c show ?thesis by (cases c) simp_all
  qed
  then show ?thesis by (simp add: calls_counted_def filter_map comp_def cong: filter_cong)
qed

text \<open>C11: Once any number of concurrent hooked \<open>mmap\<close> calls have returned, whatever the order of
  their accesses and however the module is switched on and off meanwhile, the lock is free; the
  allocation counter has counted exactly the calls that passed the test of the result and of the
  flag, each once; every one of them was granted, and when the module was on all the time they
  are all the granted ones; and the byte counter says at most what they mapped together. As long
  as some call has not returned, some processor can make its next access, and every access
  brings the end nearer.\<close>

theorem concurrent_hooks_counters:
  assumes "race_step\<^sup>*\<^sup>* (race_start b a sw calls) (s, ts)"
  shows "(all_returned ts \<longrightarrow>
      \<not> locked s \<and> allocs s = a + of_nat (length (calls_counted ts)) \<and>
      (\<forall>x \<in> set (calls_counted ts). 0 \<le> snd x) \<and>
      (\<not> was_off s \<longrightarrow> calls_counted ts = filter (\<lambda>x. 0 \<le> snd x) calls) \<and>
      unat (bytes s) \<le> unat b + sum_list (map (\<lambda>x. unat (fst x)) (calls_counted ts))) \<and>
    (all_returned ts \<or> (\<exists>s' ts'. race_step (s, ts) (s', ts') \<and>
       total_of accesses_left ts' < total_of accesses_left ts))"
proof -
  have inv: "lock_inv a (s, ts)" "bytes_inv b (s, ts)" "test_inv (s, ts)" "map fst ts = calls"
    using reachable_inv [OF assms] by simp_all
  have "\<not> locked s \<and> allocs s = a + of_nat (length (calls_counted ts)) \<and>
      (\<forall>x \<in> set (calls_counted ts). 0 \<le> snd x) \<and>
      (\<not> was_off s \<longrightarrow> calls_counted ts = filter (\<lambda>x. 0 \<le> snd x) calls) \<and>
      unat (bytes s) \<le> unat b + sum_list (map (\<lambda>x. unat (fst x)) (calls_counted ts))" if "all_returned ts"
  proof (intro conjI impI)
    show "\<not> locked s" using inv(1) returned_totals(3) [OF that] by (simp add: lock_inv_def)
    show "allocs s = a + of_nat (length (calls_counted ts))"
      using inv(1) returned_totals(1) [OF that] by (simp add: lock_inv_def)
    show "\<forall>x \<in> set (calls_counted ts). 0 \<le> snd x" by (rule calls_counted_granted [OF inv(3)])
    show "calls_counted ts = filter (\<lambda>x. 0 \<le> snd x) calls" if "\<not> was_off s"
      using calls_counted_all [OF inv(3) \<open>all_returned ts\<close> that] inv(4) by simp
    show "unat (bytes s) \<le> unat b + sum_list (map (\<lambda>x. unat (fst x)) (calls_counted ts))"
      using inv(2) returned_totals(2) [OF that] by (simp add: bytes_inv_def)
  qed
  with some_moves [OF inv(1)] show ?thesis by blast
qed

text \<open>The accesses of one processor while the others wait.\<close>

lemma run_access:
  assumes "race_step\<^sup>*\<^sup>* c (s, ts)" and "i < length ts" and "ts ! i = (x, p)"
    and "next_access s x p = Some (s', p')"
  shows "race_step\<^sup>*\<^sup>* c (s', ts[i := (x, p')])"
  using assms(1) processor_accesses [OF assms(2-4)] by (rule rtranclp.rtrancl_into_rtrancl)

lemma run_record:
  assumes "race_step\<^sup>*\<^sup>* c (s, ts)" and "i < length ts" and "ts ! i = ((len, ret), Store_bytes v)" and "\<not> locked s"
  shows "race_step\<^sup>*\<^sup>* c (s\<lparr>bytes := v + len, allocs := allocs s + 1\<rparr>, ts[i := ((len, ret), Returned True)])"
proof -
  note c1 = run_access [OF assms(1-3), unfolded next_access.simps, OF refl]
  note c2 = run_access [OF c1, of i "(len, ret)" Take_lock]
  have "race_step\<^sup>*\<^sup>* c (s\<lparr>bytes := v + len, locked := True\<rparr>, ts[i := ((len, ret), Load_allocs)])"
    using c2 assms(2,4) by simp
  from run_access [OF this, of i "(len, ret)" Load_allocs]
  have "race_step\<^sup>*\<^sup>* c (s\<lparr>bytes := v + len, locked := True\<rparr>, ts[i := ((len, ret), Store_allocs (allocs s))])"
    using assms(2) by simp
  from run_access [OF this, of i "(len, ret)" "Store_allocs (allocs s)"]
  have "race_step\<^sup>*\<^sup>* c (s\<lparr>bytes := v + len, locked := True, allocs := allocs s + 1\<rparr>, ts[i := ((len, ret), Drop_lock)])"
    using assms(2) by simp
  from run_access [OF this, of i "(len, ret)" Drop_lock]
  have "race_step\<^sup>*\<^sup>* c (s\<lparr>bytes := v + len, locked := True, allocs := allocs s + 1, locked := False\<rparr>, ts[i := ((len, ret), Returned True)])"
    using assms(2) by simp
  then show ?thesis using assms(4) by (cases s) simp
qed

lemma run_to_store:
  assumes "race_step\<^sup>*\<^sup>* c (s, ts)" and "i < length ts" and "ts ! i = ((len, ret), Test_call)"
    and "0 \<le> ret" and "switched_on s"
  shows "race_step\<^sup>*\<^sup>* c (s, ts[i := ((len, ret), Store_bytes (bytes s))])"
proof -
  have "race_step\<^sup>*\<^sup>* c (s, ts[i := ((len, ret), Load_bytes)])"
    using run_access [OF assms(1-3)] assms(4,5) by simp
  from run_access [OF this, of i "(len, ret)" Load_bytes] show ?thesis using assms(2) by simp
qed

text \<open>The byte counter can lose a call: for any two lengths there is an order of the accesses of
  two concurrent hooked \<open>mmap\<close> calls after which the allocation counter has counted both and the
  byte counter only the second.\<close>

theorem concurrent_hooks_lose_bytes:
  "\<exists>s ts. race_step\<^sup>*\<^sup>* (race_start b a True [(len1, 0), (len2, 0)]) (s, ts) \<and> all_returned ts \<and>
     allocs s = a + 2 \<and> bytes s = b + len2"
proof -
  let ?c = "race_start b a True [(len1, 0), (len2, 0)]"
  let ?s = "\<lparr>bytes = b, allocs = a, locked = False, switched_on = True, was_off = False\<rparr>"
  have "race_step\<^sup>*\<^sup>* ?c (?s, [((len1, 0), Test_call), ((len2, 0), Test_call)])"
    by (simp add: race_start_def)
  from run_to_store [OF this, of 0 len1 0]
  have "race_step\<^sup>*\<^sup>* ?c (?s, [((len1, 0), Store_bytes b), ((len2, 0), Test_call)])" by simp
  from run_to_store [OF this, of 1 len2 0]
  have "race_step\<^sup>*\<^sup>* ?c (?s, [((len1, 0), Store_bytes b), ((len2, 0), Store_bytes b)])" by simp
  from run_record [OF this, of 0 len1 0 b]
  have "race_step\<^sup>*\<^sup>* ?c (?s\<lparr>bytes := b + len1, allocs := a + 1\<rparr>,
      [((len1, 0), Returned True), ((len2, 0), Store_bytes b)])"
    by simp
  from run_record [OF this, of 1 len2 0 b]
  have "race_step\<^sup>*\<^sup>* ?c (?s\<lparr>bytes := b + len2, allocs := a + 1 + 1\<rparr>,
      [((len1, 0), Returned True), ((len2, 0), Returned True)])"
    by simp
  then show ?thesis by (fastforce simp: all_returned_def)
qed

theorem concurrent_hooks_counters_witness:
  "\<exists>s ts. race_step\<^sup>*\<^sup>* (race_start 0 5 True [(4096, 0), (8192, - 12)]) (s, ts) \<and> allocs s = 6 \<and>
     calls_counted ts = [(4096, 0)]"
proof -
  let ?c = "race_start 0 5 True [(4096, 0), (8192, - 12)]"
  let ?s = "\<lparr>bytes = 0, allocs = 5, locked = False, switched_on = True, was_off = False\<rparr>"
  have "race_step\<^sup>*\<^sup>* ?c (?s, [((4096, 0), Test_call), ((8192, - 12), Test_call)])"
    by (simp add: race_start_def)
  from run_access [OF this, of 1 "(8192, - 12)" Test_call]
  have "race_step\<^sup>*\<^sup>* ?c (?s, [((4096, 0), Test_call), ((8192, - 12), Returned False)])" by simp
  from run_to_store [OF this, of 0 4096 0]
  have "race_step\<^sup>*\<^sup>* ?c (?s, [((4096, 0), Store_bytes 0), ((8192, - 12), Returned False)])" by simp
  from run_record [OF this, of 0 4096 0 0] have run:
    "race_step\<^sup>*\<^sup>* ?c (?s\<lparr>bytes := 4096, allocs := 6\<rparr>, [((4096, 0), Returned True), ((8192, - 12), Returned False)])"
    by simp
  have "all_returned [((4096, 0), Returned True), ((8192, - 12), Returned False)]"
    by (simp add: all_returned_def)
  with concurrent_hooks_counters [OF run]
  have "calls_counted [((4096, 0), Returned True), ((8192, - 12), Returned False)] = [(4096 :: u64, 0 :: int)]"
    by simp
  with run show ?thesis by (intro exI conjI) (assumption, simp)
qed

subsection \<open>One processor alone\<close>

text \<open>The counters of the module's state while its lock is free.\<close>

definition counters_of :: "'a hooks_state_scheme \<Rightarrow> counters" where
  "counters_of s = \<lparr>bytes = total_mmap_bytes s, allocs = allocation_count s, locked = False,
     switched_on = enabled s, was_off = False\<rparr>"

text \<open>Undisturbed, the accesses amount to the call as \<open>Kernel_Hooks\<close> has it.\<close>

lemma alone_is_sequential:
  assumes "original_sys_mmap s \<noteq> 0"
  shows "\<exists>counts. race_step\<^sup>*\<^sup>* (counters_of s, [((len, ret), Test_call)])
    (counters_of (snd (uroam_hooked_mmap K c ret len s)), [((len, ret), Returned counts)])"
proof (cases "0 \<le> ret \<and> enabled s")
  case True
  let ?c = "(counters_of s, [((len, ret), Test_call)])"
  have "race_step\<^sup>*\<^sup>* ?c ?c" by simp
  from run_to_store [OF this, of 0 len ret]
  have "race_step\<^sup>*\<^sup>* ?c (counters_of s, [((len, ret), Store_bytes (total_mmap_bytes s))])"
    using True by (simp add: counters_of_def)
  from run_record [OF this, of 0 len ret "total_mmap_bytes s"]
  have "race_step\<^sup>*\<^sup>* ?c (counters_of s\<lparr>bytes := total_mmap_bytes s + len, allocs := allocation_count s + 1\<rparr>,
      [((len, ret), Returned True)])"
    by (simp add: counters_of_def)
  then show ?thesis
    using True assms
    by (intro exI [of _ True]) (simp add: counters_of_def uroam_hooked_mmap_def
        uroam_record_alloc_event_def record_allocation_eq Let_def)
next
  case False
  let ?c = "(counters_of s, [((len, ret), Test_call)])"
  have "race_step\<^sup>*\<^sup>* ?c ?c" by simp
  from run_access [OF this, of 0 "(len, ret)" Test_call]
  have "race_step\<^sup>*\<^sup>* ?c (counters_of s, [((len, ret), Returned False)])"
    using False by (auto simp: counters_of_def)
  then show ?thesis
    using False assms
    by (intro exI [of _ False]) (auto simp: uroam_hooked_mmap_def Let_def)
qed

end
