(* ===== verification/Kmod.thy ===== *)
theory Kmod
  imports Seq_Files
begin

section \<open>The scanning kernel module: kmod/uroam_kernel.c\<close>

text \<open>
  The second kernel module: a timer that rearms itself and queues a work item, the work item that
  wakes the kernel's same-page merging and compaction, four sysctl parameters and a status file.
  Whether the kernel grants the four requests of the start is the parameter \<open>kmod_env\<close>. The
  module's life between start and exit is the step relation \<open>kmod_step\<close>: the timer fires, the
  worker runs the item, a parameter is written, same-page merging is switched by somebody else,
  time passes. Time is counted in ticks (\<open>jiffies\<close>), without its wrap-around.
\<close>

subsection \<open>State\<close>

record kmod_env =
  grants_workqueue :: bool
  grants_proc_dir :: bool
  grants_proc_entry :: bool
  grants_sysctl :: bool
  config_lru_gen :: bool
  lru_gen_on :: bool
  hz :: nat

abbreviation KSM_RUN_STOP :: nat where "KSM_RUN_STOP \<equiv> 0"
abbreviation KSM_RUN_MERGE :: nat where "KSM_RUN_MERGE \<equiv> 1"

text \<open>The module's variables, what it holds of the kernel's, and the calls its work has made.\<close>

record kmod_state =
  enable_uroam :: int
  enable_ksm :: int
  enable_compact :: int
  scan_interval_ms :: int
  uroam_wq :: bool
  uroam_scan_work_queued :: bool
  uroam_scan_timer :: "nat option"
  uroam_proc_dir :: bool
  uroam_proc_status :: bool
  uroam_sysctl_header :: bool
  jiffies :: nat
  ksm_run :: nat
  ksm_runs :: nat
  compactions :: nat

definition kmod_boot :: "nat \<Rightarrow> nat \<Rightarrow> kmod_state" where
  "kmod_boot now k = \<lparr>enable_uroam = 1, enable_ksm = 0, enable_compact = 0, scan_interval_ms = 1000,
     uroam_wq = False, uroam_scan_work_queued = False, uroam_scan_timer = None,
     uroam_proc_dir = False, uroam_proc_status = False, uroam_sysctl_header = False,
     jiffies = now, ksm_run = k, ksm_runs = 0, compactions = 0\<rparr>"

text \<open>\<open>msecs_to_jiffies\<close> rounds up to whole ticks.\<close>

definition msecs_to_jiffies :: "kmod_env \<Rightarrow> int \<Rightarrow> nat" where
  "msecs_to_jiffies e ms = (nat ms * hz e + 999) div 1000"

subsection \<open>The work item and the timer\<close>

definition uroam_scan_work_fn :: "kmod_state \<Rightarrow> kmod_state" where
  "uroam_scan_work_fn s =
     (if enable_uroam s = 0 then s
      else
        let s1 = (if enable_ksm s \<noteq> 0 \<and> ksm_run s \<noteq> KSM_RUN_STOP
                  then s\<lparr>ksm_run := KSM_RUN_MERGE, ksm_runs := ksm_runs s + 1\<rparr> else s)
        in if enable_compact s1 \<noteq> 0 then s1\<lparr>compactions := compactions s1 + 1\<rparr> else s1)"

definition uroam_scan_timer_fn :: "kmod_env \<Rightarrow> kmod_state \<Rightarrow> kmod_state" where
  "uroam_scan_timer_fn e s =
     (let s1 = s\<lparr>uroam_scan_work_queued := True\<rparr>
      in s1\<lparr>uroam_scan_timer := Some (jiffies s1 + msecs_to_jiffies e (scan_interval_ms s1))\<rparr>)"

text \<open>A worker takes the item off the queue before it runs it.\<close>

definition run_queued_work :: "kmod_state \<Rightarrow> kmod_state" where
  "run_queued_work s =
     (if uroam_scan_work_queued s then uroam_scan_work_fn (s\<lparr>uroam_scan_work_queued := False\<rparr>) else s)"

subsection \<open>Status and parameters\<close>

definition uroam_mglru_enabled :: "kmod_env \<Rightarrow> bool" where
  "uroam_mglru_enabled e \<longleftrightarrow> config_lru_gen e \<and> lru_gen_on e"

definition uroam_show_kmod :: "kmod_env \<Rightarrow> nat \<Rightarrow> nat \<Rightarrow> nat \<Rightarrow> kmod_state \<Rightarrow> string list" where
  "uroam_show_kmod e freeram totalswap freeswap s =
     [if config_lru_gen e then (if uroam_mglru_enabled e then ''MGLRU: enabled'' else ''MGLRU: disabled'')
      else ''MGLRU: not compiled in'',
      ''Version: 1.0.0'',
      ''Enable: '' @ dec_int (enable_uroam s),
      ''KSM: '' @ dec_int (enable_ksm s),
      ''Compact: '' @ dec_int (enable_compact s),
      ''Free pages: '' @ dec_digits freeram,
      ''Total swap: '' @ dec_digits totalswap,
      ''Free swap: '' @ dec_digits freeswap]"

text \<open>The status file is registered with this function as what prints it.\<close>

datatype kmod_show = Uroam_show

definition uroam_open_kmod :: "('f \<Rightarrow> kmod_show \<Rightarrow> int \<times> 'f) \<Rightarrow> 'f \<Rightarrow> int \<times> 'f" where
  "uroam_open_kmod single_open file = single_open file Uroam_show"

definition uroam_proc_ops_kmod :: "('f \<Rightarrow> kmod_show \<Rightarrow> int \<times> 'f) \<Rightarrow> 'f proc_ops" where
  "uroam_proc_ops_kmod single_open =
     \<lparr>proc_open = uroam_open_kmod single_open, proc_read = Seq_read,
      proc_lseek = Seq_lseek, proc_release = Single_release\<rparr>"

lemma kmod_file_prints:
  assumes "prints_what_was_opened single_open printer" and "fst (single_open f Uroam_show) = 0"
  shows "read_file (uroam_proc_ops_kmod single_open) printer text f = Inr (text Uroam_show)"
  using assms
  by (auto simp: prints_what_was_opened_def read_file_def uroam_proc_ops_kmod_def uroam_open_kmod_def
      case_prod_beta Let_def)

text \<open>The rows of the table: a parameter takes a number between two bounds.\<close>

datatype kmod_param = Enable_uroam | Enable_ksm | Enable_compact | Scan_interval_ms

fun uroam_sysctl_table :: "kmod_param \<Rightarrow> int \<times> int" where
  "uroam_sysctl_table Enable_uroam = (0, 1)"
| "uroam_sysctl_table Enable_ksm = (0, 1)"
| "uroam_sysctl_table Enable_compact = (0, 1)"
| "uroam_sysctl_table Scan_interval_ms = (100, 60000)"

text \<open>The directory of the table: its name, its mode (0555) and the table.\<close>

definition uroam_root_table :: "string \<times> nat \<times> (kmod_param \<Rightarrow> int \<times> int)" where
  "uroam_root_table = (''uroam'', 365, uroam_sysctl_table)"

fun store_param :: "kmod_param \<Rightarrow> int \<Rightarrow> kmod_state \<Rightarrow> kmod_state" where
  "store_param Enable_uroam v s = s\<lparr>enable_uroam := v\<rparr>"
| "store_param Enable_ksm v s = s\<lparr>enable_ksm := v\<rparr>"
| "store_param Enable_compact v s = s\<lparr>enable_compact := v\<rparr>"
| "store_param Scan_interval_ms v s = s\<lparr>scan_interval_ms := v\<rparr>"

text \<open>\<open>proc_dointvec_minmax\<close> stores a number inside the bounds and refuses any other.\<close>

definition write_param :: "kmod_param \<Rightarrow> int \<Rightarrow> kmod_state \<Rightarrow> kmod_state" where
  "write_param p v s =
     (if fst (uroam_sysctl_table p) \<le> v \<and> v \<le> snd (uroam_sysctl_table p) then store_param p v s else s)"

subsection \<open>Start and exit\<close>

text \<open>The labels of the start that give back what was obtained.\<close>

definition err_proc :: "kmod_state \<Rightarrow> kmod_state" where
  "err_proc s = s\<lparr>uroam_wq := False\<rparr>"

definition err_entry :: "kmod_state \<Rightarrow> kmod_state" where
  "err_entry s = err_proc (s\<lparr>uroam_proc_dir := False\<rparr>)"

definition err_sysctl :: "kmod_state \<Rightarrow> kmod_state" where
  "err_sysctl s = err_entry (s\<lparr>uroam_proc_status := False\<rparr>)"

definition uroam_init_kmod :: "kmod_env \<Rightarrow> kmod_state \<Rightarrow> int \<times> kmod_state" where
  "uroam_init_kmod e s =
     (if \<not> grants_workqueue e then (- ENOMEM, s)
      else
        let s1 = s\<lparr>uroam_wq := True, uroam_scan_work_queued := False, uroam_scan_timer := None\<rparr>
        in if \<not> grants_proc_dir e then (- ENOMEM, err_proc s1)
           else
             let s2 = s1\<lparr>uroam_proc_dir := True\<rparr>
             in if \<not> grants_proc_entry e then (- ENOMEM, err_entry s2)
                else
                  let s3 = s2\<lparr>uroam_proc_status := True\<rparr>
                  in if \<not> grants_sysctl e then (- ENOMEM, err_sysctl s3)
                     else (0, s3\<lparr>uroam_sysctl_header := True,
                                 uroam_scan_timer := Some (jiffies s3 + msecs_to_jiffies e 5000)\<rparr>))"

text \<open>\<open>flush_workqueue\<close> waits for the queued item, that is, lets the worker run it.\<close>

definition uroam_exit_kmod :: "kmod_state \<Rightarrow> kmod_state" where
  "uroam_exit_kmod s =
     (let s1 = s\<lparr>uroam_scan_timer := None\<rparr>;
          s2 = run_queued_work s1;
          s3 = (if uroam_sysctl_header s2 then s2\<lparr>uroam_sysctl_header := False\<rparr> else s2)
      in s3\<lparr>uroam_proc_status := False, uroam_proc_dir := False, uroam_wq := False\<rparr>)"

text \<open>What is left of the module in the kernel.\<close>

definition kmod_holds_nothing :: "kmod_state \<Rightarrow> bool" where
  "kmod_holds_nothing s \<longleftrightarrow>
     \<not> uroam_wq s \<and> \<not> uroam_scan_work_queued s \<and> uroam_scan_timer s = None \<and>
     \<not> uroam_proc_dir s \<and> \<not> uroam_proc_status s \<and> \<not> uroam_sysctl_header s"

lemmas kmod_init_defs = uroam_init_kmod_def err_proc_def err_entry_def err_sysctl_def kmod_boot_def

text \<open>C30: the start succeeds exactly when the kernel grants its four requests, with the timer armed
  for five seconds later; if it fails, at whichever request, nothing of the module is left.\<close>

theorem kmod_start_or_unwind:
  "let (r, s) = uroam_init_kmod e (kmod_boot now k)
   in if grants_workqueue e \<and> grants_proc_dir e \<and> grants_proc_entry e \<and> grants_sysctl e
      then r = 0 \<and> uroam_wq s \<and> uroam_proc_dir s \<and> uroam_proc_status s \<and> uroam_sysctl_header s \<and>
           uroam_scan_timer s = Some (now + msecs_to_jiffies e 5000) \<and> \<not> uroam_scan_work_queued s
      else r = - ENOMEM \<and> kmod_holds_nothing s"
  by (simp add: kmod_init_defs kmod_holds_nothing_def Let_def)

subsection \<open>The module at work\<close>

inductive kmod_step :: "kmod_env \<Rightarrow> kmod_state \<Rightarrow> kmod_state \<Rightarrow> bool" for e where
  timer_fires:
    "uroam_scan_timer s = Some t \<Longrightarrow> t \<le> jiffies s \<Longrightarrow>
     kmod_step e s (uroam_scan_timer_fn e (s\<lparr>uroam_scan_timer := None\<rparr>))"
| worker_runs: "uroam_scan_work_queued s \<Longrightarrow> kmod_step e s (run_queued_work s)"
| param_written: "uroam_sysctl_header s \<Longrightarrow> kmod_step e s (write_param p v s)"
| ksm_switched: "kmod_step e s (s\<lparr>ksm_run := k\<rparr>)"
| tick: "kmod_step e s (s\<lparr>jiffies := jiffies s + 1\<rparr>)"

inductive_cases kmod_step_cases: "kmod_step e s t"

text \<open>The states a started module reaches.\<close>

inductive kmod_reachable :: "kmod_env \<Rightarrow> kmod_state \<Rightarrow> bool" for e where
  started: "uroam_init_kmod e (kmod_boot now k) = (0, s) \<Longrightarrow> kmod_reachable e s"
| stepped: "kmod_reachable e s \<Longrightarrow> kmod_step e s t \<Longrightarrow> kmod_reachable e t"

text \<open>The invariant: what the start obtained, parameters in their bounds, the timer always armed.\<close>

definition params_ok :: "kmod_state \<Rightarrow> bool" where
  "params_ok s \<longleftrightarrow>
     enable_uroam s \<in> {0..1} \<and> enable_ksm s \<in> {0..1} \<and> enable_compact s \<in> {0..1} \<and>
     scan_interval_ms s \<in> {100..60000}"

definition obtained :: "kmod_state \<Rightarrow> bool" where
  "obtained s \<longleftrightarrow> uroam_wq s \<and> uroam_proc_dir s \<and> uroam_proc_status s \<and> uroam_sysctl_header s"

definition armed :: "kmod_env \<Rightarrow> kmod_state \<Rightarrow> bool" where
  "armed e s \<longleftrightarrow>
     uroam_scan_timer s \<noteq> None \<and> the (uroam_scan_timer s) \<le> jiffies s + msecs_to_jiffies e 60000"

lemmas kmod_inv_defs = params_ok_def obtained_def armed_def

lemma msecs_to_jiffies_mono: "a \<le> b \<Longrightarrow> msecs_to_jiffies e a \<le> msecs_to_jiffies e b"
  unfolding msecs_to_jiffies_def by (intro div_le_mono add_mono mult_le_mono nat_mono order_refl)

text \<open>The work item changes no more than the state of same-page merging and its two counters.\<close>

lemma work_frame [frame_simps]:
  "params_ok (uroam_scan_work_fn s) = params_ok s" "obtained (uroam_scan_work_fn s) = obtained s"
  "armed e (uroam_scan_work_fn s) = armed e s"
  "uroam_scan_work_queued (uroam_scan_work_fn s) = uroam_scan_work_queued s"
  "uroam_scan_timer (uroam_scan_work_fn s) = uroam_scan_timer s"
  by (simp_all add: uroam_scan_work_fn_def kmod_inv_defs Let_def)

lemma run_work_frame [frame_simps]:
  "params_ok (run_queued_work s) = params_ok s" "obtained (run_queued_work s) = obtained s"
  "armed e (run_queued_work s) = armed e s"
  "\<not> uroam_scan_work_queued (run_queued_work s)"
  "uroam_scan_timer (run_queued_work s) = uroam_scan_timer s"
  using work_frame [where s = "s\<lparr>uroam_scan_work_queued := False\<rparr>"]
  by (simp_all add: run_queued_work_def kmod_inv_defs)

lemma write_param_ok:
  "(params_ok s \<longrightarrow> params_ok (write_param p v s)) \<and> obtained (write_param p v s) = obtained s \<and>
   armed e (write_param p v s) = armed e s"
  by (cases p) (simp_all add: write_param_def kmod_inv_defs)

lemma timer_fn_ok:
  assumes "params_ok s"
  shows "params_ok (uroam_scan_timer_fn e (s\<lparr>uroam_scan_timer := None\<rparr>))"
    and "obtained (uroam_scan_timer_fn e (s\<lparr>uroam_scan_timer := None\<rparr>)) = obtained s"
    and "armed e (uroam_scan_timer_fn e (s\<lparr>uroam_scan_timer := None\<rparr>))"
  using assms msecs_to_jiffies_mono [of "scan_interval_ms s" 60000 e]
  by (simp_all add: uroam_scan_timer_fn_def kmod_inv_defs Let_def)

lemma step_ok:
  assumes "kmod_step e s t" and "params_ok s \<and> obtained s \<and> armed e s"
  shows "params_ok t \<and> obtained t \<and> armed e t"
  using assms
proof (cases rule: kmod_step.cases)
  case (ksm_switched k)
  then show ?thesis using assms(2) by (simp add: kmod_inv_defs)
next
  case tick
  then show ?thesis using assms(2) by (auto simp: kmod_inv_defs split: option.splits)
qed (simp_all add: timer_fn_ok write_param_ok frame_simps)

lemma started_ok:
  assumes "uroam_init_kmod e (kmod_boot now k) = (0, s)"
  shows "params_ok s \<and> obtained s \<and> armed e s"
  using assms msecs_to_jiffies_mono [of 5000 60000 e]
  by (auto simp: kmod_init_defs kmod_inv_defs Let_def split: if_splits)

lemma reachable_ok: "kmod_reachable e s \<Longrightarrow> params_ok s \<and> obtained s \<and> armed e s"
  by (induction rule: kmod_reachable.induct) (simp_all add: started_ok step_ok)

text \<open>C29: as long as the module is loaded, whatever is written to its parameters and whenever timer
  and worker run, the parameters stay within their bounds, and the timer is armed, for at most a
  minute ahead; the exit then leaves nothing of the module behind, no timer and no work item
  among it.\<close>

theorem kmod_runs_and_exits:
  assumes "kmod_reachable e s"
  shows "params_ok s \<and> armed e s \<and> kmod_holds_nothing (uroam_exit_kmod s)"
  using reachable_ok [OF assms] run_work_frame [where s = "s\<lparr>uroam_scan_timer := None\<rparr>"]
  by (simp add: kmod_holds_nothing_def uroam_exit_kmod_def Let_def)

definition example_kmod_env :: kmod_env where
  "example_kmod_env = \<lparr>grants_workqueue = True, grants_proc_dir = True, grants_proc_entry = True,
     grants_sysctl = True, config_lru_gen = True, lru_gen_on = True, hz = 250\<rparr>"

definition example_loaded :: kmod_state where
  "example_loaded = snd (uroam_init_kmod example_kmod_env (kmod_boot 0 KSM_RUN_MERGE))"

lemma example_reachable:
  "kmod_reachable example_kmod_env (write_param Enable_ksm 1 example_loaded)"
proof -
  have "uroam_init_kmod example_kmod_env (kmod_boot 0 KSM_RUN_MERGE) = (0, example_loaded)"
    by (simp add: example_loaded_def example_kmod_env_def uroam_init_kmod_def Let_def)
  from kmod_reachable.started [OF this] kmod_step.param_written show ?thesis
    by (rule kmod_reachable.stepped)
       (simp add: example_loaded_def example_kmod_env_def uroam_init_kmod_def Let_def)
qed

theorem kmod_runs_and_exits_witness:
  "kmod_holds_nothing (uroam_exit_kmod (write_param Enable_ksm 1 example_loaded))"
  using kmod_runs_and_exits [OF example_reachable] by simp

text \<open>Same-page merging and compaction are only ever started by the worker, at most once each
  for a queued item, while the module is enabled and the one asked for is switched on; merging
  never while the administrator has stopped it.\<close>

theorem kmod_work_is_bounded:
  assumes "kmod_step e s t"
  shows "ksm_runs t - ksm_runs s \<le>
      (if uroam_scan_work_queued s \<and> \<not> uroam_scan_work_queued t \<and> enable_uroam s \<noteq> 0 \<and>
          enable_ksm s \<noteq> 0 \<and> ksm_run s \<noteq> KSM_RUN_STOP then 1 else 0) \<and>
    compactions t - compactions s \<le>
      (if uroam_scan_work_queued s \<and> \<not> uroam_scan_work_queued t \<and> enable_uroam s \<noteq> 0 \<and>
          enable_compact s \<noteq> 0 then 1 else 0)"
  using assms
proof (cases rule: kmod_step.cases)
  case worker_runs
  then show ?thesis by (simp add: run_queued_work_def uroam_scan_work_fn_def Let_def)
next
  case (param_written p v)
  then show ?thesis by (cases p; simp add: write_param_def)
qed (simp_all add: uroam_scan_timer_fn_def Let_def)

theorem kmod_work_is_bounded_witness:
  "compactions (run_queued_work (example_loaded\<lparr>uroam_scan_work_queued := True\<rparr>)) -
     compactions (example_loaded\<lparr>uroam_scan_work_queued := True\<rparr>) \<le> 0"
proof -
  have "kmod_step example_kmod_env (example_loaded\<lparr>uroam_scan_work_queued := True\<rparr>)
      (run_queued_work (example_loaded\<lparr>uroam_scan_work_queued := True\<rparr>))"
    by (rule kmod_step.worker_runs) simp
  from kmod_work_is_bounded [OF this] show ?thesis
    by (simp add: example_loaded_def example_kmod_env_def kmod_init_defs Let_def)
qed

end
