(* ===== verification/Memopt_Pool.thy ===== *)
theory Memopt_Pool
  imports Uroam_Prelude
begin

section \<open>Memory pools: src/shared/memopt.c\<close>

text \<open>
  A pool hands out the bytes of one mapping from its start to its end and takes nothing back.
  Sizes are \<open>size_t\<close> words and the bound is checked with the wrapping sum of the code.
  \<open>None\<close> is the null pointer. The mapping and the descriptor come from \<open>mmap\<close> and
  \<open>malloc\<close>, whose answers are arguments.
\<close>

record memopt_pool =
  mpl_base :: u64
  mpl_size :: u64
  mpl_used :: u64
  mpl_flags :: u64
  mpl_numa_node :: int

text \<open>\<open>malloc_ok\<close>: did \<open>malloc\<close> return a descriptor? \<open>base\<close>: what \<open>mmap\<close> returned.\<close>

definition memopt_pool_create ::
  "bool \<Rightarrow> u64 option \<Rightarrow> u64 \<Rightarrow> u64 \<Rightarrow> int \<Rightarrow> memopt_pool option" where
  "memopt_pool_create malloc_ok base sz flags numa_node =
     (if \<not> malloc_ok then None
      else case base of
             None \<Rightarrow> None
           | Some b \<Rightarrow> Some \<lparr>mpl_base = b, mpl_size = sz, mpl_used = 0, mpl_flags = flags,
                              mpl_numa_node = numa_node\<rparr>)"

definition memopt_pool_alloc :: "memopt_pool option \<Rightarrow> u64 \<Rightarrow> u64 option \<times> memopt_pool option" where
  "memopt_pool_alloc pool sz =
     (case pool of
        None \<Rightarrow> (None, None)
      | Some p \<Rightarrow>
          if mpl_base p = 0 then (None, Some p)
          else if mpl_size p < mpl_used p + sz then (None, Some p)
          else (Some (mpl_base p + mpl_used p), Some (p\<lparr>mpl_used := mpl_used p + sz\<rparr>)))"

definition memopt_pool_free :: "memopt_pool option \<Rightarrow> u64 option \<Rightarrow> memopt_pool option" where
  "memopt_pool_free pool ptr = pool"

text \<open>The mapping and the length that the destruction of a pool unmaps.\<close>

definition memopt_pool_destroy :: "memopt_pool option \<Rightarrow> (u64 \<times> u64) option" where
  "memopt_pool_destroy pool = map_option (\<lambda>p. (mpl_base p, mpl_size p)) pool"

subsection \<open>Allocators that go upwards through a region\<close>

text \<open>
  An allocator with a mark that only moves up to a limit and hands out what the mark moved over:
  whatever requests are made, the blocks lie in the region, one behind the other.
\<close>

locale upward_allocator =
  fixes alloc :: "'s \<Rightarrow> 'r \<Rightarrow> nat option \<times> 's"
    and len :: "'r \<Rightarrow> nat" and mark :: "'s \<Rightarrow> nat" and limit :: "'s \<Rightarrow> nat"
    and inv :: "'s \<Rightarrow> bool" and fair :: "'r \<Rightarrow> bool"
  assumes inv_mark: "inv s \<Longrightarrow> mark s \<le> limit s"
    and inv_alloc: "inv s \<Longrightarrow> fair r \<Longrightarrow> inv (snd (alloc s r)) \<and> limit (snd (alloc s r)) = limit s"
    and granted: "inv s \<Longrightarrow> fair r \<Longrightarrow> fst (alloc s r) = Some off \<Longrightarrow>
      off = mark s \<and> mark (snd (alloc s r)) = mark s + len r"
    and refused: "inv s \<Longrightarrow> fair r \<Longrightarrow> fst (alloc s r) = None \<Longrightarrow> mark (snd (alloc s r)) = mark s"
    and complete: "inv s \<Longrightarrow> fair r \<Longrightarrow> fst (alloc s r) = None \<longleftrightarrow> limit s < mark s + len r"
begin

text \<open>The blocks a list of requests gets, as pairs of start and length.\<close>

fun blocks :: "'s \<Rightarrow> 'r list \<Rightarrow> (nat \<times> nat) list" where
  "blocks s [] = []"
| "blocks s (r # rs) =
     (case alloc s r of
        (None, s') \<Rightarrow> blocks s' rs
      | (Some off, s') \<Rightarrow> (off, len r) # blocks s' rs)"

lemma blocks_inside:
  "inv s \<Longrightarrow> \<forall>r \<in> set rs. fair r \<Longrightarrow> (off, n) \<in> set (blocks s rs) \<Longrightarrow>
   mark s \<le> off \<and> off + n \<le> limit s"
proof (induction rs arbitrary: s)
  case Nil
  then show ?case by simp
next
  case (Cons r rs)
  let ?s' = "snd (alloc s r)"
  have s': "inv ?s'" "limit ?s' = limit s" using inv_alloc [of s r] Cons.prems by auto
  note IH = Cons.IH [OF s'(1)]
  show ?case
  proof (cases "fst (alloc s r)")
    case None
    with Cons.prems refused [of s r] IH s'(2) show ?thesis
      by (auto simp: case_prod_beta)
  next
    case (Some o1)
    with granted [of s r o1] Cons.prems
    have m: "o1 = mark s" "mark ?s' = mark s + len r" by auto
    have "mark ?s' \<le> limit ?s'" by (rule inv_mark) (rule s'(1))
    then have here: "mark s + len r \<le> limit s" using m s'(2) by simp
    from Cons.prems(3) Some consider "(off, n) = (o1, len r)" | "(off, n) \<in> set (blocks ?s' rs)"
      by (auto simp: case_prod_beta)
    then show ?thesis
      using here m IH Cons.prems(2) s'(2) by cases auto
  qed
qed

lemma blocks_ordered:
  "inv s \<Longrightarrow> \<forall>r \<in> set rs. fair r \<Longrightarrow>
   sorted_wrt (\<lambda>a b. fst a + snd a \<le> fst b) (blocks s rs)"
proof (induction rs arbitrary: s)
  case Nil
  then show ?case by simp
next
  case (Cons r rs)
  let ?s' = "snd (alloc s r)"
  have s': "inv ?s'" using inv_alloc [of s r] Cons.prems by auto
  have IH: "sorted_wrt (\<lambda>a b. fst a + snd a \<le> fst b) (blocks ?s' rs)"
    by (rule Cons.IH) (use s' Cons.prems in auto)
  show ?case
  proof (cases "fst (alloc s r)")
    case None
    with IH show ?thesis by (simp add: case_prod_beta)
  next
    case (Some o1)
    with granted [of s r o1] Cons.prems have "mark ?s' = o1 + len r" by auto
    moreover have "mark ?s' \<le> off" if "(off, n) \<in> set (blocks ?s' rs)" for off n
      using blocks_inside [OF s' _ that] Cons.prems(2) by simp
    ultimately show ?thesis
      using IH Some by (fastforce simp: case_prod_beta)
  qed
qed

end

subsection \<open>A pool is one, as long as no request wraps\<close>

text \<open>
  Offsets inside the pool. A request is fair when it does not exceed half the address space; a
  pool is in order when its mapping has at most half of it too. Then the sum in the check
  cannot wrap.
\<close>

definition pool_ok :: "memopt_pool \<Rightarrow> bool" where
  "pool_ok p \<longleftrightarrow> mpl_base p \<noteq> 0 \<and> mpl_used p \<le> mpl_size p \<and> unat (mpl_size p) \<le> 2 ^ 63"

definition fair_request :: "u64 \<Rightarrow> bool" where
  "fair_request sz \<longleftrightarrow> unat sz < 2 ^ 63"

definition pool_offset :: "memopt_pool \<Rightarrow> u64 \<Rightarrow> nat option \<times> memopt_pool" where
  "pool_offset p sz =
     (case memopt_pool_alloc (Some p) sz of
        (ptr, p') \<Rightarrow> (map_option (\<lambda>a. unat (a - mpl_base p)) ptr, the p'))"

lemma fair_sum:
  assumes "pool_ok p" and "fair_request sz"
  shows "unat (mpl_used p + sz) = unat (mpl_used p) + unat sz"
  using assms
  by (subst unat_add_lem [THEN iffD1])
     (simp_all add: pool_ok_def fair_request_def word_le_nat_alt)

lemma pool_offset_eq:
  assumes "pool_ok p"
  shows "pool_offset p sz =
    (if mpl_size p < mpl_used p + sz then (None, p)
     else (Some (unat (mpl_used p)), p\<lparr>mpl_used := mpl_used p + sz\<rparr>))"
  using assms by (simp add: pool_offset_def memopt_pool_alloc_def pool_ok_def)

interpretation pool: upward_allocator pool_offset unat "\<lambda>p. unat (mpl_used p)" "\<lambda>p. unat (mpl_size p)"
  pool_ok fair_request
proof unfold_locales
  fix p :: memopt_pool and sz :: u64 and off :: nat
  assume p: "pool_ok p"
  show "unat (mpl_used p) \<le> unat (mpl_size p)" using p by (simp add: pool_ok_def word_le_nat_alt)
  assume sz: "fair_request sz"
  note eq = pool_offset_eq [OF p, of sz] and sum = fair_sum [OF p sz]
  show "pool_ok (snd (pool_offset p sz)) \<and> unat (mpl_size (snd (pool_offset p sz))) = unat (mpl_size p)"
    using p by (simp add: eq) (auto simp: pool_ok_def not_less)
  show "(fst (pool_offset p sz) = None) = (unat (mpl_size p) < unat (mpl_used p) + unat sz)"
    by (simp add: eq word_less_nat_alt sum)
  show "fst (pool_offset p sz) = Some off \<Longrightarrow>
      off = unat (mpl_used p) \<and> unat (mpl_used (snd (pool_offset p sz))) = unat (mpl_used p) + unat sz"
    by (auto simp: eq sum split: if_splits)
  show "fst (pool_offset p sz) = None \<Longrightarrow> unat (mpl_used (snd (pool_offset p sz))) = unat (mpl_used p)"
    by (auto simp: eq split: if_splits)
qed

subsection \<open>Properties\<close>

text \<open>The blocks, as pointer and size, that a list of requests gets from a pool.\<close>

fun pool_run :: "memopt_pool option \<Rightarrow> u64 list \<Rightarrow> (u64 \<times> u64) list" where
  "pool_run pool [] = []"
| "pool_run pool (sz # rs) =
     (case memopt_pool_alloc pool sz of
        (None, pool') \<Rightarrow> pool_run pool' rs
      | (Some ptr, pool') \<Rightarrow> (ptr, sz) # pool_run pool' rs)"

lemma pool_alloc_Some:
  "memopt_pool_alloc (Some p) sz = (ptr, q) \<Longrightarrow> \<exists>p'. q = Some p' \<and> mpl_base p' = mpl_base p"
  by (auto simp: memopt_pool_alloc_def split: if_splits)

lemma pool_run_blocks:
  "pool.blocks p rs = map (\<lambda>(ptr, sz). (unat (ptr - mpl_base p), unat sz)) (pool_run (Some p) rs)"
proof (induction rs arbitrary: p)
  case Nil
  then show ?case by simp
next
  case (Cons sz rs)
  obtain ptr q where a: "memopt_pool_alloc (Some p) sz = (ptr, q)" by fastforce
  then obtain p' where p': "q = Some p'" "mpl_base p' = mpl_base p"
    using pool_alloc_Some by blast
  then have "pool_offset p sz = (map_option (\<lambda>a. unat (a - mpl_base p)) ptr, p')"
    by (simp add: pool_offset_def a)
  with Cons.IH [of p'] show ?case
    by (cases ptr) (simp_all add: a p')
qed

text \<open>C23: Whatever fair requests are made of a pool in order: the blocks it hands out lie inside its
  mapping, behind what was used before, and in the order of the requests each begins at or
  behind the end of the earlier ones, so no two overlap.\<close>

theorem pool_blocks_disjoint:
  assumes "pool_ok p" and "\<forall>sz \<in> set rs. fair_request sz"
  shows "let blocks = map (\<lambda>(ptr, sz). (unat (ptr - mpl_base p), unat sz)) (pool_run (Some p) rs) in
    sorted_wrt (\<lambda>a b. fst a + snd a \<le> fst b) blocks \<and>
    (\<forall>(off, n) \<in> set blocks. unat (mpl_used p) \<le> off \<and> off + n \<le> unat (mpl_size p))"
  using pool.blocks_ordered [OF assms] pool.blocks_inside [OF assms]
  unfolding Let_def pool_run_blocks [symmetric] by auto

theorem pool_blocks_disjoint_witness:
  "pool_run (memopt_pool_create True (Some 4096) 100 0 0) [60, 50, 30] = [(4096, 60), (4156, 30)] \<and>
   (let blocks = map (\<lambda>(ptr, sz). (unat (ptr - 4096), unat sz)) [(4096 :: u64, 60 :: u64), (4156, 30)] in
    sorted_wrt (\<lambda>a b. fst a + snd a \<le> fst b) blocks)"
proof -
  let ?p = "\<lparr>mpl_base = 4096, mpl_size = 100, mpl_used = 0, mpl_flags = 0, mpl_numa_node = 0\<rparr>"
  have run: "pool_run (Some ?p) [60, 50, 30] = [(4096, 60), (4156, 30)]"
    by code_simp
  have "pool_ok ?p" "\<forall>sz \<in> set [60, 50, 30]. fair_request sz"
    by (simp_all add: pool_ok_def fair_request_def)
  note d = pool_blocks_disjoint [OF this, unfolded run]
  have "memopt_pool_create True (Some 4096) 100 0 0 = Some ?p"
    by (simp add: memopt_pool_create_def)
  then show ?thesis using d by (simp only: run) (simp add: Let_def)
qed

text \<open>A fair request is granted exactly when it fits into what is left, and then uses it up;
  freeing a block gives nothing back.\<close>

theorem pool_grants_what_fits:
  assumes "pool_ok p" and "fair_request sz"
  shows "let (ptr, pool') = memopt_pool_alloc (Some p) sz in
    (ptr \<noteq> None \<longleftrightarrow> unat sz \<le> unat (mpl_size p) - unat (mpl_used p)) \<and>
    map_option (\<lambda>q. unat (mpl_used q)) (memopt_pool_free pool' ptr) =
      Some (unat (mpl_used p) + (if ptr \<noteq> None then unat sz else 0))"
proof -
  have "mpl_base p \<noteq> 0" "unat (mpl_used p) \<le> unat (mpl_size p)"
    using assms(1) by (simp_all add: pool_ok_def word_le_nat_alt)
  then show ?thesis
    using fair_sum [OF assms]
    by (auto simp: memopt_pool_alloc_def memopt_pool_free_def word_less_nat_alt)
qed

theorem pool_grants_what_fits_witness:
  "memopt_pool_alloc (memopt_pool_create True (Some 4096) 100 0 0) 101 =
     (None, memopt_pool_create True (Some 4096) 100 0 0)"
proof -
  let ?p = "\<lparr>mpl_base = 4096, mpl_size = 100, mpl_used = 0, mpl_flags = 0, mpl_numa_node = 0\<rparr>"
  have "pool_ok ?p" "fair_request 101" by (simp_all add: pool_ok_def fair_request_def)
  from pool_grants_what_fits [OF this] show ?thesis
    by (simp add: memopt_pool_create_def memopt_pool_alloc_def)
qed

text \<open>The check of the request wraps: from a pool of which something is used, a request of the
  64-bit complement of the used size is granted, sets the used size back to 0, and the next
  request that fits into the whole pool gets the pool's start, which was handed out before.\<close>

theorem pool_request_wraps:
  assumes "mpl_base p \<noteq> 0" and "mpl_used p \<noteq> 0" and "n \<le> mpl_size p"
  shows "let (ptr, pool') = memopt_pool_alloc (Some p) (- mpl_used p) in
    ptr = Some (mpl_base p + mpl_used p) \<and>
    fst (memopt_pool_alloc pool' n) = Some (mpl_base p)"
  using assms by (simp add: memopt_pool_alloc_def not_less [symmetric])

theorem pool_request_wraps_witness:
  "let pool = memopt_pool_create True (Some 4096) 100 0 0;
       (a, pool1) = memopt_pool_alloc pool 60;
       (b, pool2) = memopt_pool_alloc pool1 (- 60)
   in a = Some 4096 \<and> b = Some 4156 \<and> fst (memopt_pool_alloc pool2 60) = Some 4096"
proof -
  let ?p = "\<lparr>mpl_base = 4096, mpl_size = 100, mpl_used = 60, mpl_flags = 0, mpl_numa_node = 0\<rparr>"
  have "memopt_pool_alloc (memopt_pool_create True (Some 4096) 100 0 0) 60 = (Some 4096, Some ?p)"
    by (simp add: memopt_pool_create_def memopt_pool_alloc_def)
  with pool_request_wraps [of ?p 60] show ?thesis
    by (simp add: case_prod_beta Let_def)
qed

end
