(* ===== verification/Memopt.thy ===== *)
theory Memopt
  imports Memopt_Pool
begin

section \<open>The user-space allocator: src/shared/memopt.c\<close>

text \<open>
  The library's counters and the address space it maps memory into. The address space is an
  explicit store: which pages are mapped, what each byte holds, and whether some access touched
  an unmapped page. Addresses are natural numbers; the null pointer is \<open>None\<close>. Where the kernel
  places a mapping, and whether it grants it, is a parameter (\<open>mmap_at\<close>): \<open>os_ok\<close> says what
  \<open>mmap\<close> promises of it.
\<close>

abbreviation PAGE :: nat where "PAGE \<equiv> 4096"

definition MEMOPT_POOL_SIZE_DEFAULT :: u64 where "MEMOPT_POOL_SIZE_DEFAULT = push_bit 30 1"
definition MEMOPT_ALLOC_NONE :: u64 where "MEMOPT_ALLOC_NONE = 0"
definition MEMOPT_ALLOC_HUGEPAGE :: u64 where "MEMOPT_ALLOC_HUGEPAGE = 1"
definition MEMOPT_ALLOC_ZEROED :: u64 where "MEMOPT_ALLOC_ZEROED = 4"

subsection \<open>The address space\<close>

record vmem =
  page_mapped :: "nat \<Rightarrow> bool"
  page_huge :: "nat \<Rightarrow> bool"
  contents :: "nat \<Rightarrow> u8"
  faulted :: bool

record os_env =
  mmap_at :: "vmem \<Rightarrow> u64 \<Rightarrow> bool \<Rightarrow> nat option"
  nprocessors :: int

text \<open>The pages of a mapping; a mapping of huge pages is rounded up to 2 MB.\<close>

definition pages :: "u64 \<Rightarrow> nat" where
  "pages sz = (unat sz + (PAGE - 1)) div PAGE"

definition mapped_pages :: "u64 \<Rightarrow> bool \<Rightarrow> nat" where
  "mapped_pages sz huge =
     (if huge then 512 * ((unat sz + (512 * PAGE - 1)) div (512 * PAGE)) else pages sz)"

text \<open>\<open>mmap\<close> grants no empty mapping and places a mapping on pages that are free.\<close>

definition os_ok :: "os_env \<Rightarrow> bool" where
  "os_ok os \<longleftrightarrow> (\<forall>v sz huge p. mmap_at os v sz huge = Some p \<longrightarrow>
     0 < p \<and> sz \<noteq> 0 \<and> (\<forall>i<mapped_pages sz huge. \<not> page_mapped v (p + i)))"

definition in_pages :: "nat \<Rightarrow> nat \<Rightarrow> nat \<Rightarrow> bool" where
  "in_pages p n q \<longleftrightarrow> p \<le> q \<and> q < p + n"

definition do_mmap :: "os_env \<Rightarrow> u64 \<Rightarrow> bool \<Rightarrow> vmem \<Rightarrow> nat option \<times> vmem" where
  "do_mmap os sz huge v =
     (case mmap_at os v sz huge of
        None \<Rightarrow> (None, v)
      | Some p \<Rightarrow>
          (Some (PAGE * p),
           let n = mapped_pages sz huge
           in v\<lparr>page_mapped := (\<lambda>q. in_pages p n q \<or> page_mapped v q),
                page_huge := (\<lambda>q. if in_pages p n q then huge else page_huge v q),
                contents := (\<lambda>a. if in_pages p n (a div PAGE) then 0 else contents v a)\<rparr>))"

text \<open>\<open>munmap\<close> refuses an address that is no page's, and a part of a huge page.\<close>

definition do_munmap :: "nat \<Rightarrow> u64 \<Rightarrow> vmem \<Rightarrow> vmem" where
  "do_munmap a sz v =
     (if a mod PAGE \<noteq> 0 \<or> page_huge v (a div PAGE) then v
      else v\<lparr>page_mapped := (\<lambda>q. \<not> in_pages (a div PAGE) (pages sz) q \<and> page_mapped v q)\<rparr>)"

text \<open>An access to \<open>n\<close> bytes from \<open>a\<close> on.\<close>

definition accessible :: "nat \<Rightarrow> nat \<Rightarrow> vmem \<Rightarrow> bool" where
  "accessible a n v \<longleftrightarrow> list_all (page_mapped v) [a div PAGE..<(a + n + (PAGE - 1)) div PAGE]"

definition do_memset :: "nat \<Rightarrow> u8 \<Rightarrow> nat \<Rightarrow> vmem \<Rightarrow> vmem" where
  "do_memset a b n v =
     v\<lparr>contents := (\<lambda>x. if a \<le> x \<and> x < a + n then b else contents v x),
       faulted := faulted v \<or> \<not> accessible a n v\<rparr>"

definition do_memcpy :: "nat \<Rightarrow> nat \<Rightarrow> nat \<Rightarrow> vmem \<Rightarrow> vmem" where
  "do_memcpy dst src n v =
     v\<lparr>contents := (\<lambda>x. if dst \<le> x \<and> x < dst + n then contents v (src + (x - dst)) else contents v x),
       faulted := faulted v \<or> \<not> accessible dst n v \<or> \<not> accessible src n v\<rparr>"

subsection \<open>The library's state\<close>

record memopt_state =
  g_total_allocated :: u64
  g_total_freed :: u64
  g_pool_used :: u64
  g_pool_total :: u64
  g_allocation_count :: u64
  g_free_count :: u64
  g_initialized :: bool
  vm :: vmem

definition memopt_boot :: "vmem \<Rightarrow> memopt_state" where
  "memopt_boot v = \<lparr>g_total_allocated = 0, g_total_freed = 0, g_pool_used = 0, g_pool_total = 0,
     g_allocation_count = 0, g_free_count = 0, g_initialized = False, vm = v\<rparr>"

record memopt_stats =
  st_total_allocated :: u64
  st_total_freed :: u64
  st_pool_used :: u64
  st_pool_total :: u64
  st_compression_ratio :: u64
  st_ksm_pages_shared :: u64
  st_ksm_pages_sharing :: u64
  st_allocation_count :: u64
  st_free_count :: u64

definition memopt_init :: "memopt_state \<Rightarrow> int \<times> memopt_state" where
  "memopt_init s =
     (if g_initialized s then (0, s)
      else (0, s\<lparr>g_total_allocated := 0, g_total_freed := 0, g_pool_used := 0,
                 g_pool_total := MEMOPT_POOL_SIZE_DEFAULT, g_allocation_count := 0,
                 g_free_count := 0, g_initialized := True\<rparr>))"

datatype memopt_workload_t =
    MEMOPT_WORKLOAD_GENERAL | MEMOPT_WORKLOAD_AI_INFERENCE | MEMOPT_WORKLOAD_AI_TRAINING
  | MEMOPT_WORKLOAD_GAMING | MEMOPT_WORKLOAD_BACKGROUND

definition memopt_init_with_policy :: "memopt_workload_t \<Rightarrow> memopt_state \<Rightarrow> int \<times> memopt_state" where
  "memopt_init_with_policy workload s = memopt_init s"

definition memopt_shutdown :: "memopt_state \<Rightarrow> memopt_state" where
  "memopt_shutdown s = s\<lparr>g_initialized := False, g_pool_used := 0\<rparr>"

subsection \<open>Allocation\<close>

definition memopt_alloc_flags ::
  "os_env \<Rightarrow> u64 \<Rightarrow> u64 \<Rightarrow> memopt_state \<Rightarrow> nat option \<times> memopt_state" where
  "memopt_alloc_flags os sz flags s =
     (let (ptr, v1) =
            (if and flags MEMOPT_ALLOC_HUGEPAGE \<noteq> 0 then do_mmap os sz True (vm s) else (None, vm s));
          (ptr, v2) = (if ptr = None then do_mmap os sz False v1 else (ptr, v1))
      in case ptr of
           None \<Rightarrow> (None, s\<lparr>vm := v2\<rparr>)
         | Some a \<Rightarrow>
             let v3 = (if and flags MEMOPT_ALLOC_ZEROED \<noteq> 0 then do_memset a 0 (unat sz) v2 else v2)
             in (Some a, s\<lparr>vm := v3,
                   g_total_allocated := g_total_allocated s + sz,
                   g_pool_used := g_pool_used s + sz,
                   g_allocation_count := g_allocation_count s + 1\<rparr>))"

definition memopt_alloc :: "os_env \<Rightarrow> u64 \<Rightarrow> memopt_state \<Rightarrow> nat option \<times> memopt_state" where
  "memopt_alloc os sz s = memopt_alloc_flags os sz MEMOPT_ALLOC_NONE s"

definition memopt_free :: "nat option \<Rightarrow> memopt_state \<Rightarrow> memopt_state" where
  "memopt_free ptr s =
     (case ptr of
        None \<Rightarrow> s
      | Some a \<Rightarrow>
          s\<lparr>g_free_count := g_free_count s + 1,
            g_pool_used := (if g_pool_used s > 4096 then g_pool_used s - 4096 else 0),
            vm := do_munmap a 4096 (vm s)\<rparr>)"

definition memopt_realloc ::
  "os_env \<Rightarrow> nat option \<Rightarrow> u64 \<Rightarrow> memopt_state \<Rightarrow> nat option \<times> memopt_state" where
  "memopt_realloc os ptr sz s =
     (let (new_ptr, s1) = memopt_alloc os sz s
      in case (new_ptr, ptr) of
           (Some n, Some p) \<Rightarrow> (Some n, memopt_free ptr (s1\<lparr>vm := do_memcpy n p 4096 (vm s1)\<rparr>))
         | _ \<Rightarrow> (new_ptr, s1))"

definition memopt_calloc :: "os_env \<Rightarrow> u64 \<Rightarrow> u64 \<Rightarrow> memopt_state \<Rightarrow> nat option \<times> memopt_state" where
  "memopt_calloc os nmemb sz s =
     (let (ptr, s1) = memopt_alloc os (nmemb * sz) s
      in case ptr of
           None \<Rightarrow> (None, s1)
         | Some a \<Rightarrow> (Some a, s1\<lparr>vm := do_memset a 0 (unat (nmemb * sz)) (vm s1)\<rparr>))"

text \<open>The node is ignored; the result is 0 or -1 and the pointer.\<close>

definition memopt_alloc_on_node ::
  "os_env \<Rightarrow> u64 \<Rightarrow> int \<Rightarrow> memopt_state \<Rightarrow> (int \<times> nat option) \<times> memopt_state" where
  "memopt_alloc_on_node os sz node s =
     (let (ptr, s1) = memopt_alloc os sz s in ((if ptr \<noteq> None then 0 else - 1, ptr), s1))"

definition memopt_numa_aware_alloc ::
  "os_env \<Rightarrow> u64 \<Rightarrow> int \<Rightarrow> memopt_state \<Rightarrow> nat option \<times> memopt_state" where
  "memopt_numa_aware_alloc os sz preferred_node s = memopt_alloc os sz s"

definition memopt_numa_aware_free :: "nat option \<Rightarrow> u64 \<Rightarrow> int \<Rightarrow> memopt_state \<Rightarrow> memopt_state" where
  "memopt_numa_aware_free ptr sz node s = memopt_free ptr s"

subsection \<open>Statistics and the knobs of the system\<close>

definition memopt_get_stats :: "memopt_state \<Rightarrow> memopt_stats" where
  "memopt_get_stats s =
     \<lparr>st_total_allocated = g_total_allocated s, st_total_freed = g_total_freed s,
      st_pool_used = g_pool_used s, st_pool_total = g_pool_total s, st_compression_ratio = 200,
      st_ksm_pages_shared = 0, st_ksm_pages_sharing = 0,
      st_allocation_count = g_allocation_count s, st_free_count = g_free_count s\<rparr>"

text \<open>The line \<open>memopt_print_stats\<close> writes to the error output.\<close>

definition memopt_print_stats :: "memopt_state \<Rightarrow> string" where
  "memopt_print_stats s =
     (let st = memopt_get_stats s; u = (\<lambda>w :: u64. dec_digits (unat w))
      in ''Stats: alloc='' @ u (st_total_allocated st) @ '', freed='' @ u (st_total_freed st) @
         '', pool='' @ u (st_pool_used st) @ ''/'' @ u (st_pool_total st) @
         '', count='' @ u (st_allocation_count st) @ ''/'' @ u (st_free_count st) @ [CHR 0x0A])"

record memopt_numa_node_info =
  ni_node_id :: int
  ni_total_memory :: u64
  ni_free_memory :: u64
  ni_cpu_count :: int

text \<open>The two output arguments, an array and a cell; nothing is written if either is null.\<close>

definition memopt_numa_stats ::
  "os_env \<Rightarrow> memopt_numa_node_info list option \<Rightarrow> int option \<Rightarrow>
     memopt_numa_node_info list option \<times> int option" where
  "memopt_numa_stats os nodes cnt =
     (case (nodes, cnt) of
        (Some ns, Some c) \<Rightarrow>
          (Some (ns[0 := \<lparr>ni_node_id = 0, ni_total_memory = 16 * 1024 * 1024 * 1024,
                          ni_free_memory = 8 * 1024 * 1024 * 1024, ni_cpu_count = nprocessors os\<rparr>]),
           Some 1)
      | _ \<Rightarrow> (nodes, cnt))"

definition memopt_numa_node_count :: "os_env \<Rightarrow> int" where
  "memopt_numa_node_count os = (if 0 < nprocessors os then nprocessors os else 1)"

text \<open>
  The knobs are files. \<open>can_open\<close> answers whether a file can be opened for writing; the
  result is the return code and what was written.
\<close>

definition write_knob :: "(string \<Rightarrow> bool) \<Rightarrow> string \<Rightarrow> string \<Rightarrow> int \<times> (string \<times> string) list" where
  "write_knob can_open path value = (if can_open path then (0, [(path, value)]) else (- 1, []))"

definition memopt_enable_ksm :: "(string \<Rightarrow> bool) \<Rightarrow> int \<times> (string \<times> string) list" where
  "memopt_enable_ksm can_open = write_knob can_open ''/sys/kernel/mm/ksm/run'' ''1''"

definition memopt_disable_ksm :: "(string \<Rightarrow> bool) \<Rightarrow> int \<times> (string \<times> string) list" where
  "memopt_disable_ksm can_open = write_knob can_open ''/sys/kernel/mm/ksm/run'' ''0''"

definition memopt_set_swappiness :: "(string \<Rightarrow> bool) \<Rightarrow> int \<Rightarrow> int \<times> (string \<times> string) list" where
  "memopt_set_swappiness can_open value = write_knob can_open ''/proc/sys/vm/swappiness'' (dec_int value)"

definition memopt_set_ksm_batch_size :: "u32 \<Rightarrow> int" where
  "memopt_set_ksm_batch_size sz = 0"

definition memopt_conservative_dedup :: "(string \<Rightarrow> bool) \<Rightarrow> int \<times> (string \<times> string) list" where
  "memopt_conservative_dedup can_open = memopt_enable_ksm can_open"

definition memopt_aggressive_dedup :: "(string \<Rightarrow> bool) \<Rightarrow> int \<times> (string \<times> string) list" where
  "memopt_aggressive_dedup can_open =
     (memopt_set_ksm_batch_size 10000, snd (memopt_enable_ksm can_open))"

text \<open>
  Entry points that do nothing and report success (or node 0): they read no state and change none.
\<close>

definition memopt_tune_zswap :: "int" where
  "memopt_tune_zswap = 0"

definition memopt_enable_hugepages :: "int" where
  "memopt_enable_hugepages = 0"

definition memopt_enable_zram :: "int" where
  "memopt_enable_zram = 0"

definition memopt_disable_zram :: "int" where
  "memopt_disable_zram = 0"

definition memopt_set_zram_size :: "string \<Rightarrow> int" where
  "memopt_set_zram_size size_str = 0"

definition memopt_set_zram_compressor :: "string \<Rightarrow> int" where
  "memopt_set_zram_compressor name = 0"

definition memopt_set_zswap_compressor :: "string \<Rightarrow> int" where
  "memopt_set_zswap_compressor name = 0"

definition memopt_set_zswap_pool_percent :: "int \<Rightarrow> int" where
  "memopt_set_zswap_pool_percent percent = 0"

definition memopt_dynamic_tune :: "int" where
  "memopt_dynamic_tune = 0"

definition memopt_tune_for_workload :: "int \<Rightarrow> int" where
  "memopt_tune_for_workload workload_type = 0"

definition memopt_merge_pages :: "nat option \<Rightarrow> u64 \<Rightarrow> int" where
  "memopt_merge_pages addr sz = 0"

definition memopt_unmerge_pages :: "nat option \<Rightarrow> u64 \<Rightarrow> int" where
  "memopt_unmerge_pages addr sz = 0"

definition memopt_set_ksm_scan_interval :: "u32 \<Rightarrow> int" where
  "memopt_set_ksm_scan_interval ms = 0"

definition memopt_start_dedup_monitor :: "int" where
  "memopt_start_dedup_monitor = 0"

definition memopt_stop_dedup_monitor :: "int" where
  "memopt_stop_dedup_monitor = 0"

definition memopt_numa_node_of_cpu :: "int \<Rightarrow> int" where
  "memopt_numa_node_of_cpu c = 0"

definition memopt_bind_to_node :: "int \<Rightarrow> int" where
  "memopt_bind_to_node node = 0"

definition memopt_migrate_pages :: "nat option \<Rightarrow> u64 \<Rightarrow> int \<Rightarrow> int \<Rightarrow> int" where
  "memopt_migrate_pages ptr sz from_node to_node = 0"

definition memopt_set_mempolicy :: "int \<Rightarrow> u64 list option \<Rightarrow> u64 \<Rightarrow> int" where
  "memopt_set_mempolicy mode nmask maxnode = 0"

definition memopt_get_local_node :: "int" where
  "memopt_get_local_node = 0"

text \<open>The ratio is the constant 2, the memory of a node the constant 8 GB.\<close>

definition memopt_get_zram_compression_ratio :: "int option \<Rightarrow> int \<times> int option" where
  "memopt_get_zram_compression_ratio ratio = (0, map_option (\<lambda>_. 2) ratio)"

definition memopt_numa_node_memory :: "int \<Rightarrow> u64" where
  "memopt_numa_node_memory node = 8 * 1024 * 1024 * 1024"

definition memopt_get_mempolicy ::
  "int option \<Rightarrow> nat option \<Rightarrow> u64 option \<Rightarrow> int \<Rightarrow> int \<times> int option \<times> nat option \<times> u64 option" where
  "memopt_get_mempolicy mode addr max_items node = (0, mode, addr, max_items)"

definition memopt_bind_mempolicy :: "int \<Rightarrow> int" where
  "memopt_bind_mempolicy node = memopt_set_mempolicy 1 None 0"

definition memopt_interleave_mempolicy :: "int \<Rightarrow> int" where
  "memopt_interleave_mempolicy cnt = memopt_set_mempolicy 2 None 0"

definition memopt_prefer_node_mempolicy :: "int \<Rightarrow> int" where
  "memopt_prefer_node_mempolicy node = memopt_set_mempolicy 3 None 0"

subsection \<open>One allocation\<close>

lemma alloc_eq:
  "memopt_alloc os sz s =
     (case mmap_at os (vm s) sz False of
        None \<Rightarrow> (None, s)
      | Some p \<Rightarrow> (Some (PAGE * p), s\<lparr>vm := snd (do_mmap os sz False (vm s)),
          g_total_allocated := g_total_allocated s + sz, g_pool_used := g_pool_used s + sz,
          g_allocation_count := g_allocation_count s + 1\<rparr>))"
  by (simp add: memopt_alloc_def memopt_alloc_flags_def MEMOPT_ALLOC_NONE_def do_mmap_def Let_def
      split: option.split)

lemma do_mmap_sel:
  assumes "mmap_at os v sz False = Some p"
  shows "page_mapped (snd (do_mmap os sz False v)) q = (in_pages p (pages sz) q \<or> page_mapped v q)"
    "contents (snd (do_mmap os sz False v)) a =
       (if in_pages p (pages sz) (a div PAGE) then 0 else contents v a)"
    "page_huge (snd (do_mmap os sz False v)) q = (\<not> in_pages p (pages sz) q \<and> page_huge v q)"
    "faulted (snd (do_mmap os sz False v)) = faulted v"
  using assms by (simp_all add: do_mmap_def mapped_pages_def Let_def)

lemma pages_pos: "sz \<noteq> 0 \<Longrightarrow> 0 < pages sz"
  using unat_eq_zero [of sz] by (simp add: pages_def div_greater_zero_iff)

text \<open>The bytes of a mapping lie on its pages.\<close>

lemma in_pages_byte: "x < unat sz \<Longrightarrow> in_pages p (pages sz) ((PAGE * p + x) div PAGE)"
proof -
  assume "x < unat sz"
  then have "x div PAGE < pages sz"
    unfolding pages_def by (simp add: div_less_iff_less_mult)
  then show ?thesis by (simp add: in_pages_def)
qed

lemma accessible_block:
  assumes "n \<le> unat sz" and "\<And>q. in_pages p (pages sz) q \<Longrightarrow> page_mapped v q"
  shows "accessible (PAGE * p) n v"
proof -
  have "(PAGE * p + n + (PAGE - 1)) div PAGE = p + (n + (PAGE - 1)) div PAGE"
    by (simp add: add.assoc)
  also have "\<dots> \<le> p + pages sz"
    using assms(1) by (simp add: pages_def div_le_mono)
  finally show ?thesis
    using assms(2) by (auto simp: accessible_def list_all_iff in_pages_def)
qed

subsection \<open>Calls in sequence\<close>

datatype memopt_event =
    Alloc u64 u64 | Calloc u64 u64 | Realloc "nat option" u64 | Free "nat option"

fun memopt_call :: "os_env \<Rightarrow> memopt_event \<Rightarrow> memopt_state \<Rightarrow> nat option \<times> memopt_state" where
  "memopt_call os (Alloc sz flags) s = memopt_alloc_flags os sz flags s"
| "memopt_call os (Calloc n sz) s = memopt_calloc os n sz s"
| "memopt_call os (Realloc p sz) s = memopt_realloc os p sz s"
| "memopt_call os (Free p) s = (None, memopt_free p s)"

fun memopt_trace :: "os_env \<Rightarrow> memopt_state \<Rightarrow> memopt_event list \<Rightarrow>
  (memopt_event \<times> nat option) list \<times> memopt_state" where
  "memopt_trace os s [] = ([], s)"
| "memopt_trace os s (e # es) =
     (let (r, s1) = memopt_call os e s; (tr, s2) = memopt_trace os s1 es in ((e, r) # tr, s2))"

text \<open>The bytes a call asks the allocator for, the blocks it frees.\<close>

fun asked :: "memopt_event \<Rightarrow> u64" where
  "asked (Alloc sz flags) = sz"
| "asked (Calloc n sz) = n * sz"
| "asked (Realloc p sz) = sz"
| "asked (Free p) = 0"

fun frees :: "memopt_event \<times> nat option \<Rightarrow> bool" where
  "frees (Free p, r) = (p \<noteq> None)"
| "frees (Realloc p sz, r) = (p \<noteq> None \<and> r \<noteq> None)"
| "frees _ = False"

lemma alloc_flags_counters:
  "memopt_alloc_flags os sz flags s = (r, t) \<Longrightarrow>
   g_total_freed t = g_total_freed s \<and> g_free_count t = g_free_count s \<and>
   g_total_allocated t = g_total_allocated s + (if r = None then 0 else sz) \<and>
   g_allocation_count t = g_allocation_count s + (if r = None then 0 else 1)"
  by (auto simp: memopt_alloc_flags_def Let_def split: prod.splits option.splits if_splits)

lemma memopt_call_counters:
  assumes "memopt_call os e s = (r, t)"
  shows "g_total_freed t = g_total_freed s \<and>
   g_total_allocated t = g_total_allocated s + (if r = None then 0 else asked e) \<and>
   g_allocation_count t = g_allocation_count s + (if r = None then 0 else 1) \<and>
   g_free_count t = g_free_count s + (if frees (e, r) then 1 else 0)"
proof (cases e)
  case (Alloc sz flags)
  with assms alloc_flags_counters [of os sz flags s r t] show ?thesis by simp
next
  case (Calloc n sz)
  obtain r' t' where a: "memopt_alloc_flags os (n * sz) MEMOPT_ALLOC_NONE s = (r', t')" by fastforce
  from assms Calloc alloc_flags_counters [OF a] show ?thesis
    by (auto simp: memopt_calloc_def memopt_alloc_def a split: option.splits)
next
  case (Realloc p sz)
  obtain r' t' where a: "memopt_alloc_flags os sz MEMOPT_ALLOC_NONE s = (r', t')" by fastforce
  from assms Realloc alloc_flags_counters [OF a] show ?thesis
    by (auto simp: memopt_realloc_def memopt_alloc_def a memopt_free_def split: option.splits)
next
  case (Free p)
  with assms show ?thesis by (auto simp: memopt_free_def split: option.splits)
qed

subsection \<open>A kernel for examples\<close>

text \<open>It places a mapping at page 16 or, if that is taken, at page 4096.\<close>

definition free_pages :: "vmem \<Rightarrow> nat \<Rightarrow> nat \<Rightarrow> bool" where
  "free_pages v p n \<longleftrightarrow> list_all (\<lambda>i. \<not> page_mapped v (p + i)) [0..<n]"

definition example_os :: os_env where
  "example_os = \<lparr>mmap_at = (\<lambda>v sz huge.
       if sz = 0 \<or> huge then None
       else if free_pages v 16 (mapped_pages sz huge) then Some 16
       else if free_pages v 4096 (mapped_pages sz huge) then Some 4096 else None),
     nprocessors = 4\<rparr>"

lemma example_os_ok: "os_ok example_os"
  by (auto simp: os_ok_def example_os_def free_pages_def list_all_iff split: if_splits)

definition empty_vm :: vmem where
  "empty_vm = \<lparr>page_mapped = (\<lambda>_. False), page_huge = (\<lambda>_. False), contents = (\<lambda>_. 0), faulted = False\<rparr>"

lemma example_place:
  "sz \<noteq> 0 \<Longrightarrow> mmap_at example_os empty_vm sz False = Some 16"
  by (simp add: example_os_def free_pages_def empty_vm_def list_all_iff)

lemma example_alloc:
  "sz \<noteq> 0 \<Longrightarrow> \<exists>t. memopt_alloc example_os sz (memopt_boot empty_vm) = (Some 65536, t)"
  by (simp add: alloc_eq memopt_boot_def example_place)

subsection \<open>Properties\<close>

text \<open>The counters after any sequence of calls: the total of the allocated bytes is the sum of
  what the granted calls asked for (modulo 2 to the 64), the allocation and the free counter
  count the granted allocations and the freed blocks, and the total of the freed bytes the
  statistics report never moves.\<close>

theorem memopt_counters:
  "let (tr, t) = memopt_trace os s es; granted = filter (\<lambda>(e, r). r \<noteq> None) tr in
    st_total_allocated (memopt_get_stats t) =
      g_total_allocated s + sum_list (map (\<lambda>(e, r). asked e) granted) \<and>
    st_allocation_count (memopt_get_stats t) = g_allocation_count s + of_nat (length granted) \<and>
    st_free_count (memopt_get_stats t) = g_free_count s + of_nat (length (filter frees tr)) \<and>
    st_total_freed (memopt_get_stats t) = g_total_freed s \<and>
    map fst tr = es"
proof (induction es arbitrary: s)
  case Nil
  then show ?case by (simp add: memopt_get_stats_def)
next
  case (Cons e es)
  obtain r s1 where c: "memopt_call os e s = (r, s1)" by fastforce
  note counters = memopt_call_counters [OF c]
  obtain tr t where tr: "memopt_trace os s1 es = (tr, t)" by fastforce
  from Cons.IH [of s1] show ?case
    by (simp add: c tr Let_def counters memopt_get_stats_def ac_simps)
qed

lemma alloc_fresh:
  assumes "os_ok os" and "memopt_alloc os sz s = (Some a, t)"
  shows "a mod PAGE = 0 \<and> a \<noteq> 0 \<and> sz \<noteq> 0 \<and> accessible a (unat sz) (vm t) \<and>
    (\<forall>x<unat sz. contents (vm t) (a + x) = 0 \<and> \<not> page_mapped (vm s) ((a + x) div PAGE)) \<and>
    (\<forall>b. page_mapped (vm s) (b div PAGE) \<longrightarrow> contents (vm t) b = contents (vm s) b \<and>
       page_mapped (vm t) (b div PAGE)) \<and>
    faulted (vm t) = faulted (vm s)"
proof -
  obtain p where p: "mmap_at os (vm s) sz False = Some p" "a = PAGE * p"
    "vm t = snd (do_mmap os sz False (vm s))"
    using assms(2) by (auto simp: alloc_eq split: option.splits)
  have placed: "0 < p \<and> sz \<noteq> 0 \<and> (\<forall>i<mapped_pages sz False. \<not> page_mapped (vm s) (p + i))"
    using assms(1) p(1) unfolding os_ok_def by blast
  have free: "\<not> page_mapped (vm s) q" if "in_pages p (pages sz) q" for q
  proof -
    have "q - p < pages sz" "p + (q - p) = q" using that by (auto simp: in_pages_def)
    then show ?thesis using placed by (metis mapped_pages_def)
  qed
  note ok = placed [THEN conjunct1] placed [THEN conjunct2, THEN conjunct1] free
  have "accessible a (unat sz) (vm t)"
    unfolding p(2,3) by (rule accessible_block [of _ sz]) (simp_all add: do_mmap_sel [OF p(1)])
  moreover have "contents (vm t) (a + x) = 0 \<and> \<not> page_mapped (vm s) ((a + x) div PAGE)"
    if "x < unat sz" for x
    using in_pages_byte [OF that, of p] ok(3) by (simp only: p(2,3) do_mmap_sel [OF p(1)]) simp
  moreover have "contents (vm t) b = contents (vm s) b \<and> page_mapped (vm t) (b div PAGE)"
    if "page_mapped (vm s) (b div PAGE)" for b
    using that ok(3) [of "b div PAGE"] by (auto simp: p(3) do_mmap_sel [OF p(1)])
  ultimately show ?thesis
    using ok(1,2) by (simp add: p(2)) (simp add: p(3) do_mmap_sel [OF p(1)])
qed

text \<open>C20: A granted allocation is a fresh block: it begins at a page, all its bytes can be accessed
  and read 0, none of its pages was in use before, and what other pages hold stays.\<close>

theorem memopt_alloc_fresh:
  assumes "os_ok os" and "memopt_alloc os sz s = (Some a, t)"
  shows "a mod PAGE = 0 \<and> a \<noteq> 0 \<and> sz \<noteq> 0 \<and> accessible a (unat sz) (vm t) \<and>
    (\<forall>x<unat sz. contents (vm t) (a + x) = 0 \<and> \<not> page_mapped (vm s) ((a + x) div PAGE)) \<and>
    (\<forall>b. page_mapped (vm s) (b div PAGE) \<longrightarrow> contents (vm t) b = contents (vm s) b \<and>
       page_mapped (vm t) (b div PAGE)) \<and>
    faulted (vm t) = faulted (vm s)"
  using assms by (rule alloc_fresh)

theorem memopt_alloc_fresh_witness:
  "\<exists>t. memopt_alloc example_os 5000 (memopt_boot empty_vm) = (Some 65536, t) \<and>
     accessible 65536 5000 (vm t) \<and> contents (vm t) 70000 = 0"
proof -
  obtain t where t: "memopt_alloc example_os 5000 (memopt_boot empty_vm) = (Some 65536, t)"
    using example_alloc [of 5000] by auto
  from memopt_alloc_fresh [OF example_os_ok t] have
    "accessible 65536 5000 (vm t)" "\<forall>x<5000. contents (vm t) (65536 + x) = 0" by simp_all
  with t show ?thesis by (auto dest: spec [where x = 4464])
qed

text \<open>Freeing a block unmaps its first page only: of a block of \<open>n\<close> pages the other \<open>n - 1\<close>
  stay mapped, and no later call of the library knows of them.\<close>

theorem memopt_free_unmaps_one_page:
  assumes "memopt_alloc os sz s = (Some a, t)" and "i < pages sz"
  shows "page_mapped (vm (memopt_free (Some a) t)) (a div PAGE + i) \<longleftrightarrow> i \<noteq> 0"
proof -
  obtain p where p: "mmap_at os (vm s) sz False = Some p" "a = PAGE * p"
    "vm t = snd (do_mmap os sz False (vm s))"
    using assms(1) by (auto simp: alloc_eq split: option.splits)
  have "in_pages p (pages sz) (p + i)" "in_pages p (pages sz) p"
    using assms(2) by (simp_all add: in_pages_def)
  then show ?thesis
    by (simp add: memopt_free_def do_munmap_def p do_mmap_sel [OF p(1)] pages_def)
       (auto simp: in_pages_def)
qed

theorem memopt_free_unmaps_one_page_witness:
  "\<exists>t. memopt_alloc example_os 5000 (memopt_boot empty_vm) = (Some 65536, t) \<and>
     page_mapped (vm (memopt_free (Some 65536) t)) 17 \<and> \<not> page_mapped (vm (memopt_free (Some 65536) t)) 16"
proof -
  obtain t where t: "memopt_alloc example_os 5000 (memopt_boot empty_vm) = (Some 65536, t)"
    using example_alloc [of 5000] by auto
  from memopt_free_unmaps_one_page [OF t, of 1] memopt_free_unmaps_one_page [OF t, of 0] t
  show ?thesis by (simp add: pages_def)
qed

text \<open>C35: Reallocation keeps the first page of a block and loses the rest: after a granted call for a
  block that begins at a page, the new block holds the old one's first 4096 bytes and zeros
  behind them, whatever the sizes, and no access leaves the mapped memory.\<close>

theorem memopt_realloc_keeps_one_page:
  assumes "os_ok os" and "page_mapped (vm s) p" and "memopt_realloc os (Some (PAGE * p)) sz s = (Some n, t)"
    and "x < unat sz"
  shows "contents (vm t) (n + x) = (if x < 4096 then contents (vm s) (PAGE * p + x) else 0) \<and>
    faulted (vm t) = faulted (vm s)"
proof -
  obtain s1 where a: "memopt_alloc os sz s = (Some n, s1)"
    and t: "t = memopt_free (Some (PAGE * p)) (s1\<lparr>vm := do_memcpy n (PAGE * p) 4096 (vm s1)\<rparr>)"
    using assms(3) by (auto simp: memopt_realloc_def Let_def split: prod.splits option.splits)
  note fresh = alloc_fresh [OF assms(1) a]
  have old: "page_mapped (vm s) ((PAGE * p + y) div PAGE)" if "y < 4096" for y
    using that assms(2) by simp
  have "sz \<noteq> 0" using fresh by simp
  have acc: "accessible (PAGE * p) 4096 (vm s1)"
  proof -
    have "page_mapped (vm s1) p" using fresh old [of 0] by (metis add.right_neutral div_mult_self1_is_m zero_less_numeral)
    then show ?thesis by (simp add: accessible_def)
  qed
  have acc_n: "accessible n 4096 (vm s1)"
  proof -
    have n: "n mod PAGE = 0" using fresh by simp
    then obtain q where q: "n = PAGE * q" by (metis mod_0_imp_dvd dvd_def)
    have "accessible n (unat sz) (vm s1)" using fresh by simp
    moreover have "0 < unat sz" using \<open>sz \<noteq> 0\<close> by (simp add: unat_gt_0)
    ultimately have "page_mapped (vm s1) q"
      by (auto simp: accessible_def q list_all_iff)
    then show ?thesis by (simp add: accessible_def q)
  qed
  have "contents (vm t) (n + x) = (if x < 4096 then contents (vm s1) (PAGE * p + x) else contents (vm s1) (n + x))"
    by (simp add: t memopt_free_def do_munmap_def do_memcpy_def)
  moreover have "contents (vm s1) (PAGE * p + x) = contents (vm s) (PAGE * p + x)" if "x < 4096"
    using fresh old [OF that] by blast
  moreover have "contents (vm s1) (n + x) = 0" using fresh assms(4) by blast
  moreover have "faulted (vm t) = faulted (vm s)"
    using acc acc_n fresh by (simp add: t memopt_free_def do_munmap_def do_memcpy_def)
  ultimately show ?thesis by simp
qed

theorem memopt_realloc_keeps_one_page_witness:
  "let v = empty_vm\<lparr>page_mapped := (\<lambda>q. q \<in> {1, 2}), contents := (\<lambda>_. 7)\<rparr>
   in \<exists>t. memopt_realloc example_os (Some 4096) 8192 (memopt_boot v) = (Some 65536, t) \<and>
        contents (vm t) 65536 = 7 \<and> contents (vm t) 69632 = 0"
proof -
  let ?v = "empty_vm\<lparr>page_mapped := (\<lambda>q. q \<in> {1, 2}), contents := (\<lambda>_. 7)\<rparr>"
  have place: "mmap_at example_os ?v 8192 False = Some 16"
    by (simp add: example_os_def free_pages_def empty_vm_def list_all_iff)
  then obtain t where t: "memopt_realloc example_os (Some (PAGE * 1)) 8192 (memopt_boot ?v) = (Some 65536, t)"
    by (simp add: memopt_realloc_def alloc_eq memopt_boot_def)
  note r = memopt_realloc_keeps_one_page [OF example_os_ok _ t]
  from r [of 0] r [of 4096] t show ?thesis
    by (simp add: memopt_boot_def)
qed

text \<open>C36: A granted \<open>calloc\<close> maps the pages of the product modulo 2 to the 64 and no others, all of
  them zero: when the product does not fit into 64 bits the block is smaller than the caller
  asked for.\<close>

theorem memopt_calloc_maps_wrapped_product:
  assumes "os_ok os" and "memopt_calloc os nmemb sz s = (Some a, t)"
  shows "let n = (unat nmemb * unat sz) mod 2 ^ 64 in
    (\<forall>q. page_mapped (vm t) q \<longleftrightarrow> page_mapped (vm s) q \<or> in_pages (a div PAGE) ((n + 4095) div PAGE) q) \<and>
    (\<forall>x<n. contents (vm t) (a + x) = 0) \<and> faulted (vm t) = faulted (vm s)"
proof -
  obtain s1 where a: "memopt_alloc os (nmemb * sz) s = (Some a, s1)"
    and t: "t = s1\<lparr>vm := do_memset a 0 (unat (nmemb * sz)) (vm s1)\<rparr>"
    using assms(2) by (auto simp: memopt_calloc_def Let_def split: prod.splits option.splits)
  note fresh = alloc_fresh [OF assms(1) a]
  obtain p where p: "mmap_at os (vm s) (nmemb * sz) False = Some p" "a = PAGE * p"
    "vm s1 = snd (do_mmap os (nmemb * sz) False (vm s))"
    using a by (auto simp: alloc_eq split: option.splits)
  have n: "unat (nmemb * sz) = (unat nmemb * unat sz) mod 2 ^ 64"
    by (simp add: unat_word_ariths)
  have "page_mapped (vm t) q \<longleftrightarrow> page_mapped (vm s) q \<or> in_pages (a div PAGE) (pages (nmemb * sz)) q" for q
    by (auto simp: t do_memset_def p do_mmap_sel [OF p(1)])
  then show ?thesis
    using fresh unfolding Let_def n [symmetric]
    by (simp add: pages_def) (simp add: t do_memset_def)
qed

theorem memopt_calloc_maps_wrapped_product_witness:
  "\<exists>t. memopt_calloc example_os (2 ^ 63 + 1) 2 (memopt_boot empty_vm) = (Some 65536, t) \<and>
     page_mapped (vm t) 16 \<and> \<not> page_mapped (vm t) 17"
proof -
  obtain t where t: "memopt_calloc example_os (2 ^ 63 + 1) 2 (memopt_boot empty_vm) = (Some 65536, t)"
    by (simp add: memopt_calloc_def alloc_eq memopt_boot_def example_place)
  from memopt_calloc_maps_wrapped_product [OF example_os_ok t] t show ?thesis
    by (auto simp: memopt_boot_def empty_vm_def in_pages_def Let_def)
qed

end
