(* ===== verification/Memopt_Threads.thy ===== *)
theory Memopt_Threads
  imports Memopt Critical_Section
begin

section \<open>Threads that share the allocator: src/shared/memopt.c\<close>

text \<open>
  \<open>Memopt_Pool\<close> and \<open>Memopt\<close> take a call as one step. The library is made for programs with many
  threads: a pool is used under the mutex of its descriptor, the library's counters under
  \<open>g_lock\<close>. Here the loads and stores of these variables are interleaved, and the locale
  \<open>straight_line\<close> gives that nobody can tell.
\<close>

subsection \<open>A pool\<close>

text \<open>
  The mapping's address and size are fixed when the pool is made; the mark \<open>used\<close> is what the mutex
  protects. What is read out is the pointer; nothing is read out when null is returned.
\<close>

definition pool_code :: "u64 \<Rightarrow> u64 \<Rightarrow> u64 \<Rightarrow> (unit, u64) var_access list" where
  "pool_code base lim sz =
     [Load_var (), Compute (\<lambda>u. u + sz), Stop_if (\<lambda>u. lim < u),
      Load_var (), Compute (\<lambda>u. base + u), Read_out,
      Load_var (), Compute (\<lambda>u. u + sz), Store_var ()]"

definition pool_grant :: "u64 \<Rightarrow> u64 \<Rightarrow> u64 \<Rightarrow> u64 \<Rightarrow> u64 list \<times> u64" where
  "pool_grant base lim used sz = (if lim < used + sz then ([], used) else ([base + used], used + sz))"

text \<open>It is the model's operation.\<close>

lemma pool_grant_alloc:
  assumes "mpl_base p \<noteq> 0"
  shows "memopt_pool_alloc (Some p) sz =
    (case pool_grant (mpl_base p) (mpl_size p) (mpl_used p) sz of
       (out, u) \<Rightarrow> (if out = [] then None else Some (hd out), Some (p\<lparr>mpl_used := u\<rparr>)))"
  using assms by (simp add: memopt_pool_alloc_def pool_grant_def)

interpretation pool_threads: straight_line "\<lambda>_ u. u" "\<lambda>_ v _. v" 0 "pool_code base lim" "pool_grant base lim"
  for base lim
  by unfold_locales (simp add: pool_code_def pool_grant_def)

text \<open>The threads of a program that allocate from one pool.\<close>

abbreviation pool_step where
  "pool_step base lim \<equiv>
     section_step (perform (\<lambda>_ u. u) (\<lambda>_ v _. v)) (\<lambda>sz. (0, [], pool_code base lim sz))"

type_synonym pool_config = "(u64, u64, (unit, u64) place, u64 list) section_config"

text \<open>Pointer and size of what the threads that have passed were given.\<close>

fun granted :: "u64 list list \<Rightarrow> u64 list \<Rightarrow> (u64 \<times> u64) list" where
  "granted ([ptr] # outs) (sz # szs) = (ptr, sz) # granted outs szs"
| "granted (_ # outs) (_ # szs) = granted outs szs"
| "granted _ _ = []"

lemma granted_run:
  assumes "mpl_base p \<noteq> 0"
  shows "granted (fst (run_ops (pool_grant (mpl_base p) (mpl_size p)) (mpl_used p) szs)) szs =
    pool_run (Some p) szs"
  using assms
proof (induction szs arbitrary: p)
  case Nil
  then show ?case by simp
next
  case (Cons sz szs)
  have "granted (fst (run_ops (pool_grant (mpl_base p) (mpl_size p)) u szs)) szs =
      pool_run (Some (p\<lparr>mpl_used := u\<rparr>)) szs" for u
    using Cons.IH [of "p\<lparr>mpl_used := u\<rparr>"] Cons.prems by simp
  then show ?case
    by (simp add: pool_grant_alloc [OF Cons.prems] case_prod_beta Let_def)
       (simp add: pool_grant_def)
qed

subsection \<open>The library's counters\<close>

datatype counter =
    C_allocated | C_freed | C_pool_used | C_pool_total | C_allocations | C_frees | C_initialized

text \<open>\<open>bool\<close> is 0 or 1.\<close>

fun read_counter :: "counter \<Rightarrow> memopt_state \<Rightarrow> u64" where
  "read_counter C_allocated s = g_total_allocated s"
| "read_counter C_freed s = g_total_freed s"
| "read_counter C_pool_used s = g_pool_used s"
| "read_counter C_pool_total s = g_pool_total s"
| "read_counter C_allocations s = g_allocation_count s"
| "read_counter C_frees s = g_free_count s"
| "read_counter C_initialized s = of_bool (g_initialized s)"

fun write_counter :: "counter \<Rightarrow> u64 \<Rightarrow> memopt_state \<Rightarrow> memopt_state" where
  "write_counter C_allocated v s = s\<lparr>g_total_allocated := v\<rparr>"
| "write_counter C_freed v s = s\<lparr>g_total_freed := v\<rparr>"
| "write_counter C_pool_used v s = s\<lparr>g_pool_used := v\<rparr>"
| "write_counter C_pool_total v s = s\<lparr>g_pool_total := v\<rparr>"
| "write_counter C_allocations v s = s\<lparr>g_allocation_count := v\<rparr>"
| "write_counter C_frees v s = s\<lparr>g_free_count := v\<rparr>"
| "write_counter C_initialized v s = s\<lparr>g_initialized := (v \<noteq> 0)\<rparr>"

text \<open>The parts of the calls that are under \<open>g_lock\<close>: of a granted allocation, of freeing a block,
  of the statistics, of start and end.\<close>

datatype counter_call = Count_alloc u64 | Count_free | Copy_stats | Start_up | Shut_down

definition alloc_code :: "u64 \<Rightarrow> (counter, u64) var_access list" where
  "alloc_code sz =
     [Load_var C_allocated, Compute (\<lambda>v. v + sz), Store_var C_allocated,
      Load_var C_pool_used, Compute (\<lambda>v. v + sz), Store_var C_pool_used,
      Load_var C_allocations, Compute (\<lambda>v. v + 1), Store_var C_allocations]"

definition free_code :: "(counter, u64) var_access list" where
  "free_code =
     [Load_var C_frees, Compute (\<lambda>v. v + 1), Store_var C_frees,
      Load_var C_pool_used, Compute (\<lambda>v. if v > 4096 then v - 4096 else 0), Store_var C_pool_used]"

definition get_stats_code :: "(counter, u64) var_access list" where
  "get_stats_code =
     [Load_var C_allocated, Read_out, Load_var C_freed, Read_out, Load_var C_pool_used, Read_out,
      Load_var C_pool_total, Read_out, Load_var C_allocations, Read_out, Load_var C_frees, Read_out]"

definition init_code :: "(counter, u64) var_access list" where
  "init_code =
     [Load_var C_initialized, Stop_if (\<lambda>v. v \<noteq> 0),
      Compute (\<lambda>_. 0), Store_var C_allocated, Store_var C_freed, Store_var C_pool_used,
      Compute (\<lambda>_. MEMOPT_POOL_SIZE_DEFAULT), Store_var C_pool_total,
      Compute (\<lambda>_. 0), Store_var C_allocations, Store_var C_frees,
      Compute (\<lambda>_. 1), Store_var C_initialized]"

definition shutdown_code :: "(counter, u64) var_access list" where
  "shutdown_code =
     [Compute (\<lambda>_. 0), Store_var C_initialized, Compute (\<lambda>_. 0), Store_var C_pool_used]"

fun counter_code :: "counter_call \<Rightarrow> (counter, u64) var_access list" where
  "counter_code (Count_alloc sz) = alloc_code sz"
| "counter_code Count_free = free_code"
| "counter_code Copy_stats = get_stats_code"
| "counter_code Start_up = init_code"
| "counter_code Shut_down = shutdown_code"

lemmas counter_code_defs = alloc_code_def free_code_def get_stats_code_def init_code_def shutdown_code_def

text \<open>The fields of the statistics that are copied from counters.\<close>

definition stats_list :: "memopt_stats \<Rightarrow> u64 list" where
  "stats_list st = [st_total_allocated st, st_total_freed st, st_pool_used st, st_pool_total st,
     st_allocation_count st, st_free_count st]"

fun count_call :: "memopt_state \<Rightarrow> counter_call \<Rightarrow> u64 list \<times> memopt_state" where
  "count_call s (Count_alloc sz) =
     ([], s\<lparr>g_total_allocated := g_total_allocated s + sz, g_pool_used := g_pool_used s + sz,
            g_allocation_count := g_allocation_count s + 1\<rparr>)"
| "count_call s Count_free =
     ([], s\<lparr>g_free_count := g_free_count s + 1,
            g_pool_used := (if g_pool_used s > 4096 then g_pool_used s - 4096 else 0)\<rparr>)"
| "count_call s Copy_stats = (stats_list (memopt_get_stats s), s)"
| "count_call s Start_up = ([], snd (memopt_init s))"
| "count_call s Shut_down = ([], memopt_shutdown s)"

text \<open>What \<open>Memopt\<close> has for the whole calls.\<close>

lemma count_call_alloc:
  assumes "memopt_alloc_flags os sz flags s = (Some a, t)"
  shows "t = snd (count_call (s\<lparr>vm := vm t\<rparr>) (Count_alloc sz))"
  using assms
  by (auto simp: memopt_alloc_flags_def Let_def split: prod.splits option.splits if_splits)

lemma count_call_free:
  "memopt_free (Some a) s = (snd (count_call s Count_free))\<lparr>vm := do_munmap a 4096 (vm s)\<rparr>"
  by (simp add: memopt_free_def)

interpretation counter_threads: straight_line read_counter write_counter 0 counter_code count_call
proof unfold_locales
  fix s r
  show "run_code read_counter write_counter s (0, [], counter_code r) = count_call s r"
    by (cases r; cases s) (simp_all add: counter_code_defs memopt_get_stats_def stats_list_def memopt_init_def memopt_shutdown_def)
qed

abbreviation counter_step where
  "counter_step \<equiv> section_step (perform read_counter write_counter) (\<lambda>r. (0, [], counter_code r))"

subsection \<open>Properties\<close>

text \<open>C21: Any number of threads that allocate from one pool in order (\<open>pool_ok\<close>: it has memory, at most
  half the address space, and is used up to a point inside it), with fair requests (less than half
  the address space each) and their loads and stores interleaved in any way, get what they would get one after another in the order in
  which they passed the mutex; so at every moment the blocks given out are inside the mapping,
  behind what was used before, and disjoint; and when the mutex is free the mark is the one the
  sequence of calls leaves.\<close>

theorem pool_shared_by_threads:
  assumes "pool_ok p" and "\<forall>sz \<in> set szs. fair_request sz"
    and "(pool_step (mpl_base p) (mpl_size p))\<^sup>*\<^sup>* (section_start (mpl_used p) szs) c"
  shows "let blocks = granted (results c) (requests c) in
    blocks = pool_run (Some p) (requests c) \<and> set (requests c) \<subseteq> set szs \<and>
    sorted_wrt (\<lambda>a b. fst a + snd a \<le> fst b)
      (map (\<lambda>(ptr, sz). (unat (ptr - mpl_base p), unat sz)) blocks) \<and>
    (\<forall>(ptr, sz) \<in> set blocks. unat (mpl_used p) \<le> unat (ptr - mpl_base p) \<and>
       unat (ptr - mpl_base p) + unat sz \<le> unat (mpl_size p)) \<and>
    (holder c = None \<longrightarrow>
       shared c = snd (run_ops (pool_grant (mpl_base p) (mpl_size p)) (mpl_used p) (requests c)))"
proof -
  have base: "mpl_base p \<noteq> 0" using assms(1) by (simp add: pool_ok_def)
  note one = pool_threads.one_after_another [OF assms(3)]
    and from_szs = pool_threads.requests_from [OF assms(3)]
  have run: "granted (results c) (requests c) = pool_run (Some p) (requests c)"
    using granted_run [OF base, of "requests c"] one by simp
  have "\<forall>sz \<in> set (requests c). fair_request sz" using from_szs assms(2) by blast
  note blocks = pool.blocks_ordered [OF assms(1) this] pool.blocks_inside [OF assms(1) this]
  show ?thesis
    using blocks one from_szs unfolding Let_def run pool_run_blocks by force
qed

text \<open>What the calls add to the counters, whatever their order.\<close>

fun adds_bytes :: "counter_call \<Rightarrow> u64" where
  "adds_bytes (Count_alloc sz) = sz"
| "adds_bytes _ = 0"

fun adds_alloc :: "counter_call \<Rightarrow> u64" where
  "adds_alloc (Count_alloc sz) = 1"
| "adds_alloc _ = 0"

fun adds_free :: "counter_call \<Rightarrow> u64" where
  "adds_free Count_free = 1"
| "adds_free _ = 0"

lemma run_counts:
  "Start_up \<notin> set calls \<Longrightarrow> run_ops count_call s calls = (as, t) \<Longrightarrow>
   g_total_allocated t = g_total_allocated s + sum_list (map adds_bytes calls) \<and>
   g_allocation_count t = g_allocation_count s + sum_list (map adds_alloc calls) \<and>
   g_free_count t = g_free_count s + sum_list (map adds_free calls)"
proof (induction calls arbitrary: s as)
  case Nil
  then show ?case by simp
next
  case (Cons r calls)
  have "run_ops count_call (snd (count_call s r)) calls = (tl as, t)"
    using Cons.prems(2) by (auto simp: case_prod_beta Let_def)
  from Cons.IH [OF _ this] Cons.prems(1) show ?case
    by (cases r) (simp_all add: ac_simps memopt_shutdown_def)
qed

lemma sum_list_mset: "mset xs = mset ys \<Longrightarrow> sum_list (map f xs) = sum_list (map f ys)"
  for f :: "'b \<Rightarrow> u64"
  by (metis mset_map sum_mset_sum_list)

text \<open>C22: Any number of threads that allocate, free, read the statistics, start and stop the library at
  once: every call has the effect and, for the statistics, the numbers of one moment between two
  calls, in the order in which they passed \<open>g_lock\<close>; somebody can go on until all have returned;
  and then, if none started the library anew, the total, the allocations and the frees have grown
  by exactly what the calls add, no update lost.\<close>

theorem counters_shared_by_threads:
  assumes "counter_step\<^sup>*\<^sup>* (section_start s0 calls) c"
  shows "results c = fst (run_ops count_call s0 (requests c)) \<and>
    (holder c = None \<longrightarrow> shared c = snd (run_ops count_call s0 (requests c))) \<and>
    ((\<exists>t \<in> set (threads c). \<forall>a. snd t \<noteq> Past a) \<longrightarrow> (\<exists>d. counter_step c d)) \<and>
    ((\<forall>t \<in> set (threads c). \<exists>r a. t = (r, Past a)) \<and> Start_up \<notin> set calls \<longrightarrow>
       g_total_allocated (shared c) = g_total_allocated s0 + sum_list (map adds_bytes calls) \<and>
       g_allocation_count (shared c) = g_allocation_count s0 + sum_list (map adds_alloc calls) \<and>
       g_free_count (shared c) = g_free_count s0 + sum_list (map adds_free calls))"
proof -
  note one = counter_threads.one_after_another [OF assms]
  have "g_total_allocated (shared c) = g_total_allocated s0 + sum_list (map adds_bytes calls) \<and>
       g_allocation_count (shared c) = g_allocation_count s0 + sum_list (map adds_alloc calls) \<and>
       g_free_count (shared c) = g_free_count s0 + sum_list (map adds_free calls)"
    if past: "\<forall>t \<in> set (threads c). \<exists>r a. t = (r, Past a)" and "Start_up \<notin> set calls"
  proof -
    have "Start_up \<notin> set (requests c)"
      using counter_threads.requests_from [OF assms] that(2) by blast
    moreover have "run_ops count_call s0 (requests c) = (results c, shared c)"
      using one counter_threads.all_passed [OF assms past] by (simp add: prod_eq_iff)
    ultimately show ?thesis
      using run_counts sum_list_mset [OF counter_threads.requests_in_the_end [OF assms past]] by metis
  qed
  then show ?thesis
    using one counter_threads.goes_on [OF assms] by (auto simp: in_set_conv_nth)
qed

subsection \<open>Examples\<close>

text \<open>A thread that performs its whole call while the others wait.\<close>

theorem pool_shared_by_threads_witness:
  "\<exists>c. (pool_step 4096 100)\<^sup>*\<^sup>* (section_start 0 [60, 50]) c \<and>
     requests c = [50] \<and> granted (results c) (requests c) = [(4096, 50)]"
proof -
  let ?p = "\<lparr>mpl_base = 4096, mpl_size = 100, mpl_used = 0, mpl_flags = 0, mpl_numa_node = 0\<rparr>"
  let ?c = "section_start 0 [60, 50] :: pool_config"
  let ?d = "?c\<lparr>shared := 50, threads := [(60, At_lock), (50, Past [4096])], passed := [1]\<rparr>"
  have "pool_grant 4096 100 0 50 = ([4096], 50)" by (simp add: pool_grant_def)
  with pool_threads.run_alone [of 1 ?c 50 4096 100]
  have run: "(pool_step 4096 100)\<^sup>*\<^sup>* ?c ?d" by (simp add: section_start_def)
  have d: "requests ?d = [50]" "results ?d = [[4096]]" by (simp_all add: requests_def results_def)
  have "pool_ok ?p" "\<forall>sz \<in> set [60, 50]. fair_request sz"
    by (simp_all add: pool_ok_def fair_request_def)
  from pool_shared_by_threads [OF this, of ?d] run
  have "granted (results ?d) (requests ?d) = pool_run (Some ?p) (requests ?d)"
    by (simp add: Let_def)
  moreover have "pool_run (Some ?p) [50] = [(4096, 50)]" by code_simp
  ultimately show ?thesis using run d by metis
qed

theorem counters_shared_by_threads_witness:
  "\<exists>c. counter_step\<^sup>*\<^sup>* (section_start (memopt_boot empty_vm) [Count_alloc 10]) c \<and> holder c = None \<and>
     g_total_allocated (shared c) = 10 \<and> g_allocation_count (shared c) = 1"
proof -
  let ?s = "memopt_boot empty_vm" and ?c = "section_start (memopt_boot empty_vm) [Count_alloc 10]"
  obtain c where c: "counter_step\<^sup>*\<^sup>* ?c c" "threads c = [(Count_alloc 10, Past [])]" "holder c = None"
    using counter_threads.run_alone [of 0 ?c "Count_alloc 10"]
    by (fastforce simp: section_start_def)
  then have "\<forall>t \<in> set (threads c). \<exists>r a. t = (r, Past a)" by simp
  with counters_shared_by_threads [OF c(1)]
  have "g_total_allocated (shared c) = g_total_allocated ?s + 10 \<and>
    g_allocation_count (shared c) = g_allocation_count ?s + 1" by fastforce
  with c(1,3) show ?thesis by (auto simp: memopt_boot_def)
qed

end
