(* ===== verification/Aal_Byteswap.thy ===== *)
theory Aal_Byteswap
  imports Uroam_Prelude
begin

unbundle bit_operations_syntax

section \<open>Byte swapping: aal/aal.c\<close>

text \<open>
  The four routines that reverse the bytes of every 16, 32, 64 or 128 bit unit of a buffer in
  place. Memory is the list of the bytes from the buffer's start on, of a little-endian machine;
  it may reach behind the buffer, whose length in bytes is the routine's argument. A word of
  memory is read and written through its bytes.
\<close>

subsection \<open>Words in memory\<close>

definition get_word :: "u8 list \<Rightarrow> nat \<Rightarrow> 'a::len word" where
  "get_word bs i = of_le_bytes (take (LENGTH('a) div 8) (drop (LENGTH('a) div 8 * i) bs))"

definition put_word :: "nat \<Rightarrow> 'a::len word \<Rightarrow> u8 list \<Rightarrow> u8 list" where
  "put_word i w bs = take (LENGTH('a) div 8 * i) bs @ le_bytes w @ drop (LENGTH('a) div 8 * Suc i) bs"

subsection \<open>The routines\<close>

definition swap16 :: "u16 \<Rightarrow> u16" where
  "swap16 p = drop_bit 8 (p AND 0xFF00) OR push_bit 8 (p AND 0x00FF)"

definition swap32 :: "u32 \<Rightarrow> u32" where
  "swap32 p =
     drop_bit 24 (p AND 0xFF000000) OR drop_bit 8 (p AND 0x00FF0000) OR
     push_bit 8 (p AND 0x0000FF00) OR push_bit 24 (p AND 0x000000FF)"

definition swap64 :: "u64 \<Rightarrow> u64" where
  "swap64 p =
     drop_bit 56 (p AND 0xFF00000000000000) OR drop_bit 40 (p AND 0x00FF000000000000) OR
     drop_bit 24 (p AND 0x0000FF0000000000) OR drop_bit 8 (p AND 0x000000FF00000000) OR
     push_bit 8 (p AND 0x00000000FF000000) OR push_bit 24 (p AND 0x0000000000FF0000) OR
     push_bit 40 (p AND 0x000000000000FF00) OR push_bit 56 (p AND 0x00000000000000FF)"

definition aal_byte_swap16 :: "nat \<Rightarrow> u8 list \<Rightarrow> u8 list" where
  "aal_byte_swap16 len data =
     for_upto (len div 2) (\<lambda>i p. put_word i (swap16 (get_word p i)) p) data"

definition aal_byte_swap32 :: "nat \<Rightarrow> u8 list \<Rightarrow> u8 list" where
  "aal_byte_swap32 len data =
     for_upto (len div 4) (\<lambda>i p. put_word i (swap32 (get_word p i)) p) data"

definition aal_byte_swap64 :: "nat \<Rightarrow> u8 list \<Rightarrow> u8 list" where
  "aal_byte_swap64 len data =
     for_upto (len div 8) (\<lambda>i p. put_word i (swap64 (get_word p i)) p) data"

text \<open>The loop over \<open>i = 0, 2, 4, ...\<close> below \<open>len / 8\<close> runs once for every \<open>j\<close> with \<open>i = 2 * j\<close>.\<close>

definition swap128_body :: "nat \<Rightarrow> u8 list \<Rightarrow> u8 list" where
  "swap128_body j p =
     (let i = 2 * j; t0 = (get_word p i :: u64); t1 = (get_word p (i + 1) :: u64)
      in put_word (i + 1) (swap64 t0) (put_word i (swap64 t1) p))"

definition aal_byte_swap128 :: "nat \<Rightarrow> u8 list \<Rightarrow> u8 list" where
  "aal_byte_swap128 len data = for_upto ((len div 8 + 1) div 2) swap128_body data"

subsection \<open>The bytes of a swapped word\<close>

text \<open>A masked byte lane, shifted down or up.\<close>

lemma bit_lane_down:
  fixes p :: "'a::len word"
  shows "bit (drop_bit a (p AND push_bit b (mask 8))) m \<longleftrightarrow> b \<le> m + a \<and> m + a < b + 8 \<and> bit p (m + a)"
  by (auto simp: bit_simps add.commute dest: bit_imp_le_length)

lemma bit_lane_up:
  fixes p :: "'a::len word"
  shows "bit (push_bit a (p AND push_bit b (mask 8))) m \<longleftrightarrow>
    a \<le> m \<and> b \<le> m - a \<and> m - a < b + 8 \<and> m < LENGTH('a) \<and> bit p (m - a)"
  by (auto simp: bit_simps dest: bit_imp_le_length)

lemma byte_eqI:
  fixes v w :: "'a::len word"
  assumes "\<And>n. n < 8 \<Longrightarrow> bit v (8 * i + n) = bit w (8 * j + n)"
  shows "(ucast (drop_bit (8 * i) v) :: u8) = ucast (drop_bit (8 * j) w)"
  by (rule bit_word_eqI) (simp add: bit_ucast_iff bit_drop_bit_eq assms)

lemma swap16_bytes: "le_bytes (swap16 p) = rev (le_bytes p)"
proof -
  have m: "(0xFF00 :: u16) = push_bit 8 (mask 8)" "(0x00FF :: u16) = push_bit 0 (mask 8)"
    by (simp_all add: mask_eq_exp_minus_1 push_bit_eq_mult)
  note lanes = swap16_def m bit_or_iff bit_lane_down bit_lane_up
  have "(ucast (drop_bit (8 * 0) (swap16 p)) :: u8) = ucast (drop_bit (8 * 1) p)"
    "(ucast (drop_bit (8 * 1) (swap16 p)) :: u8) = ucast (drop_bit (8 * 0) p)"
    by (rule byte_eqI, unfold lanes, simp add: add.commute)+
  then show ?thesis by (simp add: le_bytes_def upt_rec)
qed

lemma swap32_bytes: "le_bytes (swap32 p) = rev (le_bytes p)"
proof -
  have m: "(0xFF000000 :: u32) = push_bit 24 (mask 8)" "(0x00FF0000 :: u32) = push_bit 16 (mask 8)"
    "(0x0000FF00 :: u32) = push_bit 8 (mask 8)" "(0x000000FF :: u32) = push_bit 0 (mask 8)"
    by (simp_all add: mask_eq_exp_minus_1 push_bit_eq_mult)
  note lanes = swap32_def m bit_or_iff bit_lane_down bit_lane_up
  have "(ucast (drop_bit (8 * 0) (swap32 p)) :: u8) = ucast (drop_bit (8 * 3) p)"
    "(ucast (drop_bit (8 * 1) (swap32 p)) :: u8) = ucast (drop_bit (8 * 2) p)"
    "(ucast (drop_bit (8 * 2) (swap32 p)) :: u8) = ucast (drop_bit (8 * 1) p)"
    "(ucast (drop_bit (8 * 3) (swap32 p)) :: u8) = ucast (drop_bit (8 * 0) p)"
    by (rule byte_eqI, unfold lanes, simp add: add.commute)+
  then show ?thesis by (simp add: le_bytes_def upt_rec)
qed

lemma swap64_bytes: "le_bytes (swap64 p) = rev (le_bytes p)"
proof -
  have m: "(0xFF00000000000000 :: u64) = push_bit 56 (mask 8)" "(0x00FF000000000000 :: u64) = push_bit 48 (mask 8)"
    "(0x0000FF0000000000 :: u64) = push_bit 40 (mask 8)" "(0x000000FF00000000 :: u64) = push_bit 32 (mask 8)"
    "(0x00000000FF000000 :: u64) = push_bit 24 (mask 8)" "(0x0000000000FF0000 :: u64) = push_bit 16 (mask 8)"
    "(0x000000000000FF00 :: u64) = push_bit 8 (mask 8)" "(0x00000000000000FF :: u64) = push_bit 0 (mask 8)"
    by (simp_all add: mask_eq_exp_minus_1 push_bit_eq_mult)
  note lanes = swap64_def m bit_or_iff bit_lane_down bit_lane_up
  have "(ucast (drop_bit (8 * 0) (swap64 p)) :: u8) = ucast (drop_bit (8 * 7) p)"
    "(ucast (drop_bit (8 * 1) (swap64 p)) :: u8) = ucast (drop_bit (8 * 6) p)"
    "(ucast (drop_bit (8 * 2) (swap64 p)) :: u8) = ucast (drop_bit (8 * 5) p)"
    "(ucast (drop_bit (8 * 3) (swap64 p)) :: u8) = ucast (drop_bit (8 * 4) p)"
    "(ucast (drop_bit (8 * 4) (swap64 p)) :: u8) = ucast (drop_bit (8 * 3) p)"
    "(ucast (drop_bit (8 * 5) (swap64 p)) :: u8) = ucast (drop_bit (8 * 2) p)"
    "(ucast (drop_bit (8 * 6) (swap64 p)) :: u8) = ucast (drop_bit (8 * 1) p)"
    "(ucast (drop_bit (8 * 7) (swap64 p)) :: u8) = ucast (drop_bit (8 * 0) p)"
    by (rule byte_eqI, unfold lanes, simp add: add.commute)+
  then show ?thesis by (simp add: le_bytes_def upt_rec)
qed

subsection \<open>Loops that reverse chunks\<close>

text \<open>A loop body that reverses the bytes of the \<open>i\<close>-th chunk of \<open>c\<close> bytes.\<close>

locale chunk_reverser =
  fixes c :: nat and body :: "nat \<Rightarrow> u8 list \<Rightarrow> u8 list"
  assumes c_pos: "0 < c"
    and body_chunk: "c * Suc i \<le> length bs \<Longrightarrow>
      body i bs = take (c * i) bs @ rev (take c (drop (c * i) bs)) @ drop (c * Suc i) bs"
begin

definition mirror :: "nat \<Rightarrow> nat" where
  "mirror k = c * (k div c) + (c - 1 - k mod c)"

lemma body_length: "c * Suc i \<le> length bs \<Longrightarrow> length (body i bs) = length bs"
  by (simp add: body_chunk)

lemma chunk_index: "c * i \<le> k \<and> k < c * Suc i \<longleftrightarrow> k div c = i"
proof
  assume "c * i \<le> k \<and> k < c * Suc i"
  then show "k div c = i" by (auto intro: div_nat_eqI)
next
  assume "k div c = i"
  then show "c * i \<le> k \<and> k < c * Suc i"
    using times_div_less_eq_dividend [of c k] dividend_less_times_div [OF c_pos, of k] by auto
qed

lemma body_nth:
  assumes "c * Suc i \<le> length bs" and "k < length bs"
  shows "body i bs ! k = (if k div c = i then bs ! mirror k else bs ! k)"
proof (cases "k div c = i")
  case True
  define m where "m = k mod c"
  have m: "m < c" "k = c * i + m"
    using True c_pos by (auto simp: m_def)
  have "body i bs ! k = rev (take c (drop (c * i) bs)) ! m"
    using assms m by (simp add: body_chunk nth_append)
  also have "\<dots> = bs ! (c * i + (c - 1 - m))"
    using assms(1) m by (simp add: rev_nth)
  finally show ?thesis using True m_def by (simp add: mirror_def)
next
  case False
  then have "k < c * i \<or> c * Suc i \<le> k"
    using chunk_index [of i k] by auto
  then show ?thesis
  proof
    assume "k < c * i"
    then show ?thesis using assms False by (simp add: body_chunk nth_append)
  next
    assume k: "c * Suc i \<le> k"
    then have "\<not> k < c * i" "\<not> k - c * i < c" by simp_all
    then show ?thesis using assms False k by (simp add: body_chunk nth_append)
  qed
qed

lemma mirror_div: "mirror k div c = k div c"
  using c_pos by (simp add: mirror_def div_eq_0_iff)

lemma mirror_mirror: "mirror (mirror k) = k"
proof -
  have "mirror k mod c = c - 1 - k mod c"
    using c_pos by (simp add: mirror_def)
  then have "mirror (mirror k) = c * (k div c) + (c - 1 - (c - 1 - k mod c))"
    by (simp only: mirror_def [of "mirror k"] mirror_div)
  moreover have "c - 1 - (c - 1 - k mod c) = k mod c"
    using mod_less_divisor [OF c_pos, of k] by simp
  ultimately show ?thesis by simp
qed

lemma mirror_less: "c * m \<le> n \<Longrightarrow> k < c * m \<Longrightarrow> mirror k < c * m"
proof -
  assume "k < c * m"
  then have "k div c < m" using c_pos by (simp add: div_less_iff_less_mult mult.commute)
  then have "mirror k div c < m" by (simp add: mirror_div)
  then show ?thesis using c_pos by (simp add: div_less_iff_less_mult mult.commute)
qed

lemma loop_length: "c * m \<le> length bs \<Longrightarrow> length (for_upto m body bs) = length bs"
proof (induction m)
  case 0
  then show ?case by simp
next
  case (Suc m)
  then have "length (for_upto m body bs) = length bs" by simp
  with Suc.prems show ?case by (simp add: for_upto_Suc body_length)
qed

lemma loop_nth:
  assumes "c * m \<le> length bs" and "k < length bs"
  shows "for_upto m body bs ! k = (if k < c * m then bs ! mirror k else bs ! k)"
  using assms
proof (induction m arbitrary: k)
  case 0
  then show ?case by simp
next
  case (Suc m)
  have len: "length (for_upto m body bs) = length bs" "c * m \<le> length bs"
    using Suc.prems by (simp_all add: loop_length)
  have step: "for_upto (Suc m) body bs ! k =
      (if k div c = m then for_upto m body bs ! mirror k else for_upto m body bs ! k)"
    using Suc.prems len by (simp add: for_upto_Suc body_nth)
  show ?case
  proof (cases "k div c = m")
    case True
    then have k: "\<not> k < c * m" "k < c * Suc m" "\<not> mirror k < c * m" "mirror k < c * Suc m"
      using chunk_index [of m k] chunk_index [of m "mirror k"] by (auto simp: mirror_div)
    have "mirror k < length bs" using k(4) Suc.prems(1) by simp
    from Suc.IH [OF len(2) this] step True k show ?thesis by simp
  next
    case False
    then have "k < c * Suc m \<longleftrightarrow> k < c * m"
      using chunk_index [of m k] by auto
    with step False Suc.IH [OF len(2) Suc.prems(2)] show ?thesis by simp
  qed
qed

lemma loop_loop:
  assumes "c * m \<le> length bs"
  shows "for_upto m body (for_upto m body bs) = bs"
proof (rule nth_equalityI)
  have len: "length (for_upto m body bs) = length bs" using assms by (rule loop_length)
  then show "length (for_upto m body (for_upto m body bs)) = length bs"
    using assms loop_length [of m "for_upto m body bs"] by simp
  fix k
  assume "k < length (for_upto m body (for_upto m body bs))"
  then have k: "k < length bs" using assms loop_length [of m "for_upto m body bs"] len by simp
  show "for_upto m body (for_upto m body bs) ! k = bs ! k"
  proof (cases "k < c * m")
    case True
    note less = mirror_less [OF order_refl True]
    then show ?thesis
      using True k assms len by (simp add: loop_nth mirror_mirror)
  next
    case False
    then show ?thesis using k assms len by (simp add: loop_nth)
  qed
qed

end

subsection \<open>The four routines are such loops\<close>

lemma le_bytes_of_le_bytes:
  assumes "length xs = LENGTH('a) div 8"
  shows "le_bytes (of_le_bytes xs :: 'a::len word) = xs"
proof (rule nth_equalityI)
  show "length (le_bytes (of_le_bytes xs :: 'a word)) = length xs"
    by (simp add: length_le_bytes assms)
  fix i
  assume "i < length (le_bytes (of_le_bytes xs :: 'a word))"
  then have i: "i < LENGTH('a) div 8" by (simp add: length_le_bytes)
  show "le_bytes (of_le_bytes xs :: 'a word) ! i = xs ! i"
  proof (rule bit_word_eqI)
    fix n
    assume "n < LENGTH(8)"
    then have n: "n < 8" by simp
    then have "(8 * i + n) div 8 = i" "(8 * i + n) mod 8 = n" "8 * i + n < LENGTH('a)"
      using i by simp_all
    then show "bit (le_bytes (of_le_bytes xs :: 'a word) ! i) n = bit (xs ! i) n"
      using i n assms by (simp add: le_bytes_def bit_ucast_iff bit_drop_bit_eq bit_of_le_bytes)
  qed
qed

lemma put_swapped_word:
  fixes swap :: "'a::len word \<Rightarrow> 'a word"
  assumes "\<And>w. le_bytes (swap w) = rev (le_bytes w)" and "LENGTH('a) div 8 * Suc i \<le> length bs"
  shows "put_word i (swap (get_word bs i)) bs = take (LENGTH('a) div 8 * i) bs @
    rev (take (LENGTH('a) div 8) (drop (LENGTH('a) div 8 * i) bs)) @ drop (LENGTH('a) div 8 * Suc i) bs"
proof -
  have "length (take (LENGTH('a) div 8) (drop (LENGTH('a) div 8 * i) bs)) = LENGTH('a) div 8"
    using assms(2) by simp
  then show ?thesis
    unfolding put_word_def get_word_def assms(1) by (simp add: le_bytes_of_le_bytes)
qed

interpretation r16: chunk_reverser 2 "\<lambda>i p. put_word i (swap16 (get_word p i)) p"
  by unfold_locales (simp, use put_swapped_word [OF swap16_bytes] in simp)

interpretation r32: chunk_reverser 4 "\<lambda>i p. put_word i (swap32 (get_word p i)) p"
  by unfold_locales (simp, use put_swapped_word [OF swap32_bytes] in simp)

interpretation r64: chunk_reverser 8 "\<lambda>i p. put_word i (swap64 (get_word p i)) p"
  by unfold_locales (simp, use put_swapped_word [OF swap64_bytes] in simp)

text \<open>Two words that change places while each is reversed are one reversed pair.\<close>

lemma le_bytes_swapped:
  "length xs = 8 \<Longrightarrow> le_bytes (swap64 (of_le_bytes xs)) = rev xs"
  by (simp add: swap64_bytes le_bytes_of_le_bytes)

lemma swap128_body_eq:
  assumes "16 * Suc j \<le> length bs"
  shows "swap128_body j bs = take (16 * j) bs @ rev (take 16 (drop (16 * j) bs)) @ drop (16 * Suc j) bs"
proof -
  define pre where "pre = take (16 * j) bs"
  define a where "a = take 8 (drop (16 * j) bs)"
  define b where "b = take 8 (drop (16 * j + 8) bs)"
  define post where "post = drop (16 * Suc j) bs"
  have len: "length pre = 16 * j" "length a = 8" "length b = 8"
    using assms by (simp_all add: pre_def a_def b_def)
  have bs: "bs = pre @ a @ b @ post"
    unfolding pre_def a_def b_def post_def
    by (metis (no_types, opaque_lifting) add.commute append_take_drop_id drop_drop mult_Suc_right
        numeral_Bit0)
  have t0: "(get_word bs (2 * j) :: u64) = of_le_bytes a"
    and t1: "(get_word bs (2 * j + 1) :: u64) = of_le_bytes b"
    using len by (simp_all add: bs get_word_def)
  have p1: "put_word (2 * j) (swap64 (of_le_bytes b)) bs = pre @ rev b @ b @ post"
    using len by (simp add: bs put_word_def le_bytes_swapped)
  have "put_word (2 * j + 1) (swap64 (of_le_bytes a)) (pre @ rev b @ b @ post) = pre @ rev b @ rev a @ post"
    using len by (simp add: put_word_def le_bytes_swapped)
  then have "swap128_body j bs = pre @ rev b @ rev a @ post"
    unfolding swap128_body_def Let_def t0 t1 p1 .
  moreover have "take 16 (drop (16 * j) bs) = a @ b" "take (16 * j) bs = pre" "drop (16 * Suc j) bs = post"
    using len by (simp_all add: bs)
  ultimately show ?thesis by simp
qed

interpretation r128: chunk_reverser 16 swap128_body
  by unfold_locales (simp, use swap128_body_eq in simp)

subsection \<open>Properties\<close>

text \<open>C25: Each routine reverses the bytes of every whole unit inside the given length and leaves the
  rest of the memory alone: byte \<open>k\<close> of the result is the byte on the other side of its unit's
  middle. For the 128-bit routine this takes a whole number of units, a length with an even
  number of 64-bit words.\<close>

theorem byte_swap_reverses_units:
  assumes "len \<le> length data" and "k < length data"
  shows "aal_byte_swap16 len data ! k =
      (if k < 2 * (len div 2) then data ! (2 * (k div 2) + (1 - k mod 2)) else data ! k) \<and>
    aal_byte_swap32 len data ! k =
      (if k < 4 * (len div 4) then data ! (4 * (k div 4) + (3 - k mod 4)) else data ! k) \<and>
    aal_byte_swap64 len data ! k =
      (if k < 8 * (len div 8) then data ! (8 * (k div 8) + (7 - k mod 8)) else data ! k) \<and>
    (even (len div 8) \<longrightarrow> aal_byte_swap128 len data ! k =
      (if k < 8 * (len div 8) then data ! (16 * (k div 16) + (15 - k mod 16)) else data ! k))"
proof -
  have len: "2 * (len div 2) \<le> length data" "4 * (len div 4) \<le> length data" "8 * (len div 8) \<le> length data"
    using assms(1) by (meson div_times_less_eq_dividend le_trans times_div_less_eq_dividend)+
  have "aal_byte_swap128 len data ! k =
      (if k < 8 * (len div 8) then data ! (16 * (k div 16) + (15 - k mod 16)) else data ! k)"
    if "even (len div 8)"
  proof -
    obtain n where n: "len div 8 = 2 * n" using \<open>even (len div 8)\<close> by (rule evenE)
    then have "16 * n \<le> length data" using len(3) by simp
    from r128.loop_nth [OF this assms(2)] n show ?thesis
      by (simp add: aal_byte_swap128_def r128.mirror_def)
  qed
  then show ?thesis
    using r16.loop_nth [OF len(1) assms(2)] r32.loop_nth [OF len(2) assms(2)]
      r64.loop_nth [OF len(3) assms(2)]
    by (simp add: aal_byte_swap16_def aal_byte_swap32_def aal_byte_swap64_def r16.mirror_def
        r32.mirror_def r64.mirror_def)
qed

theorem byte_swap_reverses_units_witness:
  "aal_byte_swap32 5 [1, 2, 3, 4, 5] ! 0 = 4 \<and> aal_byte_swap32 5 [1, 2, 3, 4, 5] ! 4 = 5"
  using byte_swap_reverses_units [of 5 "[1, 2, 3, 4, 5]" 0]
    byte_swap_reverses_units [of 5 "[1, 2, 3, 4, 5]" 4] by simp

text \<open>Swapping twice with the same length restores the memory, for every routine and every length
  inside it (the 128-bit one with an even number of words).\<close>

theorem byte_swap_involution:
  assumes "len \<le> length data"
  shows "aal_byte_swap16 len (aal_byte_swap16 len data) = data \<and>
    aal_byte_swap32 len (aal_byte_swap32 len data) = data \<and>
    aal_byte_swap64 len (aal_byte_swap64 len data) = data \<and>
    (even (len div 8) \<longrightarrow> aal_byte_swap128 len (aal_byte_swap128 len data) = data)"
proof -
  have len: "2 * (len div 2) \<le> length data" "4 * (len div 4) \<le> length data" "8 * (len div 8) \<le> length data"
    using assms by (meson div_times_less_eq_dividend le_trans times_div_less_eq_dividend)+
  have "aal_byte_swap128 len (aal_byte_swap128 len data) = data" if "even (len div 8)"
  proof -
    obtain n where n: "len div 8 = 2 * n" using \<open>even (len div 8)\<close> by (rule evenE)
    then have "16 * n \<le> length data" using len(3) by simp
    from r128.loop_loop [OF this] n show ?thesis by (simp add: aal_byte_swap128_def)
  qed
  then show ?thesis
    using r16.loop_loop [OF len(1)] r32.loop_loop [OF len(2)] r64.loop_loop [OF len(3)]
    by (simp add: aal_byte_swap16_def aal_byte_swap32_def aal_byte_swap64_def)
qed

theorem byte_swap_involution_witness:
  "aal_byte_swap64 8 (aal_byte_swap64 8 [1, 2, 3, 4, 5, 6, 7, 8]) = [1, 2, 3, 4, 5, 6, 7, 8]"
  using byte_swap_involution [of 8 "[1, 2, 3, 4, 5, 6, 7, 8]"] by simp

text \<open>With an odd number of 64-bit words the 128-bit routine runs over the end of the buffer: it
  exchanges the buffer's last word with the eight bytes behind it, each reversed.\<close>

theorem byte_swap128_overruns:
  assumes "len div 8 = 2 * n + 1" and "8 * (len div 8) + 8 \<le> length data" and "j < 8"
  shows "aal_byte_swap128 len data ! (8 * (len div 8) + j) = data ! (8 * (len div 8) - 1 - j) \<and>
    aal_byte_swap128 len data ! (8 * (len div 8) - 1 - j) = data ! (8 * (len div 8) + j)"
proof -
  have m: "16 * Suc n \<le> length data" using assms(1,2) by simp
  have run: "aal_byte_swap128 len data = for_upto (Suc n) swap128_body data"
    using assms(1) by (simp add: aal_byte_swap128_def)
  obtain i where i: "7 - j = i" "i < 8" "8 + j = 15 - i" "i \<le> 7" using assms(3) by auto
  have k: "8 * (len div 8) + j = 16 * n + (8 + j)" "8 * (len div 8) - 1 - j = 16 * n + i"
    using assms(1,3) i by simp_all
  have "r128.mirror (16 * n + (8 + j)) = 16 * n + (15 - (8 + j))" "r128.mirror (16 * n + i) = 16 * n + (15 - i)"
    using assms(3) i(2) by (simp_all add: r128.mirror_def)
  then have up: "r128.mirror (16 * n + (8 + j)) = 16 * n + i" "r128.mirror (16 * n + i) = 16 * n + (8 + j)"
    using i by simp_all
  have "16 * n + (8 + j) < 16 * Suc n" "16 * n + i < 16 * Suc n"
    using assms(3) i(2) by simp_all
  with m show ?thesis
    unfolding run k by (simp only: r128.loop_nth [OF m] up if_True less_le_trans simp_thms)
qed

theorem byte_swap128_overruns_witness:
  "aal_byte_swap128 8 [1, 2, 3, 4, 5, 6, 7, 8, 0, 0, 0, 0, 0, 0, 0, 0] ! 8 = 8"
  using byte_swap128_overruns [of 8 0 "[1, 2, 3, 4, 5, 6, 7, 8, 0, 0, 0, 0, 0, 0, 0, 0]" 0] by simp

end
