(* ===== verification/Aal_Atomics.thy ===== *)
theory Aal_Atomics
  imports Uroam_Prelude "HOL-Library.Multiset"
begin

unbundle bit_operations_syntax

section \<open>Atomic operations: aal/aal.c\<close>

text \<open>
  The atomic operations on 64 bit, 32 bit and pointer objects. Every one is a single
  sequentially consistent builtin, so that an execution of several threads is an interleaving of
  whole operations: the step relation \<open>atomic_step\<close> lets any thread perform its next operation.
  \<open>steps_linear\<close> reduces what holds of all interleavings to what holds of one list of
  operations performed in a row.
\<close>

subsection \<open>The operations\<close>

record aal_atomic64_t =
  value64 :: u64

record aal_atomic32_t =
  value32 :: u32

record aal_atomic_ptr_t =
  value_ptr :: u64

definition aal_atomic_load64 :: "aal_atomic64_t \<Rightarrow> u64" where
  "aal_atomic_load64 atom = value64 atom"

definition aal_atomic_store64 :: "aal_atomic64_t \<Rightarrow> u64 \<Rightarrow> aal_atomic64_t" where
  "aal_atomic_store64 atom v = atom\<lparr>value64 := v\<rparr>"

definition aal_atomic_add64 :: "aal_atomic64_t \<Rightarrow> u64 \<Rightarrow> u64 \<times> aal_atomic64_t" where
  "aal_atomic_add64 atom v = (value64 atom, atom\<lparr>value64 := value64 atom + v\<rparr>)"

definition aal_atomic_sub64 :: "aal_atomic64_t \<Rightarrow> u64 \<Rightarrow> u64 \<times> aal_atomic64_t" where
  "aal_atomic_sub64 atom v = (value64 atom, atom\<lparr>value64 := value64 atom - v\<rparr>)"

definition aal_atomic_inc64 :: "aal_atomic64_t \<Rightarrow> u64 \<times> aal_atomic64_t" where
  "aal_atomic_inc64 atom = (value64 atom, atom\<lparr>value64 := value64 atom + 1\<rparr>)"

definition aal_atomic_dec64 :: "aal_atomic64_t \<Rightarrow> u64 \<times> aal_atomic64_t" where
  "aal_atomic_dec64 atom = (value64 atom, atom\<lparr>value64 := value64 atom - 1\<rparr>)"

definition aal_atomic_and64 :: "aal_atomic64_t \<Rightarrow> u64 \<Rightarrow> u64 \<times> aal_atomic64_t" where
  "aal_atomic_and64 atom v = (value64 atom, atom\<lparr>value64 := value64 atom AND v\<rparr>)"

definition aal_atomic_or64 :: "aal_atomic64_t \<Rightarrow> u64 \<Rightarrow> u64 \<times> aal_atomic64_t" where
  "aal_atomic_or64 atom v = (value64 atom, atom\<lparr>value64 := value64 atom OR v\<rparr>)"

text \<open>A failing compare-and-swap writes what it found to \<open>expected\<close>, the second component.\<close>

definition aal_atomic_cas64 :: "aal_atomic64_t \<Rightarrow> u64 \<Rightarrow> u64 \<Rightarrow> bool \<times> u64 \<times> aal_atomic64_t" where
  "aal_atomic_cas64 atom expected desired =
     (if value64 atom = expected then (True, expected, atom\<lparr>value64 := desired\<rparr>)
      else (False, value64 atom, atom))"

definition aal_atomic_cas32 :: "aal_atomic32_t \<Rightarrow> u32 \<Rightarrow> u32 \<Rightarrow> bool \<times> u32 \<times> aal_atomic32_t" where
  "aal_atomic_cas32 atom expected desired =
     (if value32 atom = expected then (True, expected, atom\<lparr>value32 := desired\<rparr>)
      else (False, value32 atom, atom))"

definition aal_atomic_swap64 :: "aal_atomic64_t \<Rightarrow> u64 \<Rightarrow> u64 \<times> aal_atomic64_t" where
  "aal_atomic_swap64 atom v = (value64 atom, atom\<lparr>value64 := v\<rparr>)"

definition aal_atomic_load32 :: "aal_atomic32_t \<Rightarrow> u32" where
  "aal_atomic_load32 atom = value32 atom"

definition aal_atomic_store32 :: "aal_atomic32_t \<Rightarrow> u32 \<Rightarrow> aal_atomic32_t" where
  "aal_atomic_store32 atom v = atom\<lparr>value32 := v\<rparr>"

definition aal_atomic_add32 :: "aal_atomic32_t \<Rightarrow> u32 \<Rightarrow> u32 \<times> aal_atomic32_t" where
  "aal_atomic_add32 atom v = (value32 atom, atom\<lparr>value32 := value32 atom + v\<rparr>)"

definition aal_atomic_sub32 :: "aal_atomic32_t \<Rightarrow> u32 \<Rightarrow> u32 \<times> aal_atomic32_t" where
  "aal_atomic_sub32 atom v = (value32 atom, atom\<lparr>value32 := value32 atom - v\<rparr>)"

definition aal_atomic_inc32 :: "aal_atomic32_t \<Rightarrow> u32 \<times> aal_atomic32_t" where
  "aal_atomic_inc32 atom = (value32 atom, atom\<lparr>value32 := value32 atom + 1\<rparr>)"

definition aal_atomic_dec32 :: "aal_atomic32_t \<Rightarrow> u32 \<times> aal_atomic32_t" where
  "aal_atomic_dec32 atom = (value32 atom, atom\<lparr>value32 := value32 atom - 1\<rparr>)"

definition aal_atomic_load_ptr :: "aal_atomic_ptr_t \<Rightarrow> u64" where
  "aal_atomic_load_ptr atom = value_ptr atom"

definition aal_atomic_store_ptr :: "aal_atomic_ptr_t \<Rightarrow> u64 \<Rightarrow> aal_atomic_ptr_t" where
  "aal_atomic_store_ptr atom v = atom\<lparr>value_ptr := v\<rparr>"

subsection \<open>Threads on one 64 bit object\<close>

datatype op64 =
    Load64 | Store64 u64 | Add64 u64 | Sub64 u64 | Inc64 | Dec64
  | And64 u64 | Or64 u64 | Swap64 u64 | Cas64 u64 u64

text \<open>What a call returns: nothing, a value, or success and the value left in \<open>expected\<close>.\<close>

datatype result64 = Done | Got u64 | Cas_result bool u64

fun perform64 :: "op64 \<Rightarrow> aal_atomic64_t \<Rightarrow> result64 \<times> aal_atomic64_t" where
  "perform64 Load64 atom = (Got (aal_atomic_load64 atom), atom)"
| "perform64 (Store64 v) atom = (Done, aal_atomic_store64 atom v)"
| "perform64 (Add64 v) atom = apfst Got (aal_atomic_add64 atom v)"
| "perform64 (Sub64 v) atom = apfst Got (aal_atomic_sub64 atom v)"
| "perform64 Inc64 atom = apfst Got (aal_atomic_inc64 atom)"
| "perform64 Dec64 atom = apfst Got (aal_atomic_dec64 atom)"
| "perform64 (And64 v) atom = apfst Got (aal_atomic_and64 atom v)"
| "perform64 (Or64 v) atom = apfst Got (aal_atomic_or64 atom v)"
| "perform64 (Swap64 v) atom = apfst Got (aal_atomic_swap64 atom v)"
| "perform64 (Cas64 e d) atom =
     (case aal_atomic_cas64 atom e d of (ok, e', atom') \<Rightarrow> (Cas_result ok e', atom'))"

lemmas atomic64_defs =
  aal_atomic_load64_def aal_atomic_store64_def aal_atomic_add64_def aal_atomic_sub64_def
  aal_atomic_inc64_def aal_atomic_dec64_def aal_atomic_and64_def aal_atomic_or64_def
  aal_atomic_swap64_def aal_atomic_cas64_def

text \<open>
  A configuration: what each thread still has to perform, the shared object, and the
  operations performed so far with their results.
\<close>

type_synonym config64 = "op64 list list \<times> aal_atomic64_t \<times> (op64 \<times> result64) list"

inductive atomic_step :: "config64 \<Rightarrow> config64 \<Rightarrow> bool" where
  thread_performs:
    "i < length ts \<Longrightarrow> ts ! i = x # xs \<Longrightarrow> perform64 x atom = (r, atom') \<Longrightarrow>
     atomic_step (ts, atom, trace) (ts[i := xs], atom', trace @ [(x, r)])"

inductive_cases atomic_step_cases: "atomic_step (ts, atom, trace) c"
inductive_simps atomic_step_simps: "atomic_step (ts, atom, trace) (ts', atom', trace')"

subsection \<open>Interleavings are linear\<close>

fun perform_all :: "op64 list \<Rightarrow> aal_atomic64_t \<Rightarrow> result64 list \<times> aal_atomic64_t" where
  "perform_all [] atom = ([], atom)"
| "perform_all (x # xs) atom =
     (case perform64 x atom of (r, atom') \<Rightarrow>
       (case perform_all xs atom' of (rs, atom'') \<Rightarrow> (r # rs, atom'')))"

lemma perform_all_append:
  "perform_all (xs @ ys) atom =
     (case perform_all xs atom of (rs, atom') \<Rightarrow>
       (case perform_all ys atom' of (ss, atom'') \<Rightarrow> (rs @ ss, atom'')))"
  by (induction xs arbitrary: atom) (simp_all split: prod.splits)

lemma length_perform_all: "perform_all xs atom = (rs, atom') \<Longrightarrow> length rs = length xs"
  by (induction xs arbitrary: atom rs) (auto split: prod.splits)

lemma mset_concat_update:
  assumes "i < length ts" and "ts ! i = x # xs"
  shows "mset (concat ts) = add_mset x (mset (concat (ts[i := xs])))"
  using assms
proof (induction ts arbitrary: i)
  case Nil
  then show ?case by simp
next
  case (Cons t ts)
  then show ?case by (cases i) auto
qed

lemma steps_linear:
  assumes "atomic_step\<^sup>*\<^sup>* (ts0, atom0, []) (ts, atom, trace)"
  shows "perform_all (map fst trace) atom0 = (map snd trace, atom) \<and>
    mset (map fst trace) + mset (concat ts) = mset (concat ts0)"
  using assms
proof (induction "(ts, atom, trace)" arbitrary: ts atom trace rule: rtranclp_induct)
  case base
  then show ?case by simp
next
  case (step c)
  obtain ts1 atom1 trace1 where c: "c = (ts1, atom1, trace1)" by (cases c)
  from step.hyps(2) obtain i x xs r where
    i: "i < length ts1" "ts1 ! i = x # xs" and p: "perform64 x atom1 = (r, atom)"
    and ts: "ts = ts1[i := xs]" and trace: "trace = trace1 @ [(x, r)]"
    unfolding c by (elim atomic_step_cases) auto
  from step.hyps(3) [OF c] show ?case
    unfolding ts trace by (simp add: perform_all_append p mset_concat_update [OF i])
qed

text \<open>A configuration in which no thread can move has performed every operation.\<close>

lemma stuck_finished: "(\<nexists>c. atomic_step (ts, atom, trace) c) \<longleftrightarrow> concat ts = []"
proof
  assume stuck: "\<nexists>c. atomic_step (ts, atom, trace) c"
  have "t = []" if "t \<in> set ts" for t
  proof (cases t)
    case (Cons x xs)
    from \<open>t \<in> set ts\<close> obtain i where "i < length ts" "ts ! i = t" by (auto simp: in_set_conv_nth)
    with Cons stuck show ?thesis
      using thread_performs [of i ts x xs atom "fst (perform64 x atom)" "snd (perform64 x atom)"] by auto
  qed simp
  then show "concat ts = []" by auto
next
  assume "concat ts = []"
  then show "\<nexists>c. atomic_step (ts, atom, trace) c"
    by (auto elim!: atomic_step_cases) (metis list.distinct(1) nth_mem)
qed

lemma finished_ops:
  assumes "atomic_step\<^sup>*\<^sup>* (ts0, atom0, []) (ts, atom, trace)" and "concat ts = []"
  shows "mset (map fst trace) = mset (concat ts0)"
  using steps_linear [OF assms(1)] assms(2) by simp

lemma performed_ops:
  assumes "atomic_step\<^sup>*\<^sup>* (ts0, atom0, []) (ts, atom, trace)"
  shows "set (map fst trace) \<subseteq> set (concat ts0)" "length trace \<le> length (concat ts0)"
proof -
  from steps_linear [OF assms] have m: "mset (map fst trace) + mset (concat ts) = mset (concat ts0)" by simp
  from m show "set (map fst trace) \<subseteq> set (concat ts0)"
    by (metis set_mset_mset Un_upper1 set_mset_union)
  from arg_cong [OF m, of "\<lambda>m. size m"] show "length trace \<le> length (concat ts0)" by simp
qed

lemma two_steps:
  assumes "perform64 x atom = (r, atom1)" and "perform64 y atom1 = (q, atom2)"
  shows "atomic_step\<^sup>*\<^sup>* ([[x], [y]], atom, []) ([[], []], atom2, [(x, r), (y, q)])"
proof -
  have "atomic_step ([[x], [y]], atom, []) ([[], [y]], atom1, [(x, r)])"
    using thread_performs [of 0 "[[x], [y]]" x "[]" atom r atom1 "[]"] assms(1) by simp
  moreover have "atomic_step ([[], [y]], atom1, [(x, r)]) ([[], []], atom2, [(x, r), (y, q)])"
    using thread_performs [of 1 "[[], [y]]" y "[]" atom1 q atom2 "[(x, r)]"] assms(2) by simp
  ultimately show ?thesis by (meson converse_rtranclp_into_rtranclp rtranclp.rtrancl_refl)
qed

subsection \<open>Updates that commute\<close>

text \<open>
  Operations whose effects on the value commute: the value they leave does not depend on the
  order in which the threads perform them.
\<close>

locale commuting_updates =
  fixes chosen :: "op64 \<Rightarrow> bool" and upd :: "op64 \<Rightarrow> u64 \<Rightarrow> u64"
  assumes performs_upd: "chosen x \<Longrightarrow> value64 (snd (perform64 x atom)) = upd x (value64 atom)"
    and upd_commutes: "chosen x \<Longrightarrow> chosen y \<Longrightarrow> upd x (upd y v) = upd y (upd x v)"
begin

lemma value_performed:
  "list_all chosen xs \<Longrightarrow> value64 (snd (perform_all xs atom)) = fold upd xs (value64 atom)"
proof (induction xs arbitrary: atom)
  case Nil
  then show ?case by simp
next
  case (Cons x xs)
  then show ?case
    using performs_upd [of x atom] by (simp add: split_beta)
qed

lemma value_finished:
  assumes "atomic_step\<^sup>*\<^sup>* (ts0, atom0, []) (ts, atom, trace)" and "concat ts = []"
    and "list_all chosen (concat ts0)"
  shows "value64 atom = fold upd (concat ts0) (value64 atom0)"
proof -
  have ops: "mset (map fst trace) = mset (concat ts0)" by (rule finished_ops) (rule assms)+
  then have sel: "list_all chosen (map fst trace)"
    using assms(3) by (metis list_all_iff mset_eq_setD)
  have "value64 atom = fold upd (map fst trace) (value64 atom0)"
    using steps_linear [OF assms(1)] value_performed [OF sel, of atom0] by simp
  also have "\<dots> = fold upd (concat ts0) (value64 atom0)"
  proof (rule fun_cong [OF fold_multiset_equiv [OF _ ops]])
    fix x y
    assume "x \<in> set (map fst trace)" "y \<in> set (map fst trace)"
    then show "upd x \<circ> upd y = upd y \<circ> upd x"
      using sel upd_commutes by (simp add: list_all_iff fun_eq_iff del: set_map)
  qed
  finally show ?thesis .
qed

end

fun counts :: "op64 \<Rightarrow> bool" where
  "counts Load64 = True"
| "counts (Add64 v) = True"
| "counts (Sub64 v) = True"
| "counts Inc64 = True"
| "counts Dec64 = True"
| "counts x = False"

fun delta64 :: "op64 \<Rightarrow> u64" where
  "delta64 (Add64 v) = v"
| "delta64 (Sub64 v) = - v"
| "delta64 Inc64 = 1"
| "delta64 Dec64 = - 1"
| "delta64 x = 0"

fun sets_bits :: "op64 \<Rightarrow> bool" where
  "sets_bits (Or64 v) = True"
| "sets_bits x = False"

fun bits_set :: "op64 \<Rightarrow> u64" where
  "bits_set (Or64 v) = v"
| "bits_set x = 0"

interpretation counter: commuting_updates counts "\<lambda>x v. v + delta64 x"
proof
  show "value64 (snd (perform64 x atom)) = value64 atom + delta64 x" if "counts x" for x atom
    using that by (cases x) (simp_all add: atomic64_defs)
qed simp

interpretation flags: commuting_updates sets_bits "\<lambda>x v. v OR bits_set x"
proof
  show "value64 (snd (perform64 x atom)) = value64 atom OR bits_set x" if "sets_bits x" for x atom
    using that by (cases x) (simp_all add: atomic64_defs)
  show "(v OR bits_set y) OR bits_set x = (v OR bits_set x) OR bits_set y" for x y v
    by (simp add: ac_simps)
qed

lemma fold_plus_sum: "fold (\<lambda>x v. v + f x) xs (v :: u64) = v + sum_list (map f xs)"
  by (induction xs arbitrary: v) (simp_all add: add.assoc)

lemma bit_fold_or: "bit (fold (\<lambda>x v. v OR f x) xs (v :: u64)) n \<longleftrightarrow> bit v n \<or> list_ex (\<lambda>x. bit (f x) n) xs"
  by (induction xs arbitrary: v) (auto simp: bit_or_iff)

text \<open>C37: no update of a counter is lost: whatever the interleaving, once threads that add,
  subtract, increment, decrement and load have all finished, the value is the initial one plus
  the sum of all they added (modulo \<open>2 ^ 64\<close>).\<close>

theorem atomic_counter_loses_no_update:
  assumes "atomic_step\<^sup>*\<^sup>* (ts0, atom0, []) (ts, atom, trace)" and "concat ts = []"
    and "list_all counts (concat ts0)"
  shows "value64 atom = value64 atom0 + sum_list (map delta64 (concat ts0))"
  using counter.value_finished [OF assms] by (simp add: fold_plus_sum)

theorem atomic_counter_loses_no_update_witness:
  "(5 :: u64) = 3 + sum_list (map delta64 [Add64 4, Sub64 2])"
  using atomic_counter_loses_no_update
    [of "[[Add64 4], [Sub64 2]]" "\<lparr>value64 = 3\<rparr>" "[[], []]" "\<lparr>value64 = 5\<rparr>"
      "[(Add64 4, Got 3), (Sub64 2, Got 7)]"]
    two_steps [of "Add64 4" "\<lparr>value64 = 3\<rparr>" "Got 3" "\<lparr>value64 = 7\<rparr>" "Sub64 2" "Got 7" "\<lparr>value64 = 5\<rparr>"]
  by (simp add: atomic64_defs)

subsection \<open>Tickets\<close>

lemma perform_increments:
  "perform_all (replicate n Inc64) atom =
     (map (\<lambda>i. Got (value64 atom + of_nat i)) [0..<n], atom\<lparr>value64 := value64 atom + of_nat n\<rparr>)"
proof (induction n)
  case 0
  then show ?case by simp
next
  case (Suc n)
  have "perform_all (replicate (Suc n) Inc64) atom = perform_all (replicate n Inc64 @ [Inc64]) atom"
    by (simp add: replicate_append_same)
  then show ?case
    by (simp only: perform_all_append Suc.IH) (simp add: atomic64_defs ac_simps)
qed

text \<open>Increments hand out tickets: threads that only increment, at most \<open>2 ^ 64\<close> times
  together, never see the same value twice, whatever the interleaving.\<close>

theorem atomic_increments_are_tickets:
  assumes "atomic_step\<^sup>*\<^sup>* (ts0, atom0, []) (ts, atom, trace)"
    and "list_all (\<lambda>x. x = Inc64) (concat ts0)" and "length (concat ts0) \<le> 2 ^ 64"
  shows "distinct (map snd trace)"
proof -
  have "map fst trace = replicate (length trace) Inc64"
    using performed_ops(1) [OF assms(1)] assms(2) by (intro replicate_eqI) (auto simp: list_all_iff)
  then have "map snd trace = map (\<lambda>i. Got (value64 atom0 + of_nat i)) [0..<length trace]"
    using steps_linear [OF assms(1)] perform_increments [of "length trace" atom0] by simp
  moreover have "inj_on (\<lambda>i. Got (value64 atom0 + of_nat i)) {0..<length trace}"
  proof (rule inj_onI)
    fix i j
    assume "i \<in> {0..<length trace}" "j \<in> {0..<length trace}"
      and "Got (value64 atom0 + of_nat i) = Got (value64 atom0 + of_nat j)"
    then have "unat (of_nat i :: u64) = unat (of_nat j :: u64)" "i < length trace" "j < length trace" by simp_all
    moreover have "length trace \<le> 2 ^ 64" using performed_ops(2) [OF assms(1)] assms(3) by simp
    ultimately show "i = j" by (simp add: unat_of_nat)
  qed
  ultimately show ?thesis by (simp add: distinct_map)
qed

theorem atomic_increments_are_tickets_witness: "distinct [Got 0xFFFFFFFFFFFFFFFF, Got 0]"
  using atomic_increments_are_tickets
    [of "[[Inc64], [Inc64]]" "\<lparr>value64 = 0xFFFFFFFFFFFFFFFF\<rparr>" "[[], []]" "\<lparr>value64 = 1\<rparr>"
      "[(Inc64, Got 0xFFFFFFFFFFFFFFFF), (Inc64, Got 0)]"]
    two_steps [of Inc64 "\<lparr>value64 = 0xFFFFFFFFFFFFFFFF\<rparr>" "Got 0xFFFFFFFFFFFFFFFF" "\<lparr>value64 = 0\<rparr>"
      Inc64 "Got 0" "\<lparr>value64 = 1\<rparr>"]
  by (simp add: atomic64_defs)

subsection \<open>Compare and swap\<close>

fun races_from :: "u64 \<Rightarrow> op64 \<Rightarrow> bool" where
  "races_from v (Cas64 e d) = (e = v \<and> d \<noteq> v)"
| "races_from v x = False"

lemma perform_failing:
  "list_all (races_from v) xs \<Longrightarrow> value64 atom \<noteq> v \<Longrightarrow>
     perform_all xs atom = (map (\<lambda>_. Cas_result False (value64 atom)) xs, atom)"
proof (induction xs)
  case Nil
  then show ?case by simp
next
  case (Cons x xs)
  then show ?case by (cases x) (auto simp: atomic64_defs)
qed

text \<open>C26: of threads that race to replace the same expected value by another one, the first to
  perform its compare-and-swap wins, its value stays, and every other one fails and reads the
  winner's value back.\<close>

theorem atomic_cas_one_winner:
  assumes "atomic_step\<^sup>*\<^sup>* (ts0, atom0, []) (ts, atom, trace)"
    and "list_all (races_from (value64 atom0)) (concat ts0)" and "trace \<noteq> []"
  shows "fst (hd trace) = Cas64 (value64 atom0) (value64 atom) \<and>
    map snd trace = Cas_result True (value64 atom0)
      # replicate (length trace - 1) (Cas_result False (value64 atom))"
proof -
  have races: "list_all (races_from (value64 atom0)) (map fst trace)"
    using performed_ops(1) [OF assms(1)] assms(2) by (auto simp: list_all_iff)
  obtain x r rest where trace: "trace = (x, r) # rest" using assms(3) by (metis list.exhaust surj_pair)
  obtain d where x: "x = Cas64 (value64 atom0) d" "d \<noteq> value64 atom0"
    using races trace by (cases x) auto
  have "list_all (races_from (value64 atom0)) (map fst rest)" using races trace by simp
  from perform_failing [OF this, of "atom0\<lparr>value64 := d\<rparr>"] x(2)
  have "perform_all (map fst trace) atom0 =
      (Cas_result True (value64 atom0) # map (\<lambda>_. Cas_result False d) (map fst rest), atom0\<lparr>value64 := d\<rparr>)"
    by (simp add: trace x(1) atomic64_defs)
  also have "map (\<lambda>_. Cas_result False d) (map fst rest) = replicate (length rest) (Cas_result False d)"
    by (induct rest) simp_all
  finally have "map snd trace = Cas_result True (value64 atom0) # replicate (length rest) (Cas_result False d)"
    and "value64 atom = d"
    using steps_linear [OF assms(1)] by simp_all
  moreover have "length rest = length trace - 1" "fst (hd trace) = Cas64 (value64 atom0) d"
    by (simp_all only: trace x(1) list.size list.sel fst_conv add_diff_cancel_right')
  ultimately show ?thesis by simp
qed

theorem atomic_cas_one_winner_witness:
  "fst (hd [(Cas64 0 7, Cas_result True 0), (Cas64 0 9, Cas_result False 7)]) = Cas64 0 7"
  using atomic_cas_one_winner
    [of "[[Cas64 0 7], [Cas64 0 9]]" "\<lparr>value64 = 0\<rparr>" "[[], []]" "\<lparr>value64 = 7\<rparr>"
      "[(Cas64 0 7, Cas_result True 0), (Cas64 0 9, Cas_result False 7)]"]
    two_steps [of "Cas64 0 7" "\<lparr>value64 = 0\<rparr>" "Cas_result True 0" "\<lparr>value64 = 7\<rparr>"
      "Cas64 0 9" "Cas_result False 7" "\<lparr>value64 = 7\<rparr>"]
  by (simp add: atomic64_defs)

subsection \<open>Exchange\<close>

fun put_in :: "op64 \<Rightarrow> u64" where
  "put_in (Swap64 v) = v"
| "put_in x = 0"

fun taken :: "result64 \<Rightarrow> u64" where
  "taken (Got v) = v"
| "taken r = 0"

fun exchanges :: "op64 \<Rightarrow> bool" where
  "exchanges (Swap64 v) = True"
| "exchanges x = False"

lemma perform_exchanges:
  "list_all exchanges xs \<Longrightarrow> perform_all xs atom = (rs, atom') \<Longrightarrow>
     mset (map taken rs) + {#value64 atom'#} = {#value64 atom#} + mset (map put_in xs)"
proof (induction xs arbitrary: atom rs)
  case Nil
  then show ?case by simp
next
  case (Cons x xs)
  from Cons.prems(1) obtain v where x: "x = Swap64 v" by (cases x) auto
  obtain rs' where rs: "perform_all xs (atom\<lparr>value64 := v\<rparr>) = (rs', atom')" "rs = Got (value64 atom) # rs'"
    using Cons.prems(2) by (auto simp: x atomic64_defs split: prod.splits)
  from Cons.IH [OF _ rs(1)] Cons.prems(1) show ?case by (simp add: x rs(2))
qed

text \<open>An exchange hands every value to exactly one thread: once threads that only exchange
  have finished, the values they received and the one left in the object are, with
  multiplicity, the values they put in and the initial one.\<close>

theorem atomic_swap_hands_over_once:
  assumes "atomic_step\<^sup>*\<^sup>* (ts0, atom0, []) (ts, atom, trace)" and "concat ts = []"
    and "list_all exchanges (concat ts0)"
  shows "mset (map (\<lambda>(x, r). taken r) trace) + {#value64 atom#} =
    {#value64 atom0#} + mset (map put_in (concat ts0))"
proof -
  have ops: "mset (map fst trace) = mset (concat ts0)" by (rule finished_ops) (rule assms)+
  have "list_all exchanges (map fst trace)"
    using performed_ops(1) [OF assms(1)] assms(3) by (auto simp: list_all_iff)
  then have "mset (map taken (map snd trace)) + {#value64 atom#} =
      {#value64 atom0#} + mset (map put_in (map fst trace))"
    by (rule perform_exchanges) (use steps_linear [OF assms(1)] in simp)
  moreover have "mset (map put_in (map fst trace)) = mset (map put_in (concat ts0))"
    using arg_cong [OF ops, of "image_mset put_in"] by (simp only: mset_map)
  ultimately show ?thesis by (simp add: comp_def case_prod_unfold)
qed

theorem atomic_swap_hands_over_once_witness:
  "mset [1, 5] + {#6 :: u64#} = {#1#} + mset (map put_in [Swap64 5, Swap64 6])"
  using atomic_swap_hands_over_once
    [of "[[Swap64 5], [Swap64 6]]" "\<lparr>value64 = 1\<rparr>" "[[], []]" "\<lparr>value64 = 6\<rparr>"
      "[(Swap64 5, Got 1), (Swap64 6, Got 5)]"]
    two_steps [of "Swap64 5" "\<lparr>value64 = 1\<rparr>" "Got 1" "\<lparr>value64 = 5\<rparr>" "Swap64 6" "Got 5" "\<lparr>value64 = 6\<rparr>"]
  by (simp add: atomic64_defs)

end
