(* ===== verification/Aal_Barriers.thy ===== *)
theory Aal_Barriers
  imports Uroam_Prelude
begin

section \<open>Memory barriers and prefetches: aal/aal.c\<close>

text \<open>
  The barrier functions consist of one instruction each, chosen by the compiler's target; a
  function is the list of instructions it leaves in the instruction stream. The empty inline
  assembly is no instruction: it keeps the compiler from moving accesses, and the streams below
  are what the compiler has left.

  What an instruction does is the documented behaviour of the processors: a thread performs its
  pending instructions in any order that keeps accesses of one location in order (a load takes
  the value of an earlier pending store of its own thread), keeps what the architecture orders by
  itself and what a barrier in between orders. By themselves x86-64, i386 and s390x keep
  everything but a store before a later load; AArch64, 32-bit Arm, RISC-V, POWER and LoongArch keep
  no two accesses of different locations in order. A store becomes visible to all other threads at
  once (32-bit Arm and POWER promise less, but all the properties say of them is that something can
  go wrong). The targets are those \<open>aal.c\<close> names.
\<close>

subsection \<open>The functions\<close>

datatype target =
    T_x86_64 | T_i386 | T_aarch64 | T_arm32 | T_riscv64 | T_ppc64le | T_s390x | T_loongarch64

text \<open>Where \<open>__x86_64__\<close> or \<open>__aarch64__\<close> is defined, there is an instruction; elsewhere only the
  barrier for the compiler.\<close>

text \<open>The prefetch instructions name the line; the string is the operation of \<open>prfm\<close>.\<close>

datatype asm_op =
    Mfence | Lfence | Sfence | Lock_addl
  | Dmb_ish | Dmb_ishst | Dmb_ishld
  | Prefetcht0 u64 | Prefetcht1 u64 | Prfm string u64

definition aal_mb_full :: "target \<Rightarrow> asm_op list" where
  "aal_mb_full T = (case T of T_x86_64 \<Rightarrow> [Mfence] | T_aarch64 \<Rightarrow> [Dmb_ishst] | _ \<Rightarrow> [])"

definition aal_mb :: "target \<Rightarrow> asm_op list" where
  "aal_mb T = (case T of T_x86_64 \<Rightarrow> [Lock_addl] | T_aarch64 \<Rightarrow> [Dmb_ish] | _ \<Rightarrow> [])"

definition aal_rmb :: "target \<Rightarrow> asm_op list" where
  "aal_rmb T = (case T of T_x86_64 \<Rightarrow> [Lfence] | T_aarch64 \<Rightarrow> [Dmb_ishld] | _ \<Rightarrow> [])"

definition aal_wmb :: "target \<Rightarrow> asm_op list" where
  "aal_wmb T = (case T of T_x86_64 \<Rightarrow> [Sfence] | T_aarch64 \<Rightarrow> [Dmb_ishst] | _ \<Rightarrow> [])"

definition aal_compiler_barrier :: "target \<Rightarrow> asm_op list" where
  "aal_compiler_barrier T = []"

definition aal_prefetch_read :: "target \<Rightarrow> u64 \<Rightarrow> asm_op list" where
  "aal_prefetch_read T ptr =
     (case T of T_x86_64 \<Rightarrow> [Prefetcht0 ptr] | T_aarch64 \<Rightarrow> [Prfm ''pldl1keep'' ptr] | _ \<Rightarrow> [])"

definition aal_prefetch_write :: "target \<Rightarrow> u64 \<Rightarrow> asm_op list" where
  "aal_prefetch_write T ptr =
     (case T of T_x86_64 \<Rightarrow> [Prefetcht1 ptr] | T_aarch64 \<Rightarrow> [Prfm ''pstl1keep'' ptr] | _ \<Rightarrow> [])"

definition aal_prefetch_read_local :: "target \<Rightarrow> u64 \<Rightarrow> asm_op list" where
  "aal_prefetch_read_local T ptr = (case T of T_aarch64 \<Rightarrow> [Prfm ''pldl1strm'' ptr] | _ \<Rightarrow> [])"

definition aal_prefetch_write_local :: "target \<Rightarrow> u64 \<Rightarrow> asm_op list" where
  "aal_prefetch_write_local T ptr = (case T of T_aarch64 \<Rightarrow> [Prfm ''pstl1strm'' ptr] | _ \<Rightarrow> [])"

lemmas barrier_defs = aal_mb_full_def aal_mb_def aal_rmb_def aal_wmb_def aal_compiler_barrier_def
  aal_prefetch_read_def aal_prefetch_write_def aal_prefetch_read_local_def aal_prefetch_write_local_def

subsection \<open>The processors\<close>

datatype access = Rd | Wr

fun keeps :: "asm_op \<Rightarrow> access \<Rightarrow> access \<Rightarrow> bool" where
  "keeps Mfence a b = True"
| "keeps Lock_addl a b = True"
| "keeps Dmb_ish a b = True"
| "keeps Lfence a b = (a = Rd)"
| "keeps Dmb_ishld a b = (a = Rd)"
| "keeps Sfence a b = (a = Wr \<and> b = Wr)"
| "keeps Dmb_ishst a b = (a = Wr \<and> b = Wr)"
| "keeps (Prefetcht0 p) a b = False"
| "keeps (Prefetcht1 p) a b = False"
| "keeps (Prfm op p) a b = False"

text \<open>The targets whose stores leave a buffer in order, and nothing else is delayed.\<close>

definition tso :: "target \<Rightarrow> bool" where
  "tso T \<longleftrightarrow> T = T_x86_64 \<or> T = T_i386 \<or> T = T_s390x"

definition hw_order :: "target \<Rightarrow> access \<Rightarrow> access \<Rightarrow> bool" where
  "hw_order T a b \<longleftrightarrow> tso T \<and> \<not> (a = Wr \<and> b = Rd)"

text \<open>A load names the register it fills.\<close>

datatype instr = Load nat u64 | Store u64 u64 | Asm asm_op

fun access_of :: "instr \<Rightarrow> (access \<times> u64) option" where
  "access_of (Load r x) = Some (Rd, x)"
| "access_of (Store x v) = Some (Wr, x)"
| "access_of (Asm op) = None"

definition orders :: "target \<Rightarrow> asm_op list \<Rightarrow> access \<Rightarrow> access \<Rightarrow> bool" where
  "orders T ops a b \<longleftrightarrow> hw_order T a b \<or> (\<exists>op \<in> set ops. keeps op a b)"

fun asm_of :: "instr list \<Rightarrow> asm_op list" where
  "asm_of [] = []"
| "asm_of (Asm op # is) = op # asm_of is"
| "asm_of (_ # is) = asm_of is"

text \<open>Must \<open>x\<close> wait for the earlier \<open>i\<close>, with the instructions \<open>mid\<close> between them?\<close>

definition waits :: "target \<Rightarrow> instr \<Rightarrow> instr list \<Rightarrow> instr \<Rightarrow> bool" where
  "waits T i mid x =
     (case (access_of i, access_of x) of
        (Some (a, p), Some (b, q)) \<Rightarrow> p = q \<and> \<not> (a = Wr \<and> b = Rd) \<or> orders T (asm_of mid) a b
      | _ \<Rightarrow> False)"

fun may_pass :: "target \<Rightarrow> instr list \<Rightarrow> instr \<Rightarrow> bool" where
  "may_pass T [] x = True"
| "may_pass T (i # pre) x = (\<not> waits T i pre x \<and> may_pass T pre x)"

text \<open>What a load finds: the latest pending store of its thread, else memory.\<close>

fun newest :: "instr list \<Rightarrow> u64 \<Rightarrow> u64 \<Rightarrow> u64" where
  "newest [] x v = v"
| "newest (Store y w # is) x v = newest is x (if x = y then w else v)"
| "newest (_ # is) x v = newest is x v"

type_synonym hw_thread = "instr list \<times> (nat \<Rightarrow> u64)"

inductive thread_step ::
  "target \<Rightarrow> hw_thread \<times> (u64 \<Rightarrow> u64) \<Rightarrow> hw_thread \<times> (u64 \<Rightarrow> u64) \<Rightarrow> bool" for T where
  load: "may_pass T pre (Load r x) \<Longrightarrow>
    thread_step T ((pre @ Load r x # post, regs), mem)
      ((pre @ post, regs(r := newest pre x (mem x))), mem)"
| store: "may_pass T pre (Store x v) \<Longrightarrow>
    thread_step T ((pre @ Store x v # post, regs), mem) ((pre @ post, regs), mem(x := v))"
| asm_first: "thread_step T ((Asm op # post, regs), mem) ((post, regs), mem)"

inductive machine_step ::
  "target \<Rightarrow> hw_thread list \<times> (u64 \<Rightarrow> u64) \<Rightarrow> hw_thread list \<times> (u64 \<Rightarrow> u64) \<Rightarrow> bool" for T where
  some_thread: "i < length ts \<Longrightarrow> thread_step T (ts ! i, mem) (t, mem') \<Longrightarrow>
    machine_step T (ts, mem) (ts[i := t], mem')"

inductive_cases machine_step_cases: "machine_step T (ts, mem) c"
inductive_simps thread_step_simps: "thread_step T ((is, regs), mem) ((is', regs'), mem')"

text \<open>Two threads that start with empty registers in a memory of zeros.\<close>

definition two_threads :: "instr list \<Rightarrow> instr list \<Rightarrow> hw_thread list \<times> (u64 \<Rightarrow> u64)" where
  "two_threads p q = ([(p, \<lambda>_. 0), (q, \<lambda>_. 0)], \<lambda>_. 0)"

definition can_end :: "target \<Rightarrow> instr list \<Rightarrow> instr list \<Rightarrow> (nat \<Rightarrow> u64) \<Rightarrow> (nat \<Rightarrow> u64) \<Rightarrow> bool" where
  "can_end T p q f g \<longleftrightarrow> (\<exists>mem. (machine_step T)\<^sup>*\<^sup>* (two_threads p q) ([([], f), ([], g)], mem))"

subsection \<open>Threads of two accesses with instructions between them\<close>

text \<open>The accesses still to be performed are \<open>i\<close> if \<open>p\<close> holds and \<open>j\<close> if \<open>q\<close> does.\<close>

definition pending :: "bool \<Rightarrow> instr \<Rightarrow> asm_op list \<Rightarrow> bool \<Rightarrow> instr \<Rightarrow> instr list" where
  "pending p i ops q j = (if p then [i] else []) @ map Asm ops @ (if q then [j] else [])"

text \<open>Two accesses of different locations.\<close>

definition apart_accesses :: "instr \<Rightarrow> instr \<Rightarrow> bool" where
  "apart_accesses i j \<longleftrightarrow> (\<exists>a x b y. access_of i = Some (a, x) \<and> access_of j = Some (b, y) \<and> x \<noteq> y)"

fun effect :: "instr \<Rightarrow> (nat \<Rightarrow> u64) \<times> (u64 \<Rightarrow> u64) \<Rightarrow> (nat \<Rightarrow> u64) \<times> (u64 \<Rightarrow> u64)" where
  "effect (Load r x) (regs, mem) = (regs(r := mem x), mem)"
| "effect (Store x v) (regs, mem) = (regs, mem(x := v))"
| "effect (Asm op) s = s"

lemma asm_of_map [simp]: "asm_of (map Asm ops) = ops"
  by (induction ops) simp_all

lemma may_pass_asm [simp]: "may_pass T (map Asm ops) x"
  by (induction ops) (simp_all add: waits_def)

lemma newest_asm [simp]: "newest (map Asm ops) x v = v"
  by (induction ops) simp_all

lemma newest_apart:
  "apart_accesses i (Load r y) \<Longrightarrow> newest (i # map Asm ops) y v = v"
  by (cases i) (auto simp: apart_accesses_def)

text \<open>Where an access can stand in such a thread.\<close>

lemma pending_split:
  assumes "pre @ x # post = pending p i ops q j" and "access_of x \<noteq> None"
    and "apart_accesses i j"
  shows "p \<and> pre = [] \<and> x = i \<and> post = pending False i ops q j \<or>
    q \<and> pre = pending p i ops False j \<and> x = j \<and> post = []"
proof -
  have asm: "pre' = map Asm os \<and> x = j \<and> post = [] \<and> q"
    if "pre' @ x # post = map Asm os @ (if q then [j] else [])" for pre' os
    using that
  proof (induction os arbitrary: pre')
    case Nil
    then show ?case by (cases pre') (auto split: if_splits)
  next
    case (Cons op os)
    with assms(2) show ?case by (cases pre') (auto split: if_splits)
  qed
  show ?thesis
  proof (cases p)
    case False
    with assms(1) have "pre @ x # post = map Asm ops @ (if q then [j] else [])"
      by (simp add: pending_def)
    from asm [OF this] False assms(1) show ?thesis by (auto simp: pending_def)
  next
    case True
    show ?thesis
    proof (cases pre)
      case Nil
      with True assms(1) show ?thesis by (simp add: pending_def)
    next
      case (Cons k pre')
      with True assms(1) have "k = i" "pre' @ x # post = map Asm ops @ (if q then [j] else [])"
        by (simp_all add: pending_def)
      from asm [OF this(2)] this(1) Cons True show ?thesis by (simp add: pending_def)
    qed
  qed
qed

lemma pending_step_cases:
  assumes "thread_step T ((pending p i ops q j, regs), mem) (t, mem')" and "apart_accesses i j"
  obtains (first) regs' where "p" "t = (pending False i ops q j, regs')"
      "(regs', mem') = effect i (regs, mem)"
  | (second) regs' where "q" "p \<longrightarrow> \<not> waits T i (map Asm ops) j" "t = (pending p i ops False j, regs')"
      "(regs', mem') = effect j (regs, mem)"
  | (asm) op ops' where "\<not> p" "ops = op # ops'" "t = (pending p i ops' q j, regs)" "mem' = mem"
  using assms(1)
proof (cases rule: thread_step.cases)
  case (load pre r x post)
  then have split: "pre @ Load r x # post = pending p i ops q j" by simp
  from pending_split [OF split _ assms(2)] consider
    "p \<and> pre = [] \<and> Load r x = i \<and> post = pending False i ops q j"
    | "q \<and> pre = pending p i ops False j \<and> Load r x = j \<and> post = []" by auto
  then show ?thesis
  proof cases
    case 1
    with load first show ?thesis by auto
  next
    case 2
    then have "newest pre x (mem x) = mem x"
      using assms(2) newest_apart [of i r x ops "mem x"] by (auto simp: pending_def)
    moreover have "p \<longrightarrow> \<not> waits T i (map Asm ops) j"
      using 2 load by (auto simp: pending_def)
    ultimately show ?thesis
      using 2 load second [of "regs(r := mem x)"] by auto
  qed
next
  case (store pre x v post)
  then have split: "pre @ Store x v # post = pending p i ops q j" by simp
  from pending_split [OF split _ assms(2)] consider
    "p \<and> pre = [] \<and> Store x v = i \<and> post = pending False i ops q j"
    | "q \<and> pre = pending p i ops False j \<and> Store x v = j \<and> post = []" by auto
  then show ?thesis
  proof cases
    case 1
    with store first show ?thesis by auto
  next
    case 2
    moreover have "p \<longrightarrow> \<not> waits T i (map Asm ops) j"
      using 2 store by (auto simp: pending_def)
    ultimately show ?thesis
      using store second [of regs] by auto
  qed
next
  case (asm_first op post)
  with assms(2) have "\<not> p" "\<exists>ops'. ops = op # ops' \<and> post = pending p i ops' q j"
    by (cases ops; auto simp: pending_def apart_accesses_def split: if_splits)+
  with asm_first asm show ?thesis by auto
qed

text \<open>And the steps such a thread can make.\<close>

lemma pending_first:
  assumes "access_of i \<noteq> None"
  shows "thread_step T ((pending True i ops q j, regs), mem)
    ((pending False i ops q j, fst (effect i (regs, mem))), snd (effect i (regs, mem)))"
  using assms thread_step.load [of T "[]"] thread_step.store [of T "[]"]
  by (cases i) (auto simp: pending_def)

lemma pending_second:
  assumes "apart_accesses i j" and "p \<longrightarrow> \<not> waits T i (map Asm ops) j"
  shows "thread_step T ((pending p i ops True j, regs), mem)
    ((pending p i ops False j, fst (effect j (regs, mem))), snd (effect j (regs, mem)))"
proof -
  let ?pre = "pending p i ops False j"
  have pass: "may_pass T ?pre j" using assms(2) by (auto simp: pending_def)
  have new: "newest ?pre y v = v" if "j = Load r y" for r y v
    using assms(1) newest_apart [of i r y ops v] that by (auto simp: pending_def)
  have all: "pending p i ops True j = ?pre @ [j]" by (simp add: pending_def)
  show ?thesis
  proof (cases j)
    case (Load r y)
    with thread_step.load [of T ?pre r y "[]" regs mem] pass new all show ?thesis by simp
  next
    case (Store y v)
    with thread_step.store [of T ?pre y v "[]" regs mem] pass all show ?thesis by simp
  next
    case (Asm op)
    with assms(1) show ?thesis by (simp add: apart_accesses_def)
  qed
qed

lemma pending_asm:
  "thread_step T ((pending False i (op # ops) q j, regs), mem) ((pending False i ops q j, regs), mem)"
  using thread_step.asm_first [of T op "pending False i ops q j" regs mem] by (simp add: pending_def)

lemma pending_all: "i # map Asm ops @ [j] = pending True i ops True j"
  and pending_none: "pending False i [] False j = []"
  by (simp_all add: pending_def)

subsection \<open>Two threads\<close>

lemma two_step_cases:
  assumes "machine_step T ([t0, t1], mem) c"
  obtains t mem' where "thread_step T (t0, mem) (t, mem')" "c = ([t, t1], mem')"
  | t mem' where "thread_step T (t1, mem) (t, mem')" "c = ([t0, t], mem')"
proof -
  from assms obtain i t mem' where i: "i < length [t0, t1]"
    "thread_step T ([t0, t1] ! i, mem) (t, mem')" "c = ([t0, t1][i := t], mem')"
    by (auto elim: machine_step_cases)
  then consider "i = 0" | "i = 1" by (auto simp: less_Suc_eq)
  then show ?thesis
    using i(2,3) that by cases auto
qed

lemma step_left: "thread_step T (t0, mem) (t, mem') \<Longrightarrow> machine_step T ([t0, t1], mem) ([t, t1], mem')"
  using machine_step.some_thread [of 0 "[t0, t1]" T mem t mem'] by simp

lemma step_right: "thread_step T (t1, mem) (t, mem') \<Longrightarrow> machine_step T ([t0, t1], mem) ([t0, t], mem')"
  using machine_step.some_thread [of 1 "[t0, t1]" T mem t mem'] by simp

lemma four_steps:
  assumes "r c0 c1" and "r c1 c2" and "r c2 c3" and "r c3 c4"
  shows "r\<^sup>*\<^sup>* c0 c4"
  using assms by (auto intro: converse_rtranclp_into_rtranclp)

lemma steps_end:
  "(machine_step T)\<^sup>*\<^sup>* ([(pending False i ops False j, f), (pending False k ops' False l, g)], mem)
     ([([], f), ([], g)], mem)"
proof -
  have "(machine_step T)\<^sup>*\<^sup>* ([(pending False i ops False j, f), t], mem) ([([], f), t], mem)" for t
    by (induction ops) (auto simp: pending_none intro: converse_rtranclp_into_rtranclp step_left pending_asm)
  moreover have "(machine_step T)\<^sup>*\<^sup>* ([t, (pending False k ops' False l, g)], mem) ([t, ([], g)], mem)" for t
    by (induction ops') (auto simp: pending_none intro: converse_rtranclp_into_rtranclp step_right pending_asm)
  ultimately show ?thesis by (meson rtranclp_trans)
qed

text \<open>Each thread raises its flag and then looks at the other's.\<close>

definition both_miss :: "target \<Rightarrow> asm_op list \<Rightarrow> u64 \<Rightarrow> u64 \<Rightarrow> u64 \<Rightarrow> u64 \<Rightarrow> bool" where
  "both_miss T bar a v b w \<longleftrightarrow>
     (\<exists>f g. can_end T (Store a v # map Asm bar @ [Load 0 b]) (Store b w # map Asm bar @ [Load 0 a]) f g \<and>
       f 0 = 0 \<and> g 0 = 0)"

text \<open>
  A thread whose two accesses stay in order: the first one is pending, with all that follows, or
  it is performed.
\<close>

definition in_order :: "asm_op list \<Rightarrow> instr \<Rightarrow> instr \<Rightarrow> bool \<Rightarrow> bool \<Rightarrow> hw_thread \<Rightarrow> bool" where
  "in_order bar i j p q t \<longleftrightarrow> (\<exists>ops. fst t = pending p i ops q j \<and> (p \<longrightarrow> q \<and> ops = bar))"

lemma in_order_start: "in_order bar i j True True (i # map Asm bar @ [j], regs)"
  by (simp add: in_order_def pending_all)

lemma in_order_end: "in_order bar i j p q ([], regs) \<Longrightarrow> \<not> p \<and> \<not> q"
  by (auto simp: in_order_def pending_def)

lemma in_order_step:
  assumes "thread_step T (t, mem) (t', mem')" and "in_order bar i j p q t"
    and "apart_accesses i j" and "waits T i (map Asm bar) j"
  obtains (first) "p" "in_order bar i j False True t'" "(snd t', mem') = effect i (snd t, mem)"
  | (second) "\<not> p" "q" "in_order bar i j False False t'" "(snd t', mem') = effect j (snd t, mem)"
  | (asm) "in_order bar i j p q t'" "snd t' = snd t" "mem' = mem"
proof -
  obtain ops where ops: "t = (pending p i ops q j, snd t)" "p \<longrightarrow> q \<and> ops = bar"
    using assms(2) by (cases t) (auto simp: in_order_def)
  have step: "thread_step T ((pending p i ops q j, snd t), mem) (t', mem')"
    using assms(1) ops(1) by simp
  from step assms(3) show ?thesis
  proof (cases rule: pending_step_cases)
    case (first regs')
    with ops(2) that(1) show ?thesis by (auto simp: in_order_def)
  next
    case (second regs')
    with ops(2) assms(4) that(2) show ?thesis by (auto simp: in_order_def)
  next
    case (asm op ops')
    with that(3) show ?thesis by (auto simp: in_order_def)
  qed
qed

subsubsection \<open>Two flags\<close>

text \<open>The invariant when the store stays before the load: \<open>p\<close> and \<open>q\<close> as above, for each thread.\<close>

definition flags_inv :: "asm_op list \<Rightarrow> u64 \<Rightarrow> u64 \<Rightarrow> u64 \<Rightarrow> u64 \<Rightarrow>
    hw_thread \<Rightarrow> hw_thread \<Rightarrow> (u64 \<Rightarrow> u64) \<Rightarrow> bool" where
  "flags_inv bar a v b w t0 t1 mem \<longleftrightarrow> (\<exists>p0 q0 p1 q1.
     in_order bar (Store a v) (Load 0 b) p0 q0 t0 \<and> in_order bar (Store b w) (Load 0 a) p1 q1 t1 \<and>
     mem a = (if p0 then 0 else v) \<and> mem b = (if p1 then 0 else w) \<and>
     (\<not> q0 \<and> \<not> q1 \<longrightarrow> snd t0 0 = w \<or> snd t1 0 = v))"

lemma flags_inv_swap: "flags_inv bar a v b w t0 t1 mem \<longleftrightarrow> flags_inv bar b w a v t1 t0 mem"
  unfolding flags_inv_def by blast

lemma flags_apart: "a \<noteq> b \<Longrightarrow> apart_accesses (Store a v) (Load r b)"
  and flags_waits: "a \<noteq> b \<Longrightarrow> waits T (Store a v) (map Asm bar) (Load r b) = orders T bar Wr Rd"
  by (simp_all add: apart_accesses_def waits_def)

lemma flags_inv_left:
  assumes "orders T bar Wr Rd" and "a \<noteq> b" and "thread_step T (t0, mem) (t, mem')"
    and "flags_inv bar a v b w t0 t1 mem"
  shows "flags_inv bar a v b w t t1 mem'"
proof -
  obtain p0 q0 p1 q1 where inv:
    "in_order bar (Store a v) (Load 0 b) p0 q0 t0" "in_order bar (Store b w) (Load 0 a) p1 q1 t1"
    "mem a = (if p0 then 0 else v)" "mem b = (if p1 then 0 else w)"
    "\<not> q0 \<and> \<not> q1 \<longrightarrow> snd t0 0 = w \<or> snd t1 0 = v"
    using assms(4) unfolding flags_inv_def by blast
  have order: "waits T (Store a v) (map Asm bar) (Load 0 b)"
    using assms(1,2) by (simp add: flags_waits)
  have rest: "p1 \<longrightarrow> q1" using inv(2) by (auto simp: in_order_def)
  from assms(3) inv(1) flags_apart [OF assms(2)] order show ?thesis
  proof (cases rule: in_order_step)
    case first
    have "snd t = snd t0" "mem' = mem(a := v)" using first(3) by simp_all
    with first(1,2) inv(2-5) assms(2) show ?thesis
      unfolding flags_inv_def by (intro exI [of _ False] exI [of _ True] exI [of _ p1] exI [of _ q1]) simp
  next
    case second
    with inv rest show ?thesis
      unfolding flags_inv_def by (intro exI [of _ False] exI [of _ p1] exI [of _ q1]) auto
  next
    case asm
    show ?thesis
      unfolding flags_inv_def asm(2,3) using inv(2-) asm(1) by blast
  qed
qed

lemma flags_inv_run:
  assumes "orders T bar Wr Rd" and "a \<noteq> b"
    and "(machine_step T)\<^sup>*\<^sup>* (two_threads (Store a v # map Asm bar @ [Load 0 b])
      (Store b w # map Asm bar @ [Load 0 a])) c"
  shows "\<exists>t0 t1 mem. c = ([t0, t1], mem) \<and> flags_inv bar a v b w t0 t1 mem"
  using assms(3)
proof (induction rule: rtranclp_induct)
  case base
  show ?case
    unfolding two_threads_def flags_inv_def
    by (intro exI [of _ "(Store a v # map Asm bar @ [Load 0 b], \<lambda>_. 0)"]
        exI [of _ "(Store b w # map Asm bar @ [Load 0 a], \<lambda>_. 0)"] exI [of _ "\<lambda>_. 0"] conjI refl
        exI [of _ True]) (auto intro: in_order_start)
next
  case (step c c')
  then obtain t0 t1 mem where c: "c = ([t0, t1], mem)" "flags_inv bar a v b w t0 t1 mem" by blast
  with step.hyps(2) have "machine_step T ([t0, t1], mem) c'" by simp
  then show ?case
  proof (cases rule: two_step_cases)
    case (1 t mem')
    with flags_inv_left [OF assms(1,2) 1(1) c(2)] show ?thesis by blast
  next
    case (2 t mem')
    from flags_inv_left [OF assms(1) assms(2) [symmetric] 2(1)] c(2) have "flags_inv bar b w a v t t0 mem'"
      by (simp add: flags_inv_swap)
    with 2(2) show ?thesis by (auto simp: flags_inv_swap)
  qed
qed

text \<open>When a load may overtake the store, both threads look first.\<close>

lemma flags_miss:
  assumes "\<not> orders T bar Wr Rd" and "a \<noteq> b"
  shows "both_miss T bar a v b w"
proof -
  let ?t = "\<lambda>p q x u y. pending p (Store x u) bar q (Load 0 y)"
  let ?z = "\<lambda>_ :: nat. 0 :: u64" and ?m = "\<lambda>_ :: u64. 0 :: u64"
  note second = pending_second [OF flags_apart] and first = pending_first [of "Store _ _"]
  have "machine_step T ([(?t True True a v b, ?z), (?t True True b w a, ?z)], ?m)
      ([(?t True False a v b, ?z(0 := 0)), (?t True True b w a, ?z)], ?m)"
    using step_left [OF second [of a b True T v bar 0 ?z ?m]] assms by (simp add: flags_waits)
  moreover have "machine_step T \<dots> ([(?t True False a v b, ?z(0 := 0)), (?t True False b w a, ?z(0 := 0))], ?m)"
    using step_right [OF second [of b a True T w bar 0 ?z ?m]] assms by (simp add: flags_waits)
  moreover have "machine_step T \<dots>
      ([(?t False False a v b, ?z(0 := 0)), (?t True False b w a, ?z(0 := 0))], ?m(a := v))"
    using step_left [OF first [of a v T bar False "Load 0 b" "?z(0 := 0)" ?m]] by simp
  moreover have "machine_step T \<dots>
      ([(?t False False a v b, ?z(0 := 0)), (?t False False b w a, ?z(0 := 0))], ?m(a := v, b := w))"
    using step_right [OF first [of b w T bar False "Load 0 a" "?z(0 := 0)" "?m(a := v)"]] by simp
  moreover have "(machine_step T)\<^sup>*\<^sup>* \<dots> ([([], ?z(0 := 0)), ([], ?z(0 := 0))], ?m(a := v, b := w))"
    by (rule steps_end)
  ultimately have "can_end T (?t True True a v b) (?t True True b w a) (?z(0 := 0)) (?z(0 := 0))"
    unfolding can_end_def two_threads_def by (meson converse_rtranclp_into_rtranclp)
  then show ?thesis
    unfolding both_miss_def pending_all by (intro exI [of _ "?z(0 := 0)"] conjI) (assumption | simp)+
qed

lemma both_miss_iff:
  assumes "a \<noteq> b" and "v \<noteq> 0" and "w \<noteq> 0"
  shows "both_miss T bar a v b w \<longleftrightarrow> \<not> orders T bar Wr Rd"
proof
  assume "both_miss T bar a v b w"
  then obtain f g mem where run: "(machine_step T)\<^sup>*\<^sup>* (two_threads (Store a v # map Asm bar @ [Load 0 b])
      (Store b w # map Asm bar @ [Load 0 a])) ([([], f), ([], g)], mem)" and zero: "f 0 = 0" "g 0 = 0"
    by (auto simp: both_miss_def can_end_def)
  show "\<not> orders T bar Wr Rd"
  proof
    assume "orders T bar Wr Rd"
    from flags_inv_run [OF this assms(1) run] have "f 0 = w \<or> g 0 = v"
      by (auto simp: flags_inv_def dest: in_order_end)
    with zero assms(2,3) show False by simp
  qed
qed (use flags_miss assms(1) in blast)

subsubsection \<open>A message and its flag\<close>

text \<open>The first thread writes \<open>v\<close> and then a flag, the second looks at the flag and then reads.\<close>

definition reads_stale :: "target \<Rightarrow> asm_op list \<Rightarrow> asm_op list \<Rightarrow> u64 \<Rightarrow> u64 \<Rightarrow> u64 \<Rightarrow> u64 \<Rightarrow> bool" where
  "reads_stale T wbar rbar x v y w \<longleftrightarrow>
     (\<exists>f g. can_end T (Store x v # map Asm wbar @ [Store y w]) (Load 0 y # map Asm rbar @ [Load 1 x]) f g \<and>
       g 0 = w \<and> g 1 = 0)"

definition message_inv :: "asm_op list \<Rightarrow> asm_op list \<Rightarrow> u64 \<Rightarrow> u64 \<Rightarrow> u64 \<Rightarrow> u64 \<Rightarrow>
    hw_thread \<Rightarrow> hw_thread \<Rightarrow> (u64 \<Rightarrow> u64) \<Rightarrow> bool" where
  "message_inv wbar rbar x v y w t0 t1 mem \<longleftrightarrow> (\<exists>p0 q0 p1 q1.
     in_order wbar (Store x v) (Store y w) p0 q0 t0 \<and> in_order rbar (Load 0 y) (Load 1 x) p1 q1 t1 \<and>
     mem x = (if p0 then 0 else v) \<and> mem y = (if q0 then 0 else w) \<and>
     (p1 \<or> snd t1 0 = 0 \<or> \<not> q0) \<and> (q1 \<or> snd t1 0 = 0 \<or> snd t1 1 = v))"

lemma message_apart: "x \<noteq> y \<Longrightarrow> apart_accesses (Store x v) (Store y w)"
    "x \<noteq> y \<Longrightarrow> apart_accesses (Load q y) (Load r x)"
  and message_waits: "x \<noteq> y \<Longrightarrow> waits T (Store x v) (map Asm bar) (Store y w) = orders T bar Wr Wr"
    "x \<noteq> y \<Longrightarrow> waits T (Load q y) (map Asm bar) (Load r x) = orders T bar Rd Rd"
  by (auto simp: apart_accesses_def waits_def)

lemma in_orderD: "in_order bar i j p q t \<Longrightarrow> p \<Longrightarrow> q"
  by (auto simp: in_order_def)

lemma message_inv_writer:
  assumes "orders T wbar Wr Wr" and "x \<noteq> y" and "thread_step T (t0, mem) (t, mem')"
    and "message_inv wbar rbar x v y w t0 t1 mem"
  shows "message_inv wbar rbar x v y w t t1 mem'"
proof -
  obtain p0 q0 p1 q1 where inv:
    "in_order wbar (Store x v) (Store y w) p0 q0 t0" "in_order rbar (Load 0 y) (Load 1 x) p1 q1 t1"
    "mem x = (if p0 then 0 else v)" "mem y = (if q0 then 0 else w)"
    "p1 \<or> snd t1 0 = 0 \<or> \<not> q0" "q1 \<or> snd t1 0 = 0 \<or> snd t1 1 = v"
    using assms(4) unfolding message_inv_def by blast
  have order: "waits T (Store x v) (map Asm wbar) (Store y w)"
    using assms(1,2) by (simp add: message_waits)
  from assms(3) inv(1) message_apart(1) [OF assms(2)] order show ?thesis
  proof (cases rule: in_order_step)
    case first
    have "mem' = mem(x := v)" using first(3) by simp
    with first(1,2) inv(2-6) in_orderD [OF inv(1)] assms(2) show ?thesis
      unfolding message_inv_def by (intro exI [of _ False] exI [of _ True] exI [of _ p1] exI [of _ q1]) simp
  next
    case second
    with inv assms(2) show ?thesis
      unfolding message_inv_def by (intro exI [of _ False] exI [of _ p1] exI [of _ q1]) auto
  next
    case asm
    show ?thesis
      unfolding message_inv_def asm(3) using inv(2-) asm(1) by blast
  qed
qed

lemma message_inv_reader:
  assumes "orders T rbar Rd Rd" and "x \<noteq> y" and "thread_step T (t1, mem) (t, mem')"
    and "message_inv wbar rbar x v y w t0 t1 mem"
  shows "message_inv wbar rbar x v y w t0 t mem'"
proof -
  obtain p0 q0 p1 q1 where inv:
    "in_order wbar (Store x v) (Store y w) p0 q0 t0" "in_order rbar (Load 0 y) (Load 1 x) p1 q1 t1"
    "mem x = (if p0 then 0 else v)" "mem y = (if q0 then 0 else w)"
    "p1 \<or> snd t1 0 = 0 \<or> \<not> q0" "q1 \<or> snd t1 0 = 0 \<or> snd t1 1 = v"
    using assms(4) unfolding message_inv_def by blast
  have order: "waits T (Load 0 y) (map Asm rbar) (Load 1 x)"
    using assms(1,2) by (simp add: message_waits)
  from assms(3) inv(2) message_apart(2) [OF assms(2)] order show ?thesis
  proof (cases rule: in_order_step)
    case first
    have "snd t = (snd t1)(0 := mem y)" "mem' = mem" using first(3) by simp_all
    with first(2) inv(1,3,4) show ?thesis
      unfolding message_inv_def by (intro exI [of _ p0] exI [of _ q0] exI [of _ False] exI [of _ True]) simp
  next
    case second
    with inv in_orderD [OF inv(1)] show ?thesis
      unfolding message_inv_def by (intro exI [of _ p0] exI [of _ q0] exI [of _ False]) auto
  next
    case asm
    show ?thesis
      unfolding message_inv_def asm(2,3) using inv(1,3-6) asm(1) by blast
  qed
qed

lemma message_inv_run:
  assumes "orders T wbar Wr Wr" and "orders T rbar Rd Rd" and "x \<noteq> y"
    and "(machine_step T)\<^sup>*\<^sup>* (two_threads (Store x v # map Asm wbar @ [Store y w])
      (Load 0 y # map Asm rbar @ [Load 1 x])) c"
  shows "\<exists>t0 t1 mem. c = ([t0, t1], mem) \<and> message_inv wbar rbar x v y w t0 t1 mem"
  using assms(4)
proof (induction rule: rtranclp_induct)
  case base
  show ?case
    unfolding two_threads_def message_inv_def
    by (intro exI [of _ "(Store x v # map Asm wbar @ [Store y w], \<lambda>_. 0)"]
        exI [of _ "(Load 0 y # map Asm rbar @ [Load 1 x], \<lambda>_. 0)"] exI [of _ "\<lambda>_. 0"] conjI refl
        exI [of _ True]) (auto intro: in_order_start)
next
  case (step c c')
  then obtain t0 t1 mem where c: "c = ([t0, t1], mem)" "message_inv wbar rbar x v y w t0 t1 mem" by blast
  with step.hyps(2) have "machine_step T ([t0, t1], mem) c'" by simp
  then show ?case
  proof (cases rule: two_step_cases)
    case (1 t mem')
    with message_inv_writer [OF assms(1,3) 1(1) c(2)] show ?thesis by blast
  next
    case (2 t mem')
    with message_inv_reader [OF assms(2,3) 2(1) c(2)] show ?thesis by blast
  qed
qed

text \<open>When one of the two pairs may change places, the message can be missed.\<close>

lemma message_missed:
  assumes "\<not> orders T wbar Wr Wr \<or> \<not> orders T rbar Rd Rd" and "x \<noteq> y"
  shows "reads_stale T wbar rbar x v y w"
proof -
  let ?wr = "\<lambda>p q. pending p (Store x v) wbar q (Store y w)"
  let ?rd = "\<lambda>p q. pending p (Load 0 y) rbar q (Load 1 x)"
  let ?z = "\<lambda>_ :: nat. 0 :: u64" and ?m = "\<lambda>_ :: u64. 0 :: u64"
  let ?g = "\<lambda>n :: nat. if n = 0 then w else 0"
  have "\<exists>mem. (machine_step T)\<^sup>*\<^sup>* ([(?wr True True, ?z), (?rd True True, ?z)], ?m)
      ([(?wr False False, ?z), (?rd False False, ?g)], mem)"
  proof (cases "orders T wbar Wr Wr")
    case False
    let ?g1 = "?z(0 := w)"
    have "machine_step T ([(?wr True True, ?z), (?rd True True, ?z)], ?m)
        ([(?wr True False, ?z), (?rd True True, ?z)], ?m(y := w))"
      using step_left [OF pending_second [OF message_apart(1), of x y True T v wbar w ?z ?m]] False assms(2)
      by (simp add: message_waits)
    moreover have "machine_step T \<dots> ([(?wr True False, ?z), (?rd False True, ?g1)], ?m(y := w))"
      using step_right [OF pending_first [of "Load 0 y" T rbar True "Load 1 x" ?z "?m(y := w)"]] by simp
    moreover have "machine_step T \<dots> ([(?wr True False, ?z), (?rd False False, ?g1(1 := 0))], ?m(y := w))"
      using step_right [OF pending_second [OF message_apart(2), of x y False T 0 rbar 1 ?g1 "?m(y := w)"]]
        assms(2) by simp
    moreover have "machine_step T \<dots> ([(?wr False False, ?z), (?rd False False, ?g1(1 := 0))], ?m(y := w, x := v))"
      using step_left [OF pending_first [of "Store x v" T wbar False "Store y w" ?z "?m(y := w)"]] by simp
    ultimately have "(machine_step T)\<^sup>*\<^sup>* ([(?wr True True, ?z), (?rd True True, ?z)], ?m)
        ([(?wr False False, ?z), (?rd False False, ?g1(1 := 0))], ?m(y := w, x := v))"
      by (rule four_steps)
    moreover have "?g1(1 := 0) = ?g" by auto
    ultimately show ?thesis by (metis (no_types))
  next
    case True
    let ?g1 = "?z(1 := 0)"
    have "machine_step T ([(?wr True True, ?z), (?rd True True, ?z)], ?m)
        ([(?wr True True, ?z), (?rd True False, ?g1)], ?m)"
      using step_right [OF pending_second [OF message_apart(2), of x y True T 0 rbar 1 ?z ?m]] True assms
      by (simp add: message_waits)
    moreover have "machine_step T \<dots> ([(?wr False True, ?z), (?rd True False, ?g1)], ?m(x := v))"
      using step_left [OF pending_first [of "Store x v" T wbar True "Store y w" ?z ?m]] by simp
    moreover have "machine_step T \<dots> ([(?wr False False, ?z), (?rd True False, ?g1)], ?m(x := v, y := w))"
      using step_left [OF pending_second [OF message_apart(1), of x y False T v wbar w ?z "?m(x := v)"]]
        assms(2) by simp
    moreover have "machine_step T \<dots> ([(?wr False False, ?z), (?rd False False, ?g1(0 := w))], ?m(x := v, y := w))"
      using step_right [OF pending_first [of "Load 0 y" T rbar False "Load 1 x" ?g1 "?m(x := v, y := w)"]]
      by simp
    ultimately have "(machine_step T)\<^sup>*\<^sup>* ([(?wr True True, ?z), (?rd True True, ?z)], ?m)
        ([(?wr False False, ?z), (?rd False False, ?g1(0 := w))], ?m(x := v, y := w))"
      by (rule four_steps)
    moreover have "?g1(0 := w) = ?g" by auto
    ultimately show ?thesis by (metis (no_types))
  qed
  then have "\<exists>mem. (machine_step T)\<^sup>*\<^sup>* ([(?wr True True, ?z), (?rd True True, ?z)], ?m) ([([], ?z), ([], ?g)], mem)"
    using steps_end rtranclp_trans by meson
  then have "can_end T (?wr True True) (?rd True True) ?z ?g"
    unfolding can_end_def two_threads_def by simp
  then show ?thesis
    unfolding reads_stale_def pending_all by (intro exI [of _ ?z] exI [of _ ?g] conjI) (assumption | simp)+
qed

lemma reads_stale_iff:
  assumes "x \<noteq> y" and "v \<noteq> 0" and "w \<noteq> 0"
  shows "reads_stale T wbar rbar x v y w \<longleftrightarrow> \<not> (orders T wbar Wr Wr \<and> orders T rbar Rd Rd)"
proof
  assume "reads_stale T wbar rbar x v y w"
  then obtain f g mem where run: "(machine_step T)\<^sup>*\<^sup>* (two_threads (Store x v # map Asm wbar @ [Store y w])
      (Load 0 y # map Asm rbar @ [Load 1 x])) ([([], f), ([], g)], mem)" and stale: "g 0 = w" "g 1 = 0"
    by (auto simp: reads_stale_def can_end_def)
  show "\<not> (orders T wbar Wr Wr \<and> orders T rbar Rd Rd)"
  proof
    assume "orders T wbar Wr Wr \<and> orders T rbar Rd Rd"
    then have "g 0 = 0 \<or> g 1 = v"
      using message_inv_run [OF _ _ assms(1) run] by (auto simp: message_inv_def dest: in_order_end)
    with stale assms(2,3) show False by simp
  qed
qed (use message_missed assms(1) in blast)

subsection \<open>Properties\<close>

text \<open>What the code's barriers order on each target.\<close>

lemma orders_table:
  "orders T (aal_mb T) Wr Rd \<longleftrightarrow> T = T_x86_64 \<or> T = T_aarch64"
  "orders T (aal_mb_full T) Wr Rd \<longleftrightarrow> T = T_x86_64"
  "orders T (aal_wmb T) Wr Wr \<longleftrightarrow> tso T \<or> T = T_aarch64"
  "orders T (aal_rmb T) Rd Rd \<longleftrightarrow> tso T \<or> T = T_aarch64"
  "\<not> orders T (aal_compiler_barrier T) Wr Rd"
  "orders T (aal_compiler_barrier T) Wr Wr \<longleftrightarrow> tso T"
  "orders T (aal_compiler_barrier T) Rd Rd \<longleftrightarrow> tso T"
  "\<not> orders T (aal_prefetch_read T p @ aal_prefetch_write T p @ aal_prefetch_read_local T p @
      aal_prefetch_write_local T p) Wr Rd"
  by (cases T; simp add: orders_def hw_order_def tso_def barrier_defs)+

text \<open>C27: Two threads that each raise a flag and then look at the other's can miss each other on
  every target when only the compiler is held back (or lines are prefetched) between the two.
  With \<open>aal_mb\<close> at least one of them sees the other on x86-64 and AArch64, and on these targets only.
  With \<open>aal_mb_full\<close>, the function named the full barrier, that holds on x86-64 only: on AArch64 its
  instruction orders stores with stores and nothing else, and elsewhere there is none.\<close>

theorem flags_and_barriers:
  assumes "a \<noteq> b" and "v \<noteq> 0" and "w \<noteq> 0"
  shows "(both_miss T (aal_mb T) a v b w \<longleftrightarrow> T \<noteq> T_x86_64 \<and> T \<noteq> T_aarch64) \<and>
    (both_miss T (aal_mb_full T) a v b w \<longleftrightarrow> T \<noteq> T_x86_64) \<and>
    both_miss T (aal_compiler_barrier T) a v b w \<and>
    both_miss T (aal_prefetch_read T p @ aal_prefetch_write T p @ aal_prefetch_read_local T p @
      aal_prefetch_write_local T p) a v b w"
  unfolding both_miss_iff [OF assms] by (simp add: orders_table)

theorem flags_and_barriers_witness:
  "\<not> both_miss T_aarch64 (aal_mb T_aarch64) 8 1 16 1 \<and>
   both_miss T_aarch64 (aal_mb_full T_aarch64) 8 1 16 1"
  using flags_and_barriers [of 8 16 1 1 T_aarch64] by simp

text \<open>C28: A thread that writes a message, passes \<open>aal_wmb\<close> and sets a flag is read right by a
  thread that sees the flag, passes \<open>aal_rmb\<close> and reads the message, on x86-64 and AArch64, which
  have instructions for the two, and on i386 and s390x, which have none but keep stores in order
  and loads in order by themselves; on 32-bit Arm, RISC-V, POWER and LoongArch, where the two
  functions only hold back the compiler, the message can be missed. Without the barriers of the
  processor it can be missed on these four and on AArch64.\<close>

theorem message_and_barriers:
  assumes "x \<noteq> y" and "v \<noteq> 0" and "w \<noteq> 0"
  shows "(reads_stale T (aal_wmb T) (aal_rmb T) x v y w \<longleftrightarrow>
      T = T_arm32 \<or> T = T_riscv64 \<or> T = T_ppc64le \<or> T = T_loongarch64) \<and>
    (reads_stale T (aal_compiler_barrier T) (aal_compiler_barrier T) x v y w \<longleftrightarrow>
      T \<noteq> T_x86_64 \<and> T \<noteq> T_i386 \<and> T \<noteq> T_s390x)"
  unfolding reads_stale_iff [OF assms] orders_table by (cases T) (simp_all add: tso_def)

theorem message_and_barriers_witness:
  "\<not> reads_stale T_aarch64 (aal_wmb T_aarch64) (aal_rmb T_aarch64) 8 42 16 1 \<and>
   \<not> reads_stale T_s390x (aal_compiler_barrier T_s390x) (aal_compiler_barrier T_s390x) 8 42 16 1 \<and>
   reads_stale T_riscv64 (aal_wmb T_riscv64) (aal_rmb T_riscv64) 8 42 16 1"
  using message_and_barriers [of 8 16 42 1 T_aarch64] message_and_barriers [of 8 16 42 1 T_s390x]
    message_and_barriers [of 8 16 42 1 T_riscv64] by simp

end
