(* ===== verification/Aal_Memory.thy ===== *)
theory Aal_Memory
  imports Uroam_Prelude
begin

section \<open>Memory functions: aal/aal.c\<close>

text \<open>
  The wrappers around the C library's memory functions, over a byte store that is a function from
  addresses to bytes. Addresses wrap around; the number of bytes is a natural number.
  Copying between overlapping regions is undefined in C and \<open>None\<close> here. Of the result of a
  comparison C fixes the sign only, which is what the model returns. \<open>posix_memalign\<close> is the
  allocator of the C library: its answer, a code and the pointer it stores, is a parameter.
\<close>

type_synonym byte_store = "u64 \<Rightarrow> u8"

definition aal_memset :: "u64 \<Rightarrow> int \<Rightarrow> nat \<Rightarrow> byte_store \<Rightarrow> u64 \<times> byte_store" where
  "aal_memset s c n m = (s, \<lambda>a. if unat (a - s) < n then word_of_int c else m a)"

definition regions_overlap :: "u64 \<Rightarrow> u64 \<Rightarrow> nat \<Rightarrow> bool" where
  "regions_overlap a b n \<longleftrightarrow> unat (a - b) < n \<or> unat (b - a) < n"

definition aal_memcpy :: "u64 \<Rightarrow> u64 \<Rightarrow> nat \<Rightarrow> byte_store \<Rightarrow> (u64 \<times> byte_store) option" where
  "aal_memcpy dest src n m =
     (if regions_overlap dest src n then None
      else Some (dest, \<lambda>a. if unat (a - dest) < n then m (src + (a - dest)) else m a))"

fun aal_memcmp :: "u64 \<Rightarrow> u64 \<Rightarrow> nat \<Rightarrow> byte_store \<Rightarrow> int" where
  "aal_memcmp s1 s2 0 m = 0"
| "aal_memcmp s1 s2 (Suc n) m =
     (if m s1 = m s2 then aal_memcmp (s1 + 1) (s2 + 1) n m else if m s1 < m s2 then - 1 else 1)"

definition aal_alloc_aligned :: "(u64 \<Rightarrow> u64 \<Rightarrow> int \<times> u64) \<Rightarrow> u64 \<Rightarrow> u64 \<Rightarrow> u64 option" where
  "aal_alloc_aligned posix_memalign sz alignment =
     (case posix_memalign alignment sz of (ret, ptr) \<Rightarrow> if ret \<noteq> 0 then None else Some ptr)"

text \<open>\<open>None\<close> is a null pointer; the result is the list of what was given to \<open>free\<close>.\<close>

definition aal_free_aligned :: "u64 option \<Rightarrow> u64 list" where
  "aal_free_aligned ptr = (case ptr of None \<Rightarrow> [] | Some p \<Rightarrow> [p])"

subsection \<open>Lemmas\<close>

lemma memcmp_equal_iff:
  "aal_memcmp s1 s2 n m = 0 \<longleftrightarrow> (\<forall>i<n. m (s1 + of_nat i) = m (s2 + of_nat i))"
proof (induction n arbitrary: s1 s2)
  case 0
  then show ?case by simp
next
  case (Suc n)
  have "(\<forall>i<Suc n. m (s1 + of_nat i) = m (s2 + of_nat i)) \<longleftrightarrow>
      m s1 = m s2 \<and> (\<forall>i<n. m (s1 + 1 + of_nat i) = m (s2 + 1 + of_nat i))"
    by (simp add: All_less_Suc2 add.assoc)
  with Suc.IH [of "s1 + 1" "s2 + 1"] show ?case by simp
qed

text \<open>A byte of the one region is no byte of the other.\<close>

lemma regions_apart:
  assumes "\<not> regions_overlap a b n" and "unat (i :: u64) < n"
  shows "\<not> unat (b + i - a) < n"
proof
  assume k: "unat (b + i - a) < n"
  let ?k = "b + i - a"
  show False
  proof (cases "unat i \<le> unat ?k")
    case True
    have "b - a = ?k - i" by simp
    with True have "unat (b - a) = unat ?k - unat i"
      by (simp only: unat_sub word_le_nat_alt)
    moreover have "\<not> unat (b - a) < n" using assms(1) by (simp add: regions_overlap_def)
    ultimately show False using k by linarith
  next
    case False
    have "a - b = i - ?k" by simp
    with False have "unat (a - b) = unat i - unat ?k"
      by (simp only: unat_sub word_le_nat_alt)
    moreover have "\<not> unat (a - b) < n" using assms(1) by (simp add: regions_overlap_def)
    ultimately show False using assms(2) by linarith
  qed
qed

text \<open>What was copied compares equal.\<close>

theorem memcpy_memcmp:
  assumes "aal_memcpy dest src n m = Some (r, m')"
  shows "r = dest \<and> aal_memcmp dest src n m' = 0 \<and> (\<forall>a. \<not> unat (a - dest) < n \<longrightarrow> m' a = m a)"
proof -
  from assms have apart: "\<not> regions_overlap dest src n" and "r = dest"
    and m': "m' = (\<lambda>a. if unat (a - dest) < n then m (src + (a - dest)) else m a)"
    by (auto simp: aal_memcpy_def split: if_splits)
  have "m' (dest + of_nat i) = m' (src + of_nat i)" if "i < n" for i
  proof -
    have "unat (of_nat i :: u64) < n"
      using that by (metis le_less_trans unat_of_nat mod_less_eq_dividend)
    with regions_apart [OF apart this] show ?thesis by (simp add: m')
  qed
  with \<open>r = dest\<close> show ?thesis by (auto simp: memcmp_equal_iff m')
qed

theorem memcpy_memcmp_witness:
  "\<exists>m'. aal_memcpy 100 0 4 (\<lambda>a. ucast a) = Some (100, m') \<and> aal_memcmp 100 0 4 m' = 0"
proof -
  let ?m = "\<lambda>a :: u64. ucast a :: u8"
  obtain r m' where c: "aal_memcpy 100 0 4 ?m = Some (r, m')"
    by (simp add: aal_memcpy_def regions_overlap_def)
  with memcpy_memcmp [OF this] show ?thesis by auto
qed

end
