(* ===== verification/Aal_Detect.thy ===== *)
theory Aal_Detect
  imports Uroam_Prelude
begin

unbundle bit_operations_syntax

section \<open>Detection of the machine: aal/aal.c\<close>

text \<open>
  What \<open>aal_init\<close> finds out about the machine and the accessors that hand it out. The compiler's
  predefined macros, the \<open>cpuid\<close> instruction, \<open>sysconf\<close>, the file system and the byte order of
  the machine are the parameter \<open>sys_env\<close>. Arrays are lists of the declared length.
\<close>

subsection \<open>Data\<close>

abbreviation AAL_MAX_CPUS :: nat where "AAL_MAX_CPUS \<equiv> 256"
abbreviation AAL_MAX_NUMA_NODES :: nat where "AAL_MAX_NUMA_NODES \<equiv> 16"

datatype aal_arch_t =
    AAL_ARCH_X86_64 | AAL_ARCH_ARM64 | AAL_ARCH_ARM32 | AAL_ARCH_RISCV64
  | AAL_ARCH_PPC64LE | AAL_ARCH_S390X | AAL_ARCH_LOONGARCH64 | AAL_ARCH_UNKNOWN

datatype aal_mem_model_t =
    AAL_MEM_MODEL_FLAT | AAL_MEM_MODEL_NEAR | AAL_MEM_MODEL_UMA | AAL_MEM_MODEL_NUMA

text \<open>The number C gives an architecture, and the order the code compares them by.\<close>

fun arch_index :: "aal_arch_t \<Rightarrow> nat" where
  "arch_index AAL_ARCH_X86_64 = 0"
| "arch_index AAL_ARCH_ARM64 = 1"
| "arch_index AAL_ARCH_ARM32 = 2"
| "arch_index AAL_ARCH_RISCV64 = 3"
| "arch_index AAL_ARCH_PPC64LE = 4"
| "arch_index AAL_ARCH_S390X = 5"
| "arch_index AAL_ARCH_LOONGARCH64 = 6"
| "arch_index AAL_ARCH_UNKNOWN = 7"

lemma arch_index_inj: "arch_index a = arch_index b \<Longrightarrow> a = b"
  by (cases a; cases b; simp)

instantiation aal_arch_t :: linorder
begin

definition less_eq_aal_arch_t :: "aal_arch_t \<Rightarrow> aal_arch_t \<Rightarrow> bool" where
  "less_eq_aal_arch_t a b \<longleftrightarrow> arch_index a \<le> arch_index b"

definition less_aal_arch_t :: "aal_arch_t \<Rightarrow> aal_arch_t \<Rightarrow> bool" where
  "less_aal_arch_t a b \<longleftrightarrow> arch_index a < arch_index b"

instance
  by standard (auto simp: less_eq_aal_arch_t_def less_aal_arch_t_def arch_index_inj)

end

record aal_cpu_info_t =
  arch :: aal_arch_t
  family :: u32
  model :: u32
  stepping :: u32
  vendor :: "u8 list"
  brand :: "u8 list"

record aal_memory_info_t =
  page_size :: u64
  huge_page_size :: u64
  supported_pages :: u32
  has_transparent_hugepages :: bool
  has_explicit_hugepages :: bool

record aal_cache_info_t =
  cache_line_size :: u32
  l1d_cache_size :: u32
  l2_cache_size :: u32
  l3_cache_size :: u32
  l1i_cache_size :: u32
  l1d_assoc :: u32
  l2_assoc :: u32
  l3_assoc :: u32

record aal_simd_info_t =
  simd_level :: u32
  has_sse :: bool
  has_sse2 :: bool
  has_sse3 :: bool
  has_ssse3 :: bool
  has_sse4_1 :: bool
  has_sse4_2 :: bool
  has_avx :: bool
  has_avx2 :: bool
  has_avx512f :: bool
  has_avx512bw :: bool
  has_avx512dq :: bool
  has_avx512vl :: bool
  has_avx512cd :: bool
  has_neon :: bool
  has_neon_dotprod :: bool
  has_neon_i8mm :: bool
  has_rvv :: bool

record aal_numa_info_t =
  node_count :: u32
  distances :: "u32 list list"
  node_mem_size :: "u64 list"
  has_local_memory :: "bool list"
  node_of_cpu :: "u32 list"

record aal_endian_info_t =
  endianness :: u32
  is_little_endian :: bool
  is_big_endian :: bool

record aal_system_info_t =
  cpu :: aal_cpu_info_t
  memory :: aal_memory_info_t
  cache :: aal_cache_info_t
  simd :: aal_simd_info_t
  numa :: aal_numa_info_t
  endian :: aal_endian_info_t
  mem_model :: aal_mem_model_t
  cpu_count :: u32
  online_cpu_count :: u32
  thread_count :: u32
  total_ram_kb :: u64
  base_page_size :: u64

text \<open>The bytes zero, as the fields read them.\<close>

definition zero_cpu :: aal_cpu_info_t where
  "zero_cpu = \<lparr>arch = AAL_ARCH_X86_64, family = 0, model = 0, stepping = 0,
     vendor = replicate 16 0, brand = replicate 64 0\<rparr>"

definition zero_simd :: aal_simd_info_t where
  "zero_simd = \<lparr>simd_level = 0, has_sse = False, has_sse2 = False, has_sse3 = False,
     has_ssse3 = False, has_sse4_1 = False, has_sse4_2 = False, has_avx = False, has_avx2 = False,
     has_avx512f = False, has_avx512bw = False, has_avx512dq = False, has_avx512vl = False,
     has_avx512cd = False, has_neon = False, has_neon_dotprod = False, has_neon_i8mm = False,
     has_rvv = False\<rparr>"

definition zero_info :: aal_system_info_t where
  "zero_info = \<lparr>cpu = zero_cpu,
     memory = \<lparr>page_size = 0, huge_page_size = 0, supported_pages = 0,
       has_transparent_hugepages = False, has_explicit_hugepages = False\<rparr>,
     cache = \<lparr>cache_line_size = 0, l1d_cache_size = 0, l2_cache_size = 0, l3_cache_size = 0,
       l1i_cache_size = 0, l1d_assoc = 0, l2_assoc = 0, l3_assoc = 0\<rparr>,
     simd = zero_simd,
     numa = \<lparr>node_count = 0,
       distances = replicate AAL_MAX_NUMA_NODES (replicate AAL_MAX_NUMA_NODES 0),
       node_mem_size = replicate AAL_MAX_NUMA_NODES 0,
       has_local_memory = replicate AAL_MAX_CPUS False, node_of_cpu = replicate AAL_MAX_CPUS 0\<rparr>,
     endian = \<lparr>endianness = 0, is_little_endian = False, is_big_endian = False\<rparr>,
     mem_model = AAL_MEM_MODEL_FLAT, cpu_count = 0, online_cpu_count = 0, thread_count = 0,
     total_ram_kb = 0, base_page_size = 0\<rparr>"

text \<open>The levels of vector instructions.\<close>

abbreviation AAL_SIMD_NONE :: u32 where "AAL_SIMD_NONE \<equiv> 0"
abbreviation AAL_SIMD_SSE :: u32 where "AAL_SIMD_SSE \<equiv> 1"
abbreviation AAL_SIMD_SSE2 :: u32 where "AAL_SIMD_SSE2 \<equiv> 2"
abbreviation AAL_SIMD_SSE3 :: u32 where "AAL_SIMD_SSE3 \<equiv> 3"
abbreviation AAL_SIMD_SSSE3 :: u32 where "AAL_SIMD_SSSE3 \<equiv> 4"
abbreviation AAL_SIMD_SSE4_1 :: u32 where "AAL_SIMD_SSE4_1 \<equiv> 5"
abbreviation AAL_SIMD_SSE4_2 :: u32 where "AAL_SIMD_SSE4_2 \<equiv> 6"
abbreviation AAL_SIMD_AVX :: u32 where "AAL_SIMD_AVX \<equiv> 7"
abbreviation AAL_SIMD_AVX2 :: u32 where "AAL_SIMD_AVX2 \<equiv> 8"
abbreviation AAL_SIMD_AVX512 :: u32 where "AAL_SIMD_AVX512 \<equiv> 9"
abbreviation AAL_SIMD_NEON :: u32 where "AAL_SIMD_NEON \<equiv> 10"
abbreviation AAL_SIMD_RVV :: u32 where "AAL_SIMD_RVV \<equiv> 11"

subsection \<open>The machine\<close>

text \<open>
  \<open>cpuid0\<close> is what \<open>__get_cpuid\<close> returns for leaf 0 (\<open>None\<close> where it fails, and
  then the four variables keep what they hold, \<open>stale_eax\<close> the first), \<open>cpuid_leaf\<close> what the
  instruction gives for a leaf: the registers \<open>eax\<close>, \<open>ebx\<close>, \<open>ecx\<close>, \<open>edx\<close>. A file is its
  whole content; a directory the names in the order \<open>readdir\<close> returns them.
\<close>

type_synonym regs = "u32 \<times> u32 \<times> u32 \<times> u32"

record sys_env =
  macros :: "string list"
  cpuid0 :: "regs option"
  stale_eax :: u32
  cpuid_leaf :: "u32 \<Rightarrow> regs"
  low_byte_first :: bool
  sc_nprocessors_conf :: int
  sc_nprocessors_onln :: int
  sc_phys_pages :: int
  sc_pagesize :: int
  readable :: "string \<Rightarrow> bool"
  file_content :: "string \<Rightarrow> string option"
  dir_entries :: "string \<Rightarrow> string list option"

definition defined :: "sys_env \<Rightarrow> string \<Rightarrow> bool" where
  "defined e m \<longleftrightarrow> m \<in> set (macros e)"

text \<open>The lines \<open>fgets\<close> returns with a buffer of \<open>n + 2\<close> characters.\<close>

fun fgets_line :: "nat \<Rightarrow> string \<Rightarrow> string \<times> string" where
  "fgets_line n [] = ([], [])"
| "fgets_line 0 (c # cs) = ([c], cs)"
| "fgets_line (Suc n) (c # cs) =
     (if c = CHR 0x0A then ([c], cs) else (case fgets_line n cs of (l, r) \<Rightarrow> (c # l, r)))"

lemma fgets_line_rest: "length (snd (fgets_line n (c # cs))) < length (c # cs)"
proof (induction n "c # cs" arbitrary: c cs rule: fgets_line.induct)
  case (3 n c cs)
  then show ?case by (cases cs) (auto split: prod.splits simp: less_Suc_eq)
qed simp

function fgets_lines :: "nat \<Rightarrow> string \<Rightarrow> string list" where
  "fgets_lines n [] = []"
| "fgets_lines n (c # cs) =
     cstr (fst (fgets_line n (c # cs))) # fgets_lines n (snd (fgets_line n (c # cs)))"
  by pat_completeness auto
termination
  by (relation "measure (\<lambda>(n, s). length s)") (use fgets_line_rest in auto)

text \<open>The lines of a file read through a buffer of the given size; none if it cannot be opened.\<close>

definition lines_of :: "sys_env \<Rightarrow> string \<Rightarrow> nat \<Rightarrow> string list" where
  "lines_of e path n =
     (case file_content e path of None \<Rightarrow> [] | Some s \<Rightarrow> fgets_lines (n - 2) s)"

subsection \<open>The processor\<close>

definition cpuid_bit :: "u32 \<Rightarrow> nat \<Rightarrow> bool" where
  "cpuid_bit w n \<longleftrightarrow> drop_bit n w AND 1 \<noteq> 0"

text \<open>The flags of leaf 7, and the ladder that picks the level.\<close>

definition leaf7_features :: "sys_env \<Rightarrow> aal_simd_info_t \<Rightarrow> aal_simd_info_t" where
  "leaf7_features e f =
     (case cpuid_leaf e 7 of (eax, ebx, ecx, edx) \<Rightarrow>
        f\<lparr>has_avx2 := cpuid_bit ebx 5, has_avx512f := cpuid_bit ebx 16,
          has_avx512bw := cpuid_bit ebx 30, has_avx512dq := cpuid_bit ebx 17,
          has_avx512vl := cpuid_bit ebx 1, has_avx512cd := cpuid_bit ebx 28\<rparr>)"

definition simd_ladder :: "aal_simd_info_t \<Rightarrow> u32" where
  "simd_ladder f =
     (if has_avx512f f then AAL_SIMD_AVX512
      else if has_avx2 f then AAL_SIMD_AVX2
      else if has_avx f then AAL_SIMD_AVX
      else if has_sse4_2 f then AAL_SIMD_SSE4_2
      else if has_sse4_1 f then AAL_SIMD_SSE4_1
      else if has_ssse3 f then AAL_SIMD_SSSE3
      else if has_sse3 f then AAL_SIMD_SSE3
      else if has_sse2 f then AAL_SIMD_SSE2
      else if has_sse f then AAL_SIMD_SSE
      else AAL_SIMD_NONE)"

text \<open>The variable \<open>eax\<close> is tested against 1 as leaf 0 left it, and against 7 as leaf 1 left it.\<close>

definition aal_detect_cpu_x86_64 :: "sys_env \<Rightarrow> aal_system_info_t \<Rightarrow> aal_system_info_t" where
  "aal_detect_cpu_x86_64 e g =
     (let c0 = (cpu g)\<lparr>arch := AAL_ARCH_X86_64, family := 0, model := 0, stepping := 0,
                 vendor := replicate 16 0, brand := replicate 64 0\<rparr>;
          (c1, eax0) =
            (case cpuid0 e of
               None \<Rightarrow> (c0, stale_eax e)
             | Some (eax, ebx, ecx, edx) \<Rightarrow>
                 (c0\<lparr>vendor := le_bytes ebx @ le_bytes ecx @ le_bytes edx @ drop 12 (vendor c0)\<rparr>, eax))
      in if \<not> (defined e ''__x86_64__'' \<or> defined e ''__i386__'') then g\<lparr>cpu := c0\<rparr>
         else if 1 \<le> eax0 then
           (case cpuid_leaf e 1 of (eax, ebx, ecx, edx) \<Rightarrow>
              let c2 = c1\<lparr>family := (drop_bit 8 eax AND 0xF) + (drop_bit 20 eax AND 0xFF),
                          model := (drop_bit 4 eax AND 0xF) OR (drop_bit 12 eax AND 0xF0),
                          stepping := eax AND 0xF\<rparr>;
                  f1 = (simd g)\<lparr>has_sse := cpuid_bit edx 25, has_sse2 := cpuid_bit edx 26,
                                has_sse3 := cpuid_bit ecx 0, has_ssse3 := cpuid_bit ecx 9,
                                has_sse4_1 := cpuid_bit ecx 19, has_sse4_2 := cpuid_bit ecx 20,
                                has_avx := cpuid_bit ecx 28\<rparr>;
                  f2 = (if 7 \<le> eax then leaf7_features e f1 else f1)
              in g\<lparr>cpu := c2, simd := f2\<lparr>simd_level := simd_ladder f2\<rparr>\<rparr>)
         else g\<lparr>cpu := c1\<rparr>)"

definition aal_detect_cpu_arm64 :: "sys_env \<Rightarrow> aal_system_info_t \<Rightarrow> aal_system_info_t" where
  "aal_detect_cpu_arm64 e g =
     (let g1 = g\<lparr>cpu := (cpu g)\<lparr>arch := AAL_ARCH_ARM64\<rparr>,
                 simd := (simd g)\<lparr>simd_level := AAL_SIMD_NEON, has_neon := True\<rparr>\<rparr>
      in if defined e ''__ARM_FEATURE_CRYPTO'' then g1\<lparr>simd := (simd g1)\<lparr>has_neon_dotprod := True\<rparr>\<rparr>
         else g1)"

definition aal_detect_cpu_arm32 :: "sys_env \<Rightarrow> aal_system_info_t \<Rightarrow> aal_system_info_t" where
  "aal_detect_cpu_arm32 e g =
     (let g1 = g\<lparr>cpu := (cpu g)\<lparr>arch := AAL_ARCH_ARM32\<rparr>\<rparr>
      in if defined e ''__ARM_NEON'' \<or> defined e ''__ARM_NEON__''
         then g1\<lparr>simd := (simd g1)\<lparr>simd_level := AAL_SIMD_NEON, has_neon := True\<rparr>\<rparr>
         else g1)"

definition aal_detect_cpu_riscv64 :: "sys_env \<Rightarrow> aal_system_info_t \<Rightarrow> aal_system_info_t" where
  "aal_detect_cpu_riscv64 e g =
     (let g1 = g\<lparr>cpu := (cpu g)\<lparr>arch := AAL_ARCH_RISCV64\<rparr>\<rparr>
      in if defined e ''__riscv_v''
         then g1\<lparr>simd := (simd g1)\<lparr>simd_level := AAL_SIMD_RVV, has_rvv := True\<rparr>\<rparr>
         else g1)"

definition aal_detect_cpu_ppc64le :: "aal_system_info_t \<Rightarrow> aal_system_info_t" where
  "aal_detect_cpu_ppc64le g = g\<lparr>cpu := (cpu g)\<lparr>arch := AAL_ARCH_PPC64LE\<rparr>\<rparr>"

definition aal_detect_cpu_s390x :: "aal_system_info_t \<Rightarrow> aal_system_info_t" where
  "aal_detect_cpu_s390x g = g\<lparr>cpu := (cpu g)\<lparr>arch := AAL_ARCH_S390X\<rparr>\<rparr>"

definition aal_detect_cpu_loongarch64 :: "aal_system_info_t \<Rightarrow> aal_system_info_t" where
  "aal_detect_cpu_loongarch64 g = g\<lparr>cpu := (cpu g)\<lparr>arch := AAL_ARCH_LOONGARCH64\<rparr>\<rparr>"

definition aal_detect_cpu_default :: "aal_system_info_t \<Rightarrow> aal_system_info_t" where
  "aal_detect_cpu_default g =
     g\<lparr>cpu := (cpu g)\<lparr>arch := AAL_ARCH_UNKNOWN\<rparr>, simd := (simd g)\<lparr>simd_level := AAL_SIMD_NONE\<rparr>\<rparr>"

definition aal_detect_cpu :: "sys_env \<Rightarrow> aal_system_info_t \<Rightarrow> aal_system_info_t" where
  "aal_detect_cpu e g0 =
     (let g = g0\<lparr>cpu := zero_cpu, simd := zero_simd\<rparr>
      in if defined e ''__x86_64__'' \<or> defined e ''_M_X64'' then aal_detect_cpu_x86_64 e g
         else if defined e ''__aarch64__'' \<or> defined e ''_M_ARM64'' then aal_detect_cpu_arm64 e g
         else if defined e ''__arm__'' then aal_detect_cpu_arm32 e g
         else if defined e ''__riscv'' \<and> defined e ''__riscv64'' then aal_detect_cpu_riscv64 e g
         else if defined e ''__powerpc64__'' then aal_detect_cpu_ppc64le g
         else if defined e ''__s390x__'' then aal_detect_cpu_s390x g
         else if defined e ''__loongarch64'' then aal_detect_cpu_loongarch64 g
         else aal_detect_cpu_default g)"

subsection \<open>Memory, caches, nodes, byte order, processors\<close>

definition aal_detect_memory :: "sys_env \<Rightarrow> aal_system_info_t \<Rightarrow> aal_system_info_t" where
  "aal_detect_memory e g =
     (let m0 = (memory g)\<lparr>page_size := 4096, huge_page_size := 2 * 1024 * 1024, supported_pages := 1,
                          has_transparent_hugepages := False, has_explicit_hugepages := False\<rparr>;
          m1 = (if 0 < sc_pagesize e
                then m0\<lparr>page_size := word_of_int (sc_pagesize e), supported_pages := 1\<rparr> else m0);
          m2 = (if readable e ''/sys/kernel/mm/transparent_hugepage/enabled''
                then m1\<lparr>has_transparent_hugepages := True\<rparr> else m1);
          mm = (if readable e ''/proc/self/numa_maps'' then AAL_MEM_MODEL_NUMA else mem_model g)
      in g\<lparr>memory := m2, mem_model := mm, base_page_size := page_size m2\<rparr>)"

definition cache_line :: "string \<Rightarrow> aal_cache_info_t \<Rightarrow> aal_cache_info_t" where
  "cache_line line c =
     (if c_strstr line ''cache size'' = None then c
      else case c_strchr line CHR '':'' of
        None \<Rightarrow> c
      | Some colon \<Rightarrow>
          let kb = c_atoi (tl colon)
          in if c_strstr line ''L1'' \<noteq> None then
               (if c_strstr line ''d'' \<noteq> None then c\<lparr>l1d_cache_size := word_of_int (kb * 1024)\<rparr> else c)
             else if c_strstr line ''L2'' \<noteq> None then c\<lparr>l2_cache_size := word_of_int (kb * 1024)\<rparr>
             else if c_strstr line ''L3'' \<noteq> None then c\<lparr>l3_cache_size := word_of_int (kb * 1024)\<rparr>
             else c)"

definition aal_detect_cache :: "sys_env \<Rightarrow> aal_system_info_t \<Rightarrow> aal_system_info_t" where
  "aal_detect_cache e g =
     g\<lparr>cache := fold cache_line (lines_of e ''/proc/cpuinfo'' 512)
         ((cache g)\<lparr>cache_line_size := 64, l1d_cache_size := 32 * 1024,
                    l2_cache_size := 256 * 1024, l3_cache_size := 8 * 1024 * 1024\<rparr>)\<rparr>"

text \<open>
  The pointer \<open>kbp\<close> into the line, as its offset: back to the last blank before it, then over the
  digits that follow.
\<close>

fun back_to_blank :: "string \<Rightarrow> nat \<Rightarrow> nat" where
  "back_to_blank line 0 = 0"
| "back_to_blank line (Suc k) = (if line ! k \<noteq> CHR '' '' then back_to_blank line k else Suc k)"

definition meminfo_value :: "string \<Rightarrow> string \<Rightarrow> int" where
  "meminfo_value line kbp =
     c_atoi (dropWhile is_cdigit (drop (back_to_blank line (length line - length kbp)) line))"

definition meminfo_line :: "nat \<Rightarrow> string \<Rightarrow> aal_numa_info_t \<Rightarrow> aal_numa_info_t" where
  "meminfo_line node_id line n =
     (if c_strstr line ''MemTotal:'' = None then n
      else case c_strstr line ''kB'' of
        None \<Rightarrow> n
      | Some kbp \<Rightarrow>
          n\<lparr>node_mem_size := (node_mem_size n)[node_id := word_of_int (meminfo_value line kbp * 1024)]\<rparr>)"

definition node_entry :: "sys_env \<Rightarrow> string \<Rightarrow> aal_numa_info_t \<Rightarrow> aal_numa_info_t" where
  "node_entry e d_name n =
     (if take 4 d_name = ''node'' then
        let node_id = c_atoi (drop 4 d_name)
        in if 0 \<le> node_id \<and> node_id < int AAL_MAX_NUMA_NODES then
             fold (meminfo_line (nat node_id))
               (lines_of e (take 255 (''/sys/bus/node/devices/'' @ d_name @ ''/meminfo'')) 128) n
           else n
      else n)"

definition aal_detect_numa :: "sys_env \<Rightarrow> aal_system_info_t \<Rightarrow> aal_system_info_t" where
  "aal_detect_numa e g =
     (let ram = total_ram_kb g * 1024;
          n0 = (numa g)\<lparr>node_count := 1,
                 distances := replicate AAL_MAX_NUMA_NODES (replicate AAL_MAX_NUMA_NODES 0),
                 node_mem_size := replicate AAL_MAX_NUMA_NODES 0\<rparr>;
          fallback = g\<lparr>numa := n0\<lparr>node_mem_size := (node_mem_size n0)[0 := ram]\<rparr>\<rparr>
      in if \<not> readable e ''/sys/bus/node/devices'' then fallback
         else case dir_entries e ''/sys/bus/node/devices'' of
           None \<Rightarrow> fallback
         | Some names \<Rightarrow>
             let n1 = fold (node_entry e) names n0;
                 n2 = (if node_mem_size n1 ! 0 = 0
                       then n1\<lparr>node_mem_size := (node_mem_size n1)[0 := ram]\<rparr> else n1);
                 n3 = for_upto AAL_MAX_NUMA_NODES
                        (\<lambda>i n. if 0 < node_mem_size n ! i then n\<lparr>node_count := of_nat (i + 1)\<rparr> else n)
                        (n2\<lparr>node_count := 1\<rparr>)
             in g\<lparr>numa := n3\<rparr>)"

text \<open>The first byte in memory of the test word, by the byte order of the machine.\<close>

definition first_byte :: "sys_env \<Rightarrow> u32 \<Rightarrow> u8" where
  "first_byte e w = (if low_byte_first e then hd (le_bytes w) else last (le_bytes w))"

definition aal_detect_endian :: "sys_env \<Rightarrow> aal_system_info_t \<Rightarrow> aal_system_info_t" where
  "aal_detect_endian e g =
     (if first_byte e 0x01020304 = 4
      then g\<lparr>endian := \<lparr>endianness = 0, is_little_endian = True, is_big_endian = False\<rparr>\<rparr>
      else g\<lparr>endian := \<lparr>endianness = 1, is_little_endian = False, is_big_endian = True\<rparr>\<rparr>)"

definition aal_detect_cpu_count :: "sys_env \<Rightarrow> aal_system_info_t \<Rightarrow> aal_system_info_t" where
  "aal_detect_cpu_count e g =
     (let g1 = g\<lparr>cpu_count := word_of_int (sc_nprocessors_conf e),
                 online_cpu_count := word_of_int (sc_nprocessors_onln e),
                 thread_count := word_of_int (sc_nprocessors_onln e)\<rparr>
      in if cpu_count g1 = 0 \<or> of_nat AAL_MAX_CPUS < cpu_count g1
         then g1\<lparr>cpu_count := 1, online_cpu_count := 1\<rparr> else g1)"

definition aal_detect_total_ram :: "sys_env \<Rightarrow> aal_system_info_t \<Rightarrow> aal_system_info_t" where
  "aal_detect_total_ram e g =
     g\<lparr>total_ram_kb := word_of_int (sc_phys_pages e) * word_of_int (sc_pagesize e) div 1024\<rparr>"

subsection \<open>The library\<close>

record aal_state =
  g_aal_info :: aal_system_info_t
  g_aal_initialized :: bool

definition aal_boot :: aal_state where
  "aal_boot = \<lparr>g_aal_info = zero_info, g_aal_initialized = False\<rparr>"

text \<open>The body of \<open>aal_init\<close> between its guard and the last line.\<close>

definition aal_detect_all :: "sys_env \<Rightarrow> aal_system_info_t" where
  "aal_detect_all e =
     (let g0 = zero_info\<lparr>mem_model := AAL_MEM_MODEL_FLAT\<rparr>;
          g1 = aal_detect_total_ram e g0;
          g2 = aal_detect_cpu e g1;
          g3 = aal_detect_memory e g2;
          g4 = aal_detect_cache e g3;
          g5 = aal_detect_numa e g4;
          g6 = aal_detect_endian e g5
      in aal_detect_cpu_count e g6)"

definition aal_init :: "sys_env \<Rightarrow> aal_state \<Rightarrow> aal_state" where
  "aal_init e s =
     (if g_aal_initialized s then s
      else s\<lparr>g_aal_info := aal_detect_all e, g_aal_initialized := True\<rparr>)"

definition aal_shutdown :: "aal_state \<Rightarrow> aal_state" where
  "aal_shutdown s = s\<lparr>g_aal_initialized := False\<rparr>"

definition aal_get_system_info :: "sys_env \<Rightarrow> aal_state \<Rightarrow> aal_system_info_t \<times> aal_state" where
  "aal_get_system_info e s =
     (let s' = (if g_aal_initialized s then s else aal_init e s) in (g_aal_info s', s'))"

definition aal_arch_names :: "string list" where
  "aal_arch_names = [''x86_64'', ''arm64'', ''arm32'', ''riscv64'', ''ppc64le'', ''s390x'',
     ''loongarch64'', ''unknown'']"

definition aal_get_arch_name :: "aal_arch_t \<Rightarrow> string" where
  "aal_get_arch_name a =
     (if a < AAL_ARCH_UNKNOWN then aal_arch_names ! arch_index a else ''unknown'')"

definition aal_get_numa_node_of_cpu :: "u32 \<Rightarrow> aal_state \<Rightarrow> int" where
  "aal_get_numa_node_of_cpu n s =
     (if n < of_nat AAL_MAX_CPUS then sint (node_of_cpu (numa (g_aal_info s)) ! unat n) else 0)"

definition aal_get_numa_node_mem_size :: "u32 \<Rightarrow> aal_state \<Rightarrow> u64" where
  "aal_get_numa_node_mem_size n s =
     (if n < of_nat AAL_MAX_NUMA_NODES then node_mem_size (numa (g_aal_info s)) ! unat n else 0)"

definition aal_cpu_has_sse :: "aal_state \<Rightarrow> bool" where
  "aal_cpu_has_sse s = has_sse (simd (g_aal_info s))"

definition aal_cpu_has_sse2 :: "aal_state \<Rightarrow> bool" where
  "aal_cpu_has_sse2 s = has_sse2 (simd (g_aal_info s))"

definition aal_cpu_has_sse3 :: "aal_state \<Rightarrow> bool" where
  "aal_cpu_has_sse3 s = has_sse3 (simd (g_aal_info s))"

definition aal_cpu_has_ssse3 :: "aal_state \<Rightarrow> bool" where
  "aal_cpu_has_ssse3 s = has_ssse3 (simd (g_aal_info s))"

definition aal_cpu_has_sse4_1 :: "aal_state \<Rightarrow> bool" where
  "aal_cpu_has_sse4_1 s = has_sse4_1 (simd (g_aal_info s))"

definition aal_cpu_has_sse4_2 :: "aal_state \<Rightarrow> bool" where
  "aal_cpu_has_sse4_2 s = has_sse4_2 (simd (g_aal_info s))"

definition aal_cpu_has_avx :: "aal_state \<Rightarrow> bool" where
  "aal_cpu_has_avx s = has_avx (simd (g_aal_info s))"

definition aal_cpu_has_avx2 :: "aal_state \<Rightarrow> bool" where
  "aal_cpu_has_avx2 s = has_avx2 (simd (g_aal_info s))"

definition aal_cpu_has_avx512f :: "aal_state \<Rightarrow> bool" where
  "aal_cpu_has_avx512f s = has_avx512f (simd (g_aal_info s))"

definition aal_cpu_has_neon :: "aal_state \<Rightarrow> bool" where
  "aal_cpu_has_neon s = has_neon (simd (g_aal_info s))"

definition aal_cpu_has_rvv :: "aal_state \<Rightarrow> bool" where
  "aal_cpu_has_rvv s = has_rvv (simd (g_aal_info s))"

definition aal_get_huge_page_size :: "aal_state \<Rightarrow> u64" where
  "aal_get_huge_page_size s = huge_page_size (memory (g_aal_info s))"

definition aal_get_cache_line_size :: "aal_state \<Rightarrow> u32" where
  "aal_get_cache_line_size s = cache_line_size (cache (g_aal_info s))"

definition aal_get_page_size :: "aal_state \<Rightarrow> u64" where
  "aal_get_page_size s = page_size (memory (g_aal_info s))"

definition aal_get_cpu_count :: "aal_state \<Rightarrow> u32" where
  "aal_get_cpu_count s = cpu_count (g_aal_info s)"

definition aal_get_numa_node_count :: "aal_state \<Rightarrow> u32" where
  "aal_get_numa_node_count s = node_count (numa (g_aal_info s))"

definition aal_get_total_ram_kb :: "aal_state \<Rightarrow> u64" where
  "aal_get_total_ram_kb s = total_ram_kb (g_aal_info s)"

definition aal_is_little_endian :: "aal_state \<Rightarrow> bool" where
  "aal_is_little_endian s = is_little_endian (endian (g_aal_info s))"

definition aal_get_version :: string where
  "aal_get_version = ''1.0.0''"

definition aal_get_numa_node_of_addr :: "u64 \<Rightarrow> int" where
  "aal_get_numa_node_of_addr addr = 0"

text \<open>
  The time stamp: on x86-64 the two halves the instruction leaves in \<open>eax\<close> and \<open>edx\<close>, elsewhere the
  monotonic clock's seconds and nanoseconds.
\<close>

definition aal_rdtsc :: "sys_env \<Rightarrow> u32 \<Rightarrow> u32 \<Rightarrow> int \<Rightarrow> int \<Rightarrow> u64" where
  "aal_rdtsc e lo hi tv_sec tv_nsec =
     (if defined e ''__x86_64__'' then push_bit 32 (ucast hi) OR ucast lo
      else word_of_int tv_sec * 1000000000 + word_of_int tv_nsec)"

definition aal_rdtscp :: "sys_env \<Rightarrow> u32 \<Rightarrow> u32 \<Rightarrow> int \<Rightarrow> int \<Rightarrow> u64" where
  "aal_rdtscp e lo hi tv_sec tv_nsec =
     (if defined e ''__x86_64__'' then push_bit 32 (ucast hi) OR ucast lo
      else aal_rdtsc e lo hi tv_sec tv_nsec)"

lemma aal_rdtsc_value:
  "defined e ''__x86_64__'' \<Longrightarrow> unat (aal_rdtsc e lo hi t n) = 2 ^ 32 * unat hi + unat lo"
proof -
  have small: "unat w < 2 ^ 32" for w :: u32
    using unsigned_less [of w] by simp
  have wide: "unat (ucast w :: u64) = unat w" for w :: u32
    using small [of w] by (simp add: unsigned_ucast_eq take_bit_nat_eq_self)
  have "push_bit 32 (ucast hi) OR ucast lo = push_bit 32 (ucast hi) + (ucast lo :: u64)"
    by (rule disjunctive_add [symmetric])
       (auto simp: bit_push_bit_iff bit_ucast_iff dest: bit_imp_le_length)
  moreover have "unat (push_bit 32 (ucast hi) + (ucast lo :: u64)) = 2 ^ 32 * unat hi + unat lo"
    using small [of hi] small [of lo] by (simp add: push_bit_eq_mult unat_word_ariths wide)
  ultimately show "defined e ''__x86_64__'' \<Longrightarrow> ?thesis"
    by (simp add: aal_rdtsc_def)
qed

subsection \<open>Vector instructions\<close>

text \<open>The levels whose flag is set.\<close>

definition highest :: "(u32 \<times> bool) list \<Rightarrow> u32" where
  "highest table = foldr max (map fst (filter snd table)) AAL_SIMD_NONE"

definition levels_set :: "aal_simd_info_t \<Rightarrow> (u32 \<times> bool) list" where
  "levels_set f =
     [(AAL_SIMD_RVV, has_rvv f), (AAL_SIMD_NEON, has_neon f), (AAL_SIMD_AVX512, has_avx512f f),
      (AAL_SIMD_AVX2, has_avx2 f), (AAL_SIMD_AVX, has_avx f), (AAL_SIMD_SSE4_2, has_sse4_2 f),
      (AAL_SIMD_SSE4_1, has_sse4_1 f), (AAL_SIMD_SSSE3, has_ssse3 f), (AAL_SIMD_SSE3, has_sse3 f),
      (AAL_SIMD_SSE2, has_sse2 f), (AAL_SIMD_SSE, has_sse f)]"

definition level_is_highest :: "aal_simd_info_t \<Rightarrow> bool" where
  "level_is_highest f \<longleftrightarrow> simd_level f = highest (levels_set f)"

lemma highest_bound: "list_all (\<lambda>p. fst p \<le> n) table \<Longrightarrow> highest table \<le> n"
  by (induction table) (auto simp: highest_def)

lemma highest_Nil: "highest [] = AAL_SIMD_NONE"
  by (simp add: highest_def)

lemma highest_Cons:
  "list_all (\<lambda>p. fst p \<le> n) table \<Longrightarrow> highest ((n, b) # table) = (if b then n else highest table)"
  using highest_bound [of n table] by (auto simp: highest_def max_def)

lemma highest_levels:
  "highest (levels_set f) =
     (if has_rvv f then AAL_SIMD_RVV else if has_neon f then AAL_SIMD_NEON else simd_ladder f)"
  by (simp add: levels_set_def highest_Cons highest_Nil simd_ladder_def)

lemma cpuid_bit_iff: "cpuid_bit w n \<longleftrightarrow> bit w n"
  by (simp add: cpuid_bit_def and_one_eq bit_iff_odd_drop_bit mod_2_eq_odd)

lemma level_is_highest_update:
  "\<not> has_neon f \<Longrightarrow> \<not> has_rvv f \<Longrightarrow> level_is_highest (f\<lparr>simd_level := simd_ladder f\<rparr>)"
  by (simp add: level_is_highest_def highest_levels) (simp add: simd_ladder_def)

lemma leaf7_other_flags: "has_neon (leaf7_features e f) = has_neon f" "has_rvv (leaf7_features e f) = has_rvv f"
  by (simp_all add: leaf7_features_def split: prod.splits)

lemma zero_simd_highest: "level_is_highest zero_simd" "\<not> has_neon zero_simd" "\<not> has_rvv zero_simd"
  by (simp_all add: level_is_highest_def highest_levels simd_ladder_def zero_simd_def)

lemma x86_64_highest:
  "simd g = zero_simd \<Longrightarrow> level_is_highest (simd (aal_detect_cpu_x86_64 e g))"
  by (auto simp: aal_detect_cpu_x86_64_def Let_def zero_simd_highest leaf7_other_flags
      intro!: level_is_highest_update split: prod.splits option.splits)

lemma neon_rvv_highest:
  "level_is_highest (zero_simd\<lparr>simd_level := AAL_SIMD_NEON, has_neon := True\<rparr>)"
  "level_is_highest (zero_simd\<lparr>simd_level := AAL_SIMD_NEON, has_neon := True, has_neon_dotprod := True\<rparr>)"
  "level_is_highest (zero_simd\<lparr>simd_level := AAL_SIMD_RVV, has_rvv := True\<rparr>)"
  "level_is_highest (zero_simd\<lparr>simd_level := AAL_SIMD_NONE\<rparr>)"
  by (simp_all only: level_is_highest_def highest_levels simd_ladder_def zero_simd_def
      aal_simd_info_t.simps if_True if_False)

lemma other_cpus_highest:
  assumes "simd g = zero_simd"
  shows "level_is_highest (simd (aal_detect_cpu_arm64 e g))"
    and "level_is_highest (simd (aal_detect_cpu_arm32 e g))"
    and "level_is_highest (simd (aal_detect_cpu_riscv64 e g))"
    and "level_is_highest (simd (aal_detect_cpu_ppc64le g))"
    and "level_is_highest (simd (aal_detect_cpu_s390x g))"
    and "level_is_highest (simd (aal_detect_cpu_loongarch64 g))"
    and "level_is_highest (simd (aal_detect_cpu_default g))"
  by (simp_all add: assms aal_detect_cpu_arm64_def aal_detect_cpu_arm32_def aal_detect_cpu_riscv64_def
      aal_detect_cpu_ppc64le_def aal_detect_cpu_s390x_def aal_detect_cpu_loongarch64_def
      aal_detect_cpu_default_def Let_def zero_simd_highest neon_rvv_highest)

text \<open>C38: on every target the level of vector instructions is the highest one whose flag the
  detection has set, and none if it has set no flag.\<close>

theorem simd_level_is_highest:
  "simd_level (simd (aal_detect_cpu e g)) =
     highest (levels_set (simd (aal_detect_cpu e g)))"
proof -
  have "level_is_highest (simd (aal_detect_cpu e g))"
    by (simp add: aal_detect_cpu_def Let_def x86_64_highest other_cpus_highest)
  then show ?thesis by (simp only: level_is_highest_def)
qed

text \<open>On x86-64 the flags of leaf 7 are set from that leaf exactly when the number of leaf 1
  that identifies the processor is at least 7: whether the processor has a leaf 7 (\<open>m\<close>, the number
  of its last leaf) plays no role.\<close>

theorem leaf7_goes_by_signature:
  assumes "defined e ''__x86_64__''" and "1 \<le> m"
    and "cpuid_leaf e 1 = (sig, b1, c1, d1)" and "cpuid_leaf e 7 = (a7, b7, c7, d7)"
  shows "has_avx2 (simd (aal_detect_cpu (e\<lparr>cpuid0 := Some (m, b, c, d)\<rparr>) g)) \<longleftrightarrow> 7 \<le> sig \<and> bit b7 5"
proof -
  have "defined (e\<lparr>cpuid0 := Some (m, b, c, d)\<rparr>) ''__x86_64__''"
    using assms(1) by (simp add: defined_def)
  then show ?thesis
    using assms(2-4)
    by (simp add: aal_detect_cpu_def aal_detect_cpu_x86_64_def leaf7_features_def Let_def
        cpuid_bit_iff zero_simd_def)
qed

subsection \<open>Caches\<close>

lemma cache_line_unnumbered:
  assumes "c_strstr line ''cache size'' = None \<or>
    c_strstr line ''L1'' = None \<and> c_strstr line ''L2'' = None \<and> c_strstr line ''L3'' = None"
  shows "cache_line line c = c"
  using assms by (auto simp: cache_line_def Let_def split: option.splits)

text \<open>
  The kernel prints one line \<open>cache size : n KB\<close> per processor, without the name of a cache:
  then the sizes are the built-in ones.
\<close>

lemma cache_sizes_are_built_in:
  assumes "\<And>line. line \<in> set (lines_of e ''/proc/cpuinfo'' 512) \<Longrightarrow>
    c_strstr line ''cache size'' = None \<or>
    c_strstr line ''L1'' = None \<and> c_strstr line ''L2'' = None \<and> c_strstr line ''L3'' = None"
  shows "l1d_cache_size (cache (aal_detect_cache e g)) = 32768 \<and>
    l2_cache_size (cache (aal_detect_cache e g)) = 262144 \<and>
    l3_cache_size (cache (aal_detect_cache e g)) = 8388608"
proof -
  have "fold cache_line ls c = c" if "\<And>line. line \<in> set ls \<Longrightarrow> cache_line line c = c" for ls c
    using that by (induction ls) simp_all
  with cache_line_unnumbered [OF assms] show ?thesis
    by (simp add: aal_detect_cache_def)
qed

text \<open>A machine to evaluate the theorems on: one processor, one node of 256 kB.\<close>

definition example_env :: sys_env where
  "example_env = \<lparr>macros = [''__x86_64__''], cpuid0 = Some (5, 0, 0, 0), stale_eax = 0,
     cpuid_leaf = (\<lambda>l. if l = 1 then (0x306A9, 0, 0, 0) else (0, 0x20, 0, 0)), low_byte_first = True,
     sc_nprocessors_conf = 1, sc_nprocessors_onln = 1, sc_phys_pages = 64, sc_pagesize = 4096,
     readable = (\<lambda>p. p = ''/sys/bus/node/devices''),
     file_content = (\<lambda>p. if p = ''/sys/bus/node/devices/node1/meminfo''
       then Some ''Node 1 MemTotal: 256 kB'' else None),
     dir_entries = (\<lambda>p. Some [''node1''])\<rparr>"

theorem leaf7_goes_by_signature_witness:
  "has_avx2 (simd (aal_detect_cpu (example_env\<lparr>cpuid0 := Some (5, 0, 0, 0)\<rparr>) zero_info))"
  using leaf7_goes_by_signature [of example_env 5 "0x306A9" 0 0 0 0 "0x20" 0 0 0 0 0 zero_info]
  by (simp add: example_env_def defined_def bit_numeral_rec)

subsection \<open>Nodes\<close>

text \<open>
  A line of the kernel's \<open>meminfo\<close>: it prints the number, a blank and the first \<open>kB\<close> of the line.
\<close>

definition kernel_meminfo_line :: "string \<Rightarrow> bool" where
  "kernel_meminfo_line line \<longleftrightarrow>
     (case c_strstr line ''kB'' of
        None \<Rightarrow> True
      | Some kbp \<Rightarrow> length kbp < length line \<and> line ! (length line - length kbp - 1) = CHR '' '')"

lemma back_to_blank_stays:
  "0 < k \<Longrightarrow> line ! (k - 1) = CHR '' '' \<Longrightarrow> back_to_blank line k = k"
  by (cases k) simp_all

lemma meminfo_value_zero:
  assumes "kernel_meminfo_line line" and "c_strstr line ''kB'' = Some kbp"
  shows "meminfo_value line kbp = 0"
proof -
  let ?k = "length line - length kbp"
  have k: "0 < ?k" "line ! (?k - 1) = CHR '' ''"
    using assms by (simp_all add: kernel_meminfo_line_def)
  obtain post where post: "kbp = CHR ''k'' # CHR ''B'' # post"
    using c_strstr_self_suffix [OF assms(2)] by (auto simp: prefix_def)
  have "drop ?k line = kbp"
    using c_strstr_self_suffix [OF assms(2)] by (auto simp: suffix_def)
  then have "meminfo_value line kbp = c_atoi (dropWhile is_cdigit kbp)"
    by (simp only: meminfo_value_def back_to_blank_stays [OF k])
  also have "\<dots> = 0"
    by (simp add: post is_cdigit_def dropWhile_space_nondigit is_cspace_def)
  finally show ?thesis .
qed

lemma meminfo_line_zero:
  assumes "kernel_meminfo_line line" and "node_mem_size n = replicate m 0"
  shows "meminfo_line i line n = n"
proof -
  have same: "(replicate m (0 :: u64))[i := 0] = replicate m 0"
    by (cases "i < m") (simp_all add: list_eq_iff_nth_eq nth_list_update)
  show ?thesis
    using assms(2) meminfo_value_zero [OF assms(1)]
    by (cases n) (simp add: meminfo_line_def same split: option.splits)
qed

lemma fold_meminfo_zero:
  "list_all kernel_meminfo_line ls \<Longrightarrow> node_mem_size n = replicate m 0 \<Longrightarrow> fold (meminfo_line i) ls n = n"
  by (induction ls) (simp_all add: meminfo_line_zero)

lemma fold_node_entries_zero:
  assumes "\<And>path. list_all kernel_meminfo_line (lines_of e path 128)"
    and "node_mem_size n = replicate m 0"
  shows "fold (node_entry e) names n = n"
  using assms(2) by (induction names) (simp_all add: node_entry_def fold_meminfo_zero [OF assms(1)] Let_def)

lemma count_one_node:
  assumes "node_mem_size n = ram # replicate 15 0" and "node_count n = 1"
  shows "for_upto AAL_MAX_NUMA_NODES
      (\<lambda>i n. if 0 < node_mem_size n ! i then n\<lparr>node_count := of_nat (i + 1)\<rparr> else n) n = n"
proof (rule for_upto_invariant [where P = "\<lambda>_ t. t = n"])
  fix i t
  assume "i < AAL_MAX_NUMA_NODES" and t: "t = n"
  show "(if 0 < node_mem_size t ! i then t\<lparr>node_count := of_nat (i + 1)\<rparr> else t) = n"
  proof (cases i)
    case 0
    then show ?thesis using assms t by (cases n) simp
  next
    case (Suc j)
    then have "node_mem_size n ! i = 0" using \<open>i < _\<close> assms(1) by simp
    then show ?thesis using t by simp
  qed
qed simp

text \<open>Where the kernel prints a blank before \<open>kB\<close>, the number read from a node's memory
  file is always 0, so that the detection finds one node with all of the memory, whatever nodes
  the machine has.\<close>

theorem numa_detection_finds_one_node:
  assumes "\<And>path. list_all kernel_meminfo_line (lines_of e path 128)"
  shows "numa (aal_detect_numa e g) =
    (numa g)\<lparr>node_count := 1,
      distances := replicate AAL_MAX_NUMA_NODES (replicate AAL_MAX_NUMA_NODES 0),
      node_mem_size := total_ram_kb g * 1024 # replicate 15 0\<rparr>"
proof -
  have zeros: "(replicate AAL_MAX_NUMA_NODES (0 :: u64))[0 := r] = r # replicate 15 0" for r
    by (simp add: numeral_eq_Suc)
  show ?thesis
    by (simp add: aal_detect_numa_def Let_def zeros fold_node_entries_zero [OF assms] count_one_node
        split: option.split)
qed

theorem numa_detection_finds_one_node_witness:
  "node_mem_size (numa (aal_detect_numa example_env (zero_info\<lparr>total_ram_kb := 256\<rparr>))) ! 1 = 0"
proof -
  have "list_all kernel_meminfo_line (lines_of example_env path 128)" for path
    by (simp add: example_env_def lines_of_def numeral_eq_Suc cstr_def kernel_meminfo_line_def)
  from numa_detection_finds_one_node [OF this, of "zero_info\<lparr>total_ram_kb := 256\<rparr>"]
  show ?thesis by simp
qed

subsection \<open>Processors and start\<close>

lemma cpu_counts_frame:
  "cpu_count (aal_detect_cpu_count e g) = cpu_count (aal_detect_cpu_count e h)"
  "online_cpu_count (aal_detect_cpu_count e g) = online_cpu_count (aal_detect_cpu_count e h)"
  "thread_count (aal_detect_cpu_count e g) = thread_count (aal_detect_cpu_count e h)"
  by (simp_all add: aal_detect_cpu_count_def Let_def)

text \<open>After the start, on a machine with \<open>conf\<close> configured and \<open>onln\<close> online processors, the
  reported processors are between 1 and 256, no more of them online than there are, while the
  number of threads is \<open>onln\<close>, also where the other two were replaced by 1 because \<open>conf\<close> is too
  large.\<close>

theorem cpu_counts_after_init:
  assumes "0 < onln" and "onln \<le> conf" and "conf < 2 ^ 32"
  shows "let i = g_aal_info (aal_init (e\<lparr>sc_nprocessors_conf := int conf, sc_nprocessors_onln := int onln\<rparr>) aal_boot)
    in unat (cpu_count i) = (if conf \<le> AAL_MAX_CPUS then conf else 1) \<and>
       unat (online_cpu_count i) = (if conf \<le> AAL_MAX_CPUS then onln else 1) \<and>
       unat (thread_count i) = onln"
proof -
  have u: "unat (word_of_int (int n) :: u32) = n" if "n < 2 ^ 32" for n
    using that by (simp add: unat_of_nat)
  have z: "(word_of_int (int conf) :: u32) \<noteq> 0" using u [of conf] assms by auto
  have m: "(256 :: u32) < word_of_int (int conf) \<longleftrightarrow> 256 < conf"
    using u [of conf] assms by (simp add: word_less_nat_alt)
  show ?thesis
    using assms u [of conf] u [of onln] z m
    by (simp add: aal_init_def aal_boot_def aal_detect_all_def aal_detect_cpu_count_def Let_def)
qed

theorem cpu_counts_after_init_witness:
  "unat (thread_count (g_aal_info (aal_init
     (example_env\<lparr>sc_nprocessors_conf := int 512, sc_nprocessors_onln := int 300\<rparr>) aal_boot))) = 300"
  using cpu_counts_after_init [of 300 512 example_env] by (simp add: Let_def)

text \<open>A second start changes nothing, whatever the machine has become, and a start after a
  shutdown finds what a first start finds: nothing of an earlier detection is left.\<close>

theorem aal_init_once:
  "aal_init e' (aal_init e s) = aal_init e s \<and>
   aal_init e (aal_shutdown s) = aal_init e aal_boot \<and>
   aal_get_system_info e aal_boot = (g_aal_info (aal_init e aal_boot), aal_init e aal_boot)"
  by (cases s) (simp add: aal_init_def aal_shutdown_def aal_boot_def aal_get_system_info_def)

text \<open>The names of the architectures identify them.\<close>

lemma aal_get_arch_name_inj: "aal_get_arch_name a = aal_get_arch_name b \<longleftrightarrow> a = b"
  by (cases a; cases b; simp add: aal_get_arch_name_def aal_arch_names_def less_aal_arch_t_def)

text \<open>Byte order: the test word's first byte tells it.\<close>

lemma aal_is_little_endian_init: "aal_is_little_endian (aal_init e aal_boot) = low_byte_first e"
proof -
  have "le_bytes (0x01020304 :: u32) = [4, 3, 2, 1]"
    by code_simp
  then show ?thesis
    by (simp add: aal_is_little_endian_def aal_init_def aal_boot_def aal_detect_all_def Let_def aal_detect_endian_def
        first_byte_def aal_detect_cpu_count_def)
qed

end
