(* ===== verification/Ebpf_Prog.thy ===== *)
theory Ebpf_Prog
  imports Uroam_Prelude
begin

unbundle bit_operations_syntax

section \<open>The kernel-side eBPF programs: ebpf/uroam.bpf.c\<close>

text \<open>
  The six probes and the maps they write: the perf ring \<open>uroam_events\<close>, as the events handed to
  user space in order, and the one-entry array \<open>uroam_stats\<close>. What the BPF helpers return at a hit
  is the parameter \<open>bpf_ctx\<close>: process and thread id, time, command name, whether the ring takes
  the event, and the current address space's break. A program never waits and never fails, so a
  probe is a function of the maps.
\<close>

subsection \<open>Data\<close>

definition UROAM_ALLOC :: u32 where "UROAM_ALLOC = 1"
definition UROAM_FREE :: u32 where "UROAM_FREE = 2"

record alloc_event =
  timestamp :: u64
  pid :: u32
  tid :: u32
  type :: u32
  ev_size :: u64
  gfp_flags :: u64
  numa_node :: u32
  addr :: u64
  comm :: "u8 list"

definition zero_event :: alloc_event where
  "zero_event = \<lparr>timestamp = 0, pid = 0, tid = 0, type = 0, ev_size = 0, gfp_flags = 0,
     numa_node = 0, addr = 0, comm = replicate 16 0\<rparr>"

record bpf_ctx =
  pid_tgid :: u64
  ktime :: u64
  cur_comm :: "u8 list"
  ring_takes :: bool
  page_shift :: u32
  mm_brk :: "u64 option"

record bpf_maps =
  uroam_events :: "alloc_event list"
  uroam_stats :: "u64 list"

definition bpf_boot :: bpf_maps where
  "bpf_boot = \<lparr>uroam_events = [], uroam_stats = replicate 1 0\<rparr>"

text \<open>\<open>bpf_perf_event_output\<close>: an event the ring does not take is lost.\<close>

definition perf_event_output :: "bpf_ctx \<Rightarrow> alloc_event \<Rightarrow> bpf_maps \<Rightarrow> bpf_maps" where
  "perf_event_output c evt m = (if ring_takes c then m\<lparr>uroam_events := uroam_events m @ [evt]\<rparr> else m)"

text \<open>The fields every probe fills: time, process, event type and command name.\<close>

definition base_event :: "bpf_ctx \<Rightarrow> u32 \<Rightarrow> alloc_event" where
  "base_event c t = zero_event\<lparr>timestamp := ktime c, pid := ucast (drop_bit 32 (pid_tgid c)),
     type := t, comm := cur_comm c\<rparr>"

definition this_tid :: "bpf_ctx \<Rightarrow> u32" where
  "this_tid c = ucast (pid_tgid c)"

text \<open>A shift of a 64 bit register uses the low six bits of the count.\<close>

definition bpf_shl :: "u64 \<Rightarrow> u32 \<Rightarrow> u64" where
  "bpf_shl v n = push_bit (unat n mod 64) v"

subsection \<open>The probes\<close>

definition uroam_alloc_pages :: "bpf_ctx \<Rightarrow> u32 \<Rightarrow> u32 \<Rightarrow> bpf_maps \<Rightarrow> bpf_maps" where
  "uroam_alloc_pages c gfp_mask order m =
     (let sz = bpf_shl 1 (order + page_shift c);
          evt = (base_event c UROAM_ALLOC)\<lparr>tid := this_tid c, ev_size := sz,
                  gfp_flags := ucast gfp_mask, numa_node := 0\<rparr>;
          m1 = perf_event_output c evt m
      in if 0 < length (uroam_stats m1)
         then m1\<lparr>uroam_stats := (uroam_stats m1)[0 := uroam_stats m1 ! 0 + sz]\<rparr>
         else m1)"

definition uroam_free_pages :: "bpf_ctx \<Rightarrow> u32 \<Rightarrow> bpf_maps \<Rightarrow> bpf_maps" where
  "uroam_free_pages c order m =
     perf_event_output c
       ((base_event c UROAM_FREE)\<lparr>tid := this_tid c, ev_size := bpf_shl 1 (order + 12)\<rparr>) m"

definition uroam_cache_alloc_ret :: "bpf_ctx \<Rightarrow> u64 \<Rightarrow> bpf_maps \<Rightarrow> bpf_maps" where
  "uroam_cache_alloc_ret c ptr m =
     perf_event_output c ((base_event c UROAM_ALLOC)\<lparr>tid := this_tid c, ev_size := 0, addr := ptr\<rparr>) m"

definition uroam_cache_free :: "bpf_ctx \<Rightarrow> u32 \<Rightarrow> bpf_maps \<Rightarrow> bpf_maps" where
  "uroam_cache_free c object_size m =
     perf_event_output c ((base_event c UROAM_FREE)\<lparr>tid := this_tid c, ev_size := ucast object_size\<rparr>) m"

definition uroam_sys_mmap :: "bpf_ctx \<Rightarrow> u64 \<Rightarrow> bpf_maps \<Rightarrow> bpf_maps" where
  "uroam_sys_mmap c len m = perf_event_output c ((base_event c UROAM_ALLOC)\<lparr>ev_size := len\<rparr>) m"

definition uroam_sys_brk :: "bpf_ctx \<Rightarrow> u64 \<Rightarrow> bpf_maps \<Rightarrow> bpf_maps" where
  "uroam_sys_brk c brk m =
     (case mm_brk c of
        None \<Rightarrow> m
      | Some old_brk \<Rightarrow>
          let delta = (if old_brk < brk then brk - old_brk else old_brk - brk)
          in perf_event_output c ((base_event c UROAM_ALLOC)\<lparr>ev_size := delta\<rparr>) m)"

datatype bpf_hit =
    Alloc_pages bpf_ctx u32 u32
  | Free_pages bpf_ctx u32
  | Cache_alloc_ret bpf_ctx u64
  | Cache_free bpf_ctx u32
  | Sys_mmap bpf_ctx u64
  | Sys_brk bpf_ctx u64

fun run_probe :: "bpf_hit \<Rightarrow> bpf_maps \<Rightarrow> bpf_maps" where
  "run_probe (Alloc_pages c g order) = uroam_alloc_pages c g order"
| "run_probe (Free_pages c order) = uroam_free_pages c order"
| "run_probe (Cache_alloc_ret c ptr) = uroam_cache_alloc_ret c ptr"
| "run_probe (Cache_free c sz) = uroam_cache_free c sz"
| "run_probe (Sys_mmap c len) = uroam_sys_mmap c len"
| "run_probe (Sys_brk c brk) = uroam_sys_brk c brk"

lemmas probe_defs =
  uroam_alloc_pages_def uroam_free_pages_def uroam_cache_alloc_ret_def uroam_cache_free_def
  uroam_sys_mmap_def uroam_sys_brk_def perf_event_output_def

subsection \<open>What the events say\<close>

text \<open>
  What a hit reports, and whether it reports at all. Only the first four probes tell the thread,
  only the first one the flags of the request, only the third one an address; none tells a node.
  A moving break is an allocation of the distance, whichever way it moves.
\<close>

fun hit_ctx :: "bpf_hit \<Rightarrow> bpf_ctx" where
  "hit_ctx (Alloc_pages c g order) = c"
| "hit_ctx (Free_pages c order) = c"
| "hit_ctx (Cache_alloc_ret c ptr) = c"
| "hit_ctx (Cache_free c sz) = c"
| "hit_ctx (Sys_mmap c len) = c"
| "hit_ctx (Sys_brk c brk) = c"

fun hit_type :: "bpf_hit \<Rightarrow> u32" where
  "hit_type (Free_pages c order) = UROAM_FREE"
| "hit_type (Cache_free c sz) = UROAM_FREE"
| "hit_type h = UROAM_ALLOC"

fun hit_size :: "bpf_hit \<Rightarrow> u64" where
  "hit_size (Alloc_pages c g order) = bpf_shl 1 (order + page_shift c)"
| "hit_size (Free_pages c order) = bpf_shl 1 (order + 12)"
| "hit_size (Cache_alloc_ret c ptr) = 0"
| "hit_size (Cache_free c sz) = ucast sz"
| "hit_size (Sys_mmap c len) = len"
| "hit_size (Sys_brk c brk) = (case mm_brk c of None \<Rightarrow> 0 | Some old \<Rightarrow> max brk old - min brk old)"

fun hit_tid :: "bpf_hit \<Rightarrow> u32" where
  "hit_tid (Sys_mmap c len) = 0"
| "hit_tid (Sys_brk c brk) = 0"
| "hit_tid h = this_tid (hit_ctx h)"

fun hit_gfp :: "bpf_hit \<Rightarrow> u64" where
  "hit_gfp (Alloc_pages c g order) = ucast g"
| "hit_gfp h = 0"

fun hit_addr :: "bpf_hit \<Rightarrow> u64" where
  "hit_addr (Cache_alloc_ret c ptr) = ptr"
| "hit_addr h = 0"

fun reports :: "bpf_hit \<Rightarrow> bool" where
  "reports (Sys_brk c brk) = (ring_takes c \<and> mm_brk c \<noteq> None)"
| "reports h = ring_takes (hit_ctx h)"

fun counted :: "bpf_hit \<Rightarrow> u64" where
  "counted (Alloc_pages c g order) = bpf_shl 1 (order + page_shift c)"
| "counted h = 0"

definition hit_event :: "bpf_hit \<Rightarrow> alloc_event" where
  "hit_event h = \<lparr>timestamp = ktime (hit_ctx h), pid = ucast (drop_bit 32 (pid_tgid (hit_ctx h))),
     tid = hit_tid h, type = hit_type h, ev_size = hit_size h, gfp_flags = hit_gfp h, numa_node = 0,
     addr = hit_addr h, comm = cur_comm (hit_ctx h)\<rparr>"

lemma max_min_diff: "(if (old :: u64) < brk then brk - old else old - brk) = max brk old - min brk old"
  by (auto simp: max_def min_def)

lemma probe_events:
  "uroam_events (run_probe h m) = uroam_events m @ (if reports h then [hit_event h] else [])"
  by (cases h)
     (auto simp: probe_defs hit_event_def base_event_def zero_event_def Let_def max_min_diff
        split: option.splits)

lemma probe_stats:
  "uroam_stats (run_probe h m) =
     (if uroam_stats m = [] then [] else (hd (uroam_stats m) + counted h) # tl (uroam_stats m))"
  by (cases h; cases "uroam_stats m") (auto simp: probe_defs Let_def split: option.splits)

lemma probes_events:
  "uroam_events (fold run_probe hs m) = uroam_events m @ map hit_event (filter reports hs)"
  by (induction hs arbitrary: m) (simp_all add: probe_events)

lemma probes_stats:
  "uroam_stats m = [v] \<Longrightarrow> uroam_stats (fold run_probe hs m) = [v + sum_list (map counted hs)]"
  by (induction hs arbitrary: m v) (simp_all add: probe_stats ac_simps)

text \<open>After any run of probe hits the ring holds, in order, one event for every hit whose event it
  took, with the fields of \<open>hit_event\<close>, and the statistics cell is the sum of the page
  allocations, frees not subtracted.\<close>

theorem bpf_probes_report:
  "uroam_events (fold run_probe hs bpf_boot) = map hit_event (filter reports hs) \<and>
   uroam_stats (fold run_probe hs bpf_boot) = [sum_list (map counted hs)]"
  using probes_events [of hs bpf_boot] probes_stats [of bpf_boot 0 hs] by (simp add: bpf_boot_def)

text \<open>A break that moves down frees memory; it is reported as an allocation of what it frees.\<close>

theorem shrinking_break_is_an_allocation:
  assumes "ring_takes c" and "mm_brk c = Some old" and "brk < old"
  shows "map (\<lambda>e. (type e, ev_size e)) (uroam_events (run_probe (Sys_brk c brk) bpf_boot)) =
    [(UROAM_ALLOC, old - brk)]"
  unfolding probe_events using assms less_imp_le [OF assms(3)]
  by (simp add: bpf_boot_def hit_event_def max_def min_def)

theorem shrinking_break_is_an_allocation_witness:
  "map (\<lambda>e. (type e, ev_size e)) (uroam_events (run_probe (Sys_brk \<lparr>pid_tgid = 0, ktime = 5000000,
     cur_comm = replicate 16 0, ring_takes = True, page_shift = 12, mm_brk = Some 8192\<rparr> 4096) bpf_boot)) =
   [(UROAM_ALLOC, 4096)]"
  by (subst shrinking_break_is_an_allocation [of _ 8192]) simp_all

subsection \<open>The bytes of an event\<close>

text \<open>
  The structure as the compiler lays it out, with two runs of padding that no field names; and
  as the loader reads it through the same declaration.
\<close>

definition event_bytes :: "u8 list \<Rightarrow> u8 list \<Rightarrow> alloc_event \<Rightarrow> u8 list" where
  "event_bytes pad1 pad2 e =
     le_bytes (timestamp e) @ le_bytes (pid e) @ le_bytes (tid e) @ le_bytes (type e) @ pad1 @
     le_bytes (ev_size e) @ le_bytes (gfp_flags e) @ le_bytes (numa_node e) @ pad2 @
     le_bytes (addr e) @ comm e"

definition bytes_at :: "nat \<Rightarrow> nat \<Rightarrow> u8 list \<Rightarrow> u8 list" where
  "bytes_at off n bs = take n (drop off bs)"

definition read_event :: "u8 list \<Rightarrow> alloc_event" where
  "read_event bs = \<lparr>timestamp = of_le_bytes (bytes_at 0 8 bs), pid = of_le_bytes (bytes_at 8 4 bs),
     tid = of_le_bytes (bytes_at 12 4 bs), type = of_le_bytes (bytes_at 16 4 bs),
     ev_size = of_le_bytes (bytes_at 24 8 bs), gfp_flags = of_le_bytes (bytes_at 32 8 bs),
     numa_node = of_le_bytes (bytes_at 40 4 bs), addr = of_le_bytes (bytes_at 48 8 bs),
     comm = bytes_at 56 16 bs\<rparr>"

lemma length_event_bytes:
  "length (event_bytes pad1 pad2 e) = 48 + length pad1 + length pad2 + length (comm e)"
  by (simp add: event_bytes_def)

lemma read_event_bytes:
  assumes "length pad1 = 4" and "length pad2 = 4" and "length (comm e) = 16"
  shows "read_event (event_bytes pad1 pad2 e @ rest) = e"
  using assms by (simp add: read_event_def event_bytes_def bytes_at_def)

end
