(* ===== verification/Ebpf_Loader.thy ===== *)
theory Ebpf_Loader
  imports Ebpf_Prog
begin

section \<open>The user-space loader: ebpf/ebpf_loader.c\<close>

text \<open>
  Loading, attaching and closing the BPF object, the statistics call, the callback for events and
  the configuration. libbpf is the parameter \<open>libbpf_env\<close>: what opening, loading, attaching and
  finding a map return. The answers can differ from call to call of the loader. The state records which objects libbpf holds open and which links it has
  handed out; a handle is a number, the null pointer \<open>None\<close>.
\<close>

subsection \<open>State\<close>

record ebpf_context_t =
  obj :: "nat option"
  map_fd :: int
  prog_fd :: int
  perf_fd :: int
  ctx_running :: bool

definition zero_ctx :: ebpf_context_t where
  "zero_ctx = \<lparr>obj = None, map_fd = 0, prog_fd = 0, perf_fd = 0, ctx_running = False\<rparr>"

record ebpf_config_t =
  obj_path :: "char list"
  verbose :: bool
  polling :: bool
  sample_rate :: int

record loader_state =
  g_ebpf_ctx :: ebpf_context_t
  g_ebpf_running :: bool
  g_config :: ebpf_config_t
  open_objects :: "nat list"
  next_object :: nat
  links_held :: nat

definition OBJ_PATH_SIZE :: nat where "OBJ_PATH_SIZE = 256"

definition default_path :: string where "default_path = ''./uroam.bpf.o''"

definition loader_boot :: loader_state where
  "loader_boot = \<lparr>g_ebpf_ctx = zero_ctx, g_ebpf_running = False,
     g_config = \<lparr>obj_path = default_path @ replicate (OBJ_PATH_SIZE - length default_path) NUL,
       verbose = False, polling = False, sample_rate = 1\<rparr>,
     open_objects = [], next_object = 0, links_held = 0\<rparr>"

text \<open>
  \<open>attach_result\<close> is the link, a pointer, that \<open>bpf_program__attach\<close> returns for a program (0 where it
  fails); \<open>prog_fds\<close> the descriptors of the object's programs in their order; \<open>find_map_fd\<close> the
  descriptor of the map of that name, negative if there is none.
\<close>

record libbpf_env =
  open_ok :: "string \<Rightarrow> bool"
  load_ok :: "string \<Rightarrow> bool"
  prog_fds :: "int list"
  attach_result :: "nat \<Rightarrow> u64"
  find_map_fd :: "string \<Rightarrow> int"

definition bpf_object_open :: "libbpf_env \<Rightarrow> string \<Rightarrow> loader_state \<Rightarrow> nat option \<times> loader_state" where
  "bpf_object_open b path s =
     (if open_ok b path
      then (Some (next_object s), s\<lparr>open_objects := next_object s # open_objects s,
                                    next_object := next_object s + 1\<rparr>)
      else (None, s))"

definition bpf_object_close :: "nat \<Rightarrow> loader_state \<Rightarrow> loader_state" where
  "bpf_object_close h s = s\<lparr>open_objects := remove1 h (open_objects s)\<rparr>"

subsection \<open>Operations\<close>

text \<open>The loop over the programs: the descriptor of the first program that has a positive one,
  else of the last.\<close>

fun first_prog_fd :: "int list \<Rightarrow> int \<Rightarrow> int" where
  "first_prog_fd [] fd = fd"
| "first_prog_fd (p # ps) fd = (if 0 < p then p else first_prog_fd ps p)"

definition ebpf_load_object :: "libbpf_env \<Rightarrow> string \<Rightarrow> loader_state \<Rightarrow> int \<times> loader_state" where
  "ebpf_load_object b path s =
     (case bpf_object_open b path s of (h, s1) \<Rightarrow>
        let s2 = s1\<lparr>g_ebpf_ctx := (g_ebpf_ctx s1)\<lparr>obj := h\<rparr>\<rparr>
        in case h of
          None \<Rightarrow> (- 1, s2)
        | Some o' \<Rightarrow>
            if \<not> load_ok b path then
              let s3 = bpf_object_close o' s2
              in (- 1, s3\<lparr>g_ebpf_ctx := (g_ebpf_ctx s3)\<lparr>obj := None\<rparr>\<rparr>)
            else
              let c = (g_ebpf_ctx s2)\<lparr>prog_fd := first_prog_fd (prog_fds b) (prog_fd (g_ebpf_ctx s2))\<rparr>;
                  fd = find_map_fd b ''uroam_events'';
                  fd' = (if fd < 0 then find_map_fd b ''uroam_stats'' else fd)
              in (0, s2\<lparr>g_ebpf_ctx := c\<lparr>map_fd := fd'\<rparr>\<rparr>))"

definition ebpf_init :: "libbpf_env \<Rightarrow> string option \<Rightarrow> loader_state \<Rightarrow> int \<times> loader_state" where
  "ebpf_init b path s =
     (let s1 = s\<lparr>g_ebpf_ctx := zero_ctx\<rparr>;
          p = (case path of None \<Rightarrow> default_path | Some p \<Rightarrow> p)
      in case ebpf_load_object b p s1 of (r, s2) \<Rightarrow> (if r \<noteq> 0 then (- 1, s2) else (0, s2)))"

text \<open>
  The pointer is stored in an \<open>int\<close>: its low 32 bits as a signed number. It is only looked at for the
  message; the link stays with libbpf.
\<close>

definition attach_failed :: "u64 \<Rightarrow> bool" where
  "attach_failed p \<longleftrightarrow> sint (ucast p :: 32 word) < 0"

definition ebpf_attach :: "libbpf_env \<Rightarrow> loader_state \<Rightarrow> int \<times> loader_state" where
  "ebpf_attach b s =
     (case obj (g_ebpf_ctx s) of
        None \<Rightarrow> (- 1, s)
      | Some h \<Rightarrow>
          let s1 = for_upto (length (prog_fds b))
                     (\<lambda>i t. if attach_result b i \<noteq> 0 then t\<lparr>links_held := links_held t + 1\<rparr> else t) s
          in (0, s1\<lparr>g_ebpf_running := True\<rparr>))"

text \<open>What \<open>ebpf_attach\<close> complains about: the programs whose result it takes for an error.\<close>

definition attach_complaints :: "libbpf_env \<Rightarrow> nat list" where
  "attach_complaints b = filter (\<lambda>i. attach_failed (attach_result b i)) [0..<length (prog_fds b)]"

lemma attach_overlooks_failures:
  "obj (g_ebpf_ctx s) \<noteq> None \<Longrightarrow> attach_result b i = 0 \<Longrightarrow>
     fst (ebpf_attach b s) = 0 \<and> i \<notin> set (attach_complaints b)"
  by (auto simp: ebpf_attach_def attach_complaints_def attach_failed_def)

definition ebpf_start_monitoring :: "loader_state \<Rightarrow> int \<times> loader_state" where
  "ebpf_start_monitoring s =
     (if obj (g_ebpf_ctx s) = None then (- 1, s) else (0, s\<lparr>g_ebpf_running := True\<rparr>))"

definition ebpf_stop_monitoring :: "loader_state \<Rightarrow> loader_state" where
  "ebpf_stop_monitoring s = s\<lparr>g_ebpf_running := False\<rparr>"

definition ebpf_shutdown :: "loader_state \<Rightarrow> loader_state" where
  "ebpf_shutdown s =
     (let s1 = ebpf_stop_monitoring s;
          s2 = (case obj (g_ebpf_ctx s1) of None \<Rightarrow> s1 | Some h \<Rightarrow> bpf_object_close h s1)
      in s2\<lparr>g_ebpf_ctx := zero_ctx\<rparr>)"

text \<open>
  The two pointer arguments as optional cells; \<open>lookup\<close> is the statistics map as libbpf reads it: an
  error code or the value.
\<close>

definition ebpf_get_stats ::
  "libbpf_env \<Rightarrow> (nat \<Rightarrow> int + u64) \<Rightarrow> loader_state \<Rightarrow> u64 option \<Rightarrow> u64 option \<Rightarrow>
     int \<times> u64 option \<times> u64 option" where
  "ebpf_get_stats b lookup s total_alloc total_free =
     (if obj (g_ebpf_ctx s) = None then (- 1, total_alloc, total_free)
      else if find_map_fd b ''uroam_stats'' < 0 then (- 1, total_alloc, total_free)
      else case lookup 0 of
        Inl err \<Rightarrow> (err, total_alloc, total_free)
      | Inr v \<Rightarrow> (0, map_option (\<lambda>_. v) total_alloc, total_free))"

definition ebpf_set_filter_pid :: "int \<Rightarrow> loader_state \<Rightarrow> int" where
  "ebpf_set_filter_pid n s = (if obj (g_ebpf_ctx s) = None then - 1 else 0)"

definition ebpf_set_config :: "string \<Rightarrow> string \<Rightarrow> loader_state \<Rightarrow> int \<times> loader_state" where
  "ebpf_set_config key v s =
     (let c = g_config s;
          flag = (v = ''1'' \<or> v = ''true'');
          c' = (if key = ''obj_path'' then c\<lparr>obj_path := c_strncpy (obj_path c) v (OBJ_PATH_SIZE - 1)\<rparr>
                else if key = ''verbose'' then c\<lparr>verbose := flag\<rparr>
                else if key = ''polling'' then c\<lparr>polling := flag\<rparr>
                else if key = ''sample_rate'' then c\<lparr>sample_rate := c_atoi v\<rparr>
                else c)
      in (0, s\<lparr>g_config := c'\<rparr>))"

text \<open>The argument is the caller's structure, \<open>None\<close> a null pointer.\<close>

definition ebpf_get_config :: "ebpf_config_t option \<Rightarrow> loader_state \<Rightarrow> ebpf_config_t option" where
  "ebpf_get_config config s = (case config of None \<Rightarrow> None | Some c \<Rightarrow> Some (g_config s))"

text \<open>
  The callback for the events of the ring: the bytes it is handed, and what it prints, as the
  arguments of \<open>printf\<close>. The command name, the last field, is printed up to its null byte; behind a
  name without one the program would read on.
\<close>

definition perf_event_read_cb :: "u8 list \<Rightarrow> int \<times> (u64 \<times> string \<times> u32 \<times> u32 \<times> u64 \<times> u64 \<times> u8 list) option" where
  "perf_event_read_cb data =
     (if length data < 72 then (- 1, None)
      else
        let evt = read_event data
        in (0, Some (timestamp evt div 1000000, if type evt = UROAM_ALLOC then ''ALLOC'' else ''FREE'',
                     pid evt, tid evt, ev_size evt div 1024, gfp_flags evt,
                     takeWhile (\<lambda>b. b \<noteq> 0) (drop 56 data))))"

subsection \<open>Events reach the callback\<close>

text \<open>What the callback prints of the bytes of an event, with anything behind them and
  anything in the padding, are the fields the probe wrote; it refuses fewer bytes.\<close>

theorem event_reaches_callback:
  assumes "length pad1 = 4" and "length pad2 = 4" and "length (comm e) = 16" and "0 \<in> set (comm e)"
  shows "perf_event_read_cb (event_bytes pad1 pad2 e @ rest) =
    (0, Some (timestamp e div 1000000, if type e = UROAM_ALLOC then ''ALLOC'' else ''FREE'',
              pid e, tid e, ev_size e div 1024, gfp_flags e, takeWhile (\<lambda>b. b \<noteq> 0) (comm e)))"
proof -
  have "drop 56 (event_bytes pad1 pad2 e @ rest) = comm e @ rest"
    using assms(1,2) by (simp add: event_bytes_def)
  moreover have "takeWhile (\<lambda>b. b \<noteq> 0) (comm e @ rest) = takeWhile (\<lambda>b. b \<noteq> 0) (comm e)"
    using assms(4) by (intro takeWhile_append1) auto
  ultimately show ?thesis
    using assms by (simp add: perf_event_read_cb_def length_event_bytes read_event_bytes)
qed

theorem event_reaches_callback_witness:
  "fst (perf_event_read_cb (event_bytes [1, 2, 3, 4] [5, 6, 7, 8] zero_event @ [9])) = 0"
  using event_reaches_callback [of "[1, 2, 3, 4]" "[5, 6, 7, 8]" zero_event "[9]"]
  by (simp add: zero_event_def)

subsection \<open>Sequences of calls\<close>

datatype loader_op =
    Init "string option" | Attach | Start | Stop | Shutdown | Set_config string string

text \<open>Every call comes with what libbpf answers during it.\<close>

type_synonym loader_call = "libbpf_env \<times> loader_op"

fun perform_op :: "loader_state \<Rightarrow> loader_call \<Rightarrow> loader_state" where
  "perform_op s (b, Init path) = snd (ebpf_init b path s)"
| "perform_op s (b, Attach) = snd (ebpf_attach b s)"
| "perform_op s (b, Start) = snd (ebpf_start_monitoring s)"
| "perform_op s (b, Stop) = ebpf_stop_monitoring s"
| "perform_op s (b, Shutdown) = ebpf_shutdown s"
| "perform_op s (b, Set_config k v) = snd (ebpf_set_config k v s)"

lemmas loader_defs =
  ebpf_attach_def ebpf_start_monitoring_def ebpf_stop_monitoring_def ebpf_shutdown_def
  ebpf_set_config_def ebpf_init_def ebpf_load_object_def bpf_object_open_def bpf_object_close_def

text \<open>The loop of \<open>ebpf_attach\<close> takes a link for every program that can be attached.\<close>

lemma attach_loop:
  "for_upto n (\<lambda>i t. if attach_result b i \<noteq> 0 then t\<lparr>links_held := links_held t + 1\<rparr> else t) s =
     s\<lparr>links_held := links_held s + length (filter (\<lambda>i. attach_result b i \<noteq> 0) [0..<n])\<rparr>"
  by (induction n) (simp_all add: for_upto_Suc)

text \<open>
  The invariant: the handles are numbered upwards, the current object is open, the path's buffer
  keeps its size and its last character.
\<close>

definition objects_ok :: "loader_state \<Rightarrow> bool" where
  "objects_ok s \<longleftrightarrow>
     distinct (open_objects s) \<and> list_all (\<lambda>h. h < next_object s) (open_objects s) \<and>
     set_option (obj (g_ebpf_ctx s)) \<subseteq> set (open_objects s)"

definition path_ok :: "char list \<Rightarrow> bool" where
  "path_ok p \<longleftrightarrow> length p = OBJ_PATH_SIZE \<and> drop (OBJ_PATH_SIZE - 1) p = [NUL]"

definition loader_ok :: "loader_state \<Rightarrow> bool" where
  "loader_ok s \<longleftrightarrow> objects_ok s \<and> path_ok (obj_path (g_config s))"

lemma list_all_less_Suc: "list_all (\<lambda>h. h < (n :: nat)) hs \<Longrightarrow> list_all (\<lambda>h. h < Suc n) hs"
  by (auto simp: list_all_iff)

lemma init_ok: "loader_ok s \<Longrightarrow> loader_ok (snd (ebpf_init b path s))"
  by (cases "open_ok b (case path of None \<Rightarrow> default_path | Some p \<Rightarrow> p)";
      cases "load_ok b (case path of None \<Rightarrow> default_path | Some p \<Rightarrow> p)")
     (auto simp: loader_ok_def objects_ok_def ebpf_init_def ebpf_load_object_def bpf_object_open_def
        bpf_object_close_def Let_def zero_ctx_def list_all_iff)

lemma shutdown_ok: "loader_ok s \<Longrightarrow> loader_ok (ebpf_shutdown s)"
  by (cases "obj (g_ebpf_ctx s)")
     (auto simp: loader_ok_def objects_ok_def ebpf_shutdown_def ebpf_stop_monitoring_def
        bpf_object_close_def Let_def zero_ctx_def list_all_iff dest: notin_set_remove1)

lemma attach_ok: "loader_ok s \<Longrightarrow> loader_ok (snd (ebpf_attach b s))"
  by (cases "obj (g_ebpf_ctx s)")
     (simp_all add: loader_ok_def objects_ok_def ebpf_attach_def attach_loop)

lemma strncpy_path_ok: "path_ok dst \<Longrightarrow> path_ok (c_strncpy dst src (OBJ_PATH_SIZE - 1))"
  by (simp add: path_ok_def c_strncpy_def OBJ_PATH_SIZE_def)

lemma set_config_ok: "loader_ok s \<Longrightarrow> loader_ok (snd (ebpf_set_config k v s))"
  using strncpy_path_ok [of "obj_path (g_config s)" v]
  by (simp add: loader_ok_def objects_ok_def ebpf_set_config_def Let_def)

lemma boot_ok: "loader_ok loader_boot"
  by (simp add: loader_ok_def objects_ok_def path_ok_def loader_boot_def zero_ctx_def default_path_def
      OBJ_PATH_SIZE_def)

lemma perform_ok: "loader_ok s \<Longrightarrow> loader_ok (perform_op s x)"
  by (cases "(s, x)" rule: perform_op.cases)
     (simp_all add: init_ok attach_ok shutdown_ok set_config_ok,
      simp_all add: loader_ok_def objects_ok_def ebpf_start_monitoring_def ebpf_stop_monitoring_def)

lemma perform_links: "links_held s \<le> links_held (perform_op s x)"
  by (cases "(s, x)" rule: perform_op.cases)
     (auto simp: loader_defs attach_loop Let_def split: option.splits)

interpretation loader: monotone_machine perform_op loader_ok links_held
  by unfold_locales (rule perform_ok, assumption, rule perform_links)

text \<open>The calls that drop a loaded object without closing it.\<close>

fun forgets :: "loader_op \<Rightarrow> loader_state \<Rightarrow> bool" where
  "forgets (Init path) s = (obj (g_ebpf_ctx s) \<noteq> None)"
| "forgets x s = False"

fun forgotten :: "loader_call list \<Rightarrow> loader_state \<Rightarrow> nat" where
  "forgotten [] s = 0"
| "forgotten (x # xs) s = (if forgets (snd x) s then 1 else 0) + forgotten xs (perform_op s x)"

definition loaded :: "loader_state \<Rightarrow> nat" where
  "loaded s = (if obj (g_ebpf_ctx s) = None then 0 else 1)"

lemma init_account:
  "length (open_objects (snd (ebpf_init b path s))) = length (open_objects s) + loaded (snd (ebpf_init b path s))"
  by (cases "open_ok b (case path of None \<Rightarrow> default_path | Some p \<Rightarrow> p)";
      cases "load_ok b (case path of None \<Rightarrow> default_path | Some p \<Rightarrow> p)")
     (simp_all add: loaded_def ebpf_init_def ebpf_load_object_def bpf_object_open_def
        bpf_object_close_def Let_def zero_ctx_def)

lemma shutdown_account:
  "loader_ok s \<Longrightarrow> length (open_objects (ebpf_shutdown s)) + loaded s = length (open_objects s)"
  by (cases "obj (g_ebpf_ctx s)")
     (auto simp: loader_ok_def objects_ok_def loaded_def ebpf_shutdown_def ebpf_stop_monitoring_def
        bpf_object_close_def Let_def length_remove1 dest: length_pos_if_in_set)

lemma shutdown_unloads: "loaded (ebpf_shutdown s) = 0"
  by (simp add: loaded_def ebpf_shutdown_def Let_def zero_ctx_def)

lemma attach_account:
  "open_objects (snd (ebpf_attach b s)) = open_objects s \<and> loaded (snd (ebpf_attach b s)) = loaded s"
  by (cases "obj (g_ebpf_ctx s)") (simp_all add: loaded_def ebpf_attach_def attach_loop)

lemma perform_account:
  "loader_ok s \<Longrightarrow>
     length (open_objects (perform_op s x)) + loaded s =
       length (open_objects s) + loaded (perform_op s x) + (if forgets (snd x) s then 1 else 0)"
proof (cases "(s, x)" rule: perform_op.cases)
  case (1 t b path)
  then show ?thesis by (simp add: init_account loaded_def [of t])
qed (simp_all add: shutdown_account shutdown_unloads attach_account,
     simp_all add: loaded_def ebpf_start_monitoring_def ebpf_stop_monitoring_def ebpf_set_config_def Let_def)

lemma run_account:
  "loader_ok s \<Longrightarrow>
     length (open_objects (foldl perform_op s xs)) + loaded s =
       length (open_objects s) + loaded (foldl perform_op s xs) + forgotten xs s"
proof (induction xs arbitrary: s)
  case Nil
  then show ?case by simp
next
  case (Cons x xs)
  from Cons.IH [OF perform_ok [OF Cons.prems, of x]] perform_account [OF Cons.prems, of x]
  show ?case by (simp split: if_splits)
qed

text \<open>C40: after any sequence of calls, with whatever answers of libbpf to each, libbpf holds open the loaded object, if any, and one object
  more for every initialisation that found one loaded and dropped it; no call gives a link back.\<close>

theorem loader_objects_account:
  "length (open_objects (foldl perform_op loader_boot xs)) =
     loaded (foldl perform_op loader_boot xs) + forgotten xs loader_boot \<and>
   links_held (foldl perform_op loader_boot xs)
     \<le> links_held (perform_op (foldl perform_op loader_boot xs) y)"
  using run_account [OF boot_ok, of xs]
  by (simp add: perform_links loader_boot_def loaded_def zero_ctx_def)

subsection \<open>The configuration\<close>

text \<open>Whatever calls came before, setting the path keeps it terminated: what is read back is
  the path given, cut to 255 characters.\<close>

theorem config_path_readback:
  assumes "NUL \<notin> set path" and "s = foldl perform_op loader_boot xs"
  shows "map_option (\<lambda>c. cstr (obj_path c))
      (ebpf_get_config (Some config) (snd (ebpf_set_config ''obj_path'' path s))) = Some (take 255 path)"
proof -
  have "loader_ok s" unfolding assms(2) by (rule loader.inv_run) (rule boot_ok)
  then have "drop 255 (obj_path (g_config s)) = [NUL]"
    by (simp add: loader_ok_def path_ok_def OBJ_PATH_SIZE_def)
  moreover have "takeWhile (\<lambda>c. c \<noteq> NUL) (take 255 (path @ replicate (255 - length path) NUL) @ [NUL]) = take 255 path"
  proof (cases "length path < 255")
    case True
    then obtain k where "255 - length path = Suc k" by (metis Suc_diff_Suc)
    with True assms(1) show ?thesis by (simp add: takeWhile_all)
  next
    case False
    moreover have "NUL \<notin> set (take 255 path)" using assms(1) by (auto dest: in_set_takeD)
    ultimately show ?thesis using takeWhile_all [of "take 255 path" "[]"] by simp
  qed
  ultimately show ?thesis
    by (simp add: ebpf_get_config_def ebpf_set_config_def c_strncpy_def OBJ_PATH_SIZE_def cstr_def)
qed

theorem config_path_readback_witness:
  "map_option (\<lambda>c. cstr (obj_path c)) (ebpf_get_config (Some (g_config loader_boot))
     (snd (ebpf_set_config ''obj_path'' ''/opt/u.o'' loader_boot))) = Some ''/opt/u.o''"
  using config_path_readback [of "''/opt/u.o''" loader_boot "[]" "g_config loader_boot"] by simp

end
