(* ===== verification/Spec2Isabelle.thy ===== *)
theory Spec2Isabelle
  imports Proc_Files State_Threads Lock_Order Process_Table Ipc_Exit Hooks_Race Kmod Memopt_Threads
    Aal_Byteswap Aal_Atomics Aal_Barriers Aal_Memory Aal_Detect Ebpf_Loader
begin

text \<open>
  A verification development for the C code of UROAM, a framework that watches and tunes the
  memory use of a Linux machine. The C code has four parts that run in different places and
  interact as follows.

  \<^item> The kernel module \<open>uroam.ko\<close> (\<open>kernel/\<close>): a global state under a spinlock, to which
    pressure monitoring, allocation hooks, NUMA support and process tracking contribute; two kernel
    threads; a netlink socket that is meant to tell user space what the module has seen and to answer
    queries; files under \<open>/proc\<close> and \<open>/sys\<close>. \<open>main.c\<close> starts and stops the components in order.
  \<^item> A second, older module (\<open>kmod/uroam_kernel.c\<close>) that runs the kernel's page merging and
    compaction from a timer and a work queue.
  \<^item> eBPF probes (\<open>ebpf/uroam.bpf.c\<close>) that write events and a total into maps, and the loader in
    user space (\<open>ebpf/ebpf_loader.c\<close>) that loads them and reads those maps.
  \<^item> User-space libraries: the allocator \<open>libmemopt\<close> (\<open>src/shared/memopt.c\<close>) and the architecture
    abstraction layer (\<open>aal/aal.c\<close>) with detection, atomics and byte swapping.

  \<^bold>\<open>Theories.\<close> \<open>Uroam_Prelude\<close>: word types, error codes, C strings, bytes of words, bounded loops, and
  the locales \<open>machine\<close> and \<open>monotone_machine\<close> (a component under any sequence of operations).
  \<open>Kernel_State\<close>: \<open>kernel/uroam.h\<close>, the kernel services as a parameter \<open>kenv\<close>, the log of kernel
  calls, what the log says of locks, sleeping, references and array bounds, the locale \<open>locked_op\<close>.
  \<open>Kernel_Ipc\<close>, \<open>Ipc_Race\<close> and \<open>Ipc_Exit\<close>: \<open>ipc.c\<close>, one send at a time; several at once while the
  socket may be released; what can still happen after the release. The module sends to port 0, its
  own socket, so an accepted message runs its receiver inside the send: the log has these calls as
  one entry \<open>Delivery\<close>, which \<open>whole\<close> unfolds.
  \<open>Critical_Section\<close>: operations that many threads perform under one lock, access by access, with
  the locales \<open>critical_section\<close> and \<open>straight_line\<close>. \<open>Kernel_Core\<close>, \<open>Proc_Text\<close>, \<open>Seq_Files\<close> and
  \<open>Proc_Files\<close>: the operations and the files of \<open>main.c\<close>; \<open>State_Threads\<close>: these operations on
  several processors at once.
  \<open>Kernel_Pressure\<close>: \<open>pressure.c\<close>. \<open>Kernel_Hooks\<close> and \<open>Hooks_Race\<close>: \<open>hooks.c\<close>, one call at a time and
  several at once. \<open>Kernel_Numa\<close>: \<open>numa.c\<close>. \<open>Kernel_Tracking\<close>: \<open>tracking.c\<close>; \<open>Pid_Index\<close>: its search
  tree behind the interface \<open>pid_index\<close>; \<open>Tracking_Map\<close>: its abstract specification, a map from
  process numbers. \<open>Kernel_Main\<close>: load and unload in \<open>main.c\<close>; \<open>Module_Life\<close>: any
  sequence of events between them, writes to the module parameters included, with the locale \<open>stage_invariant\<close> for what every stage keeps;
  \<open>Lock_Order\<close>: many threads with such events at once; \<open>Process_Table\<close>: the process table all
  the while. \<open>Kmod\<close>: the second module.
  \<open>Memopt_Pool\<close>, \<open>Memopt\<close> and \<open>Memopt_Threads\<close>: \<open>memopt.c\<close>, with the locale \<open>upward_allocator\<close>; the last
  one has many threads at once. \<open>Aal_Byteswap\<close> (locale \<open>chunk_reverser\<close>), \<open>Aal_Atomics\<close> (locale \<open>commuting_updates\<close>), \<open>Aal_Barriers\<close>, \<open>Aal_Memory\<close> and
  \<open>Aal_Detect\<close>: \<open>aal.c\<close>.
  \<open>Ebpf_Prog\<close> and \<open>Ebpf_Loader\<close>: the eBPF part. This theory: what the two sides of the eBPF part give
  together.

  \<^bold>\<open>State and operations.\<close> A C structure is a record with its fields, a function a definition of the
  same name on the state (names of \<open>uroam_kernel.c\<close> that \<open>main.c\<close> uses too end in \<open>_kmod\<close>). The records
  of the kernel module extend each other in the order of the theories, so a function of an
  early component applies to the state of all later ones. Integers that wrap are words; a pointer
  the code only compares with null is a flag or an option. Kernel, libc, libbpf, \<open>cpuid\<close> and the
  file system are parameters: functions from the calls made so far, or from the state, to their
  answer. What the kernel module does to the kernel is its log \<open>klog\<close>; what the allocator does to
  memory is an explicit store of pages and bytes. Undefined accesses are values too:
  \<open>Out_of_bounds\<close> in the log, \<open>faulted\<close> in the store.

  \<^bold>\<open>What the lemmas show.\<close> Kernel: the counters count exactly the events of any run; messages are
  determined by their bytes; a query is answered to the module itself, and the send inside that
  delivery waits for the mutex its own thread holds; every lock is released and every
  reference accounted for, with the exceptions the code has; the tracking component refines its
  map specification and its scan ends, if a pid read after its release still has a number no
  smaller; a failed load gives everything back but for one double release, and an unload what
  the load obtained and the parameters still say, whatever happened in between. Several processors: the
  counter under the lock is exact, the one without can lose calls, sequence numbers of messages
  can repeat; whatever events many threads perform, locks exclude each other and are taken by
  rank, so that nothing deadlocks but a thread that waits for itself in a delivery; what is done under the state lock, the lock of a pool or
  the lock of the allocator's counters is done as if in one step. The process table stays well formed and never shrinks.
  Second module: load, run (step relation, invariant) and exit.
  Allocator: blocks are fresh and disjoint where no sum wraps; what the one-page free and
  reallocation do. AAL: byte swapping equals reversal; what interleaved atomic operations
  guarantee; which reorderings of two threads' accesses the barriers exclude on which processor;
  what the detection finds. eBPF: the line printed for every hit the ring takes, and the total.
  Where the code does not do what it means to, the theorem states what it does.

  \<^bold>\<open>Termination.\<close> Loops over lists, trees and numbers are structural. The scan over all pids may run
  for ever on a machine whose pids do not end; it is a partial function into \<open>option\<close>, and the
  properties of \<open>Tracking_Map\<close> show that it ends where pids are bounded. The threads take the list of
  what their waits return as fuel, one element per wait; the properties of \<open>Kernel_Pressure\<close> and
  \<open>Tracking_Map\<close> on the threads show when that list suffices.

  \<^bold>\<open>Not modelled.\<close> Messages to the kernel log other than the banner; what the kernel does with the
  tables of file operations (\<open>single_open\<close> is a parameter); weak
  orders of atomic operations (all atomics of \<open>aal.c\<close> are sequentially consistent); processors
  other than those \<open>aal.c\<close> names, and of 32-bit Arm and POWER the further reorderings they allow;
  the wrap-around of
  \<open>jiffies\<close>; the map \<open>alloc_tracking\<close> and the function \<open>get_current_numa_node\<close> of \<open>uroam.bpf.c\<close> and
  the message \<open>uroam_nl_msg_numa\<close> of \<open>ipc.c\<close>, which nothing uses, nor constants and unused types of the headers; \<open>uroam_client.h\<close>, which declares a
  library the repository does not contain; the daemons, tools and integrations in Rust, Go and
  Python; tests and packaging.
\<close>

section \<open>From the probes to the user: ebpf/uroam.bpf.c and ebpf/ebpf_loader.c together\<close>

text \<open>The arguments of the line that the loader's callback prints for a record of the ring.\<close>

definition printed :: "u8 list \<Rightarrow> (u64 \<times> string \<times> u32 \<times> u32 \<times> u64 \<times> u64 \<times> u8 list) option" where
  "printed data = snd (perf_event_read_cb data)"

text \<open>
  What the line of a hit says: the time in milliseconds, the kind, process, thread, size in
  kilobytes, flags and command name, from the hit's own arguments and the BPF helpers' answers.
\<close>

definition hit_line :: "bpf_hit \<Rightarrow> u64 \<times> string \<times> u32 \<times> u32 \<times> u64 \<times> u64 \<times> u8 list" where
  "hit_line h =
     (ktime (hit_ctx h) div 1000000, if hit_type h = UROAM_ALLOC then ''ALLOC'' else ''FREE'',
      ucast (drop_bit 32 (pid_tgid (hit_ctx h))), hit_tid h, hit_size h div 1024, hit_gfp h,
      takeWhile (\<lambda>b. b \<noteq> 0) (cur_comm (hit_ctx h)))"

text \<open>A command name as \<open>bpf_get_current_comm\<close> gives it: sixteen bytes with a null byte among them.\<close>

definition named :: "bpf_hit \<Rightarrow> bool" where
  "named h \<longleftrightarrow> length (cur_comm (hit_ctx h)) = 16 \<and> 0 \<in> set (cur_comm (hit_ctx h))"

text \<open>The statistics array as the lookup of the loader sees it.\<close>

definition stats_lookup :: "bpf_maps \<Rightarrow> nat \<Rightarrow> int + u64" where
  "stats_lookup m key =
     (if key < length (uroam_stats m) then Inr (uroam_stats m ! key) else Inl (- 2))"

lemma printed_hit:
  assumes "length pad1 = 4" and "length pad2 = 4" and "named h"
  shows "printed (event_bytes pad1 pad2 (hit_event h)) = Some (hit_line h)"
proof -
  have "drop 56 (event_bytes pad1 pad2 (hit_event h)) = cur_comm (hit_ctx h)"
    using assms(1,2) by (simp add: event_bytes_def hit_event_def)
  with read_event_bytes [OF assms(1,2), of "hit_event h" "[]"] assms show ?thesis
    by (simp add: printed_def perf_event_read_cb_def length_event_bytes hit_line_def hit_event_def named_def)
qed

text \<open>C24: end to end, for any run of probe hits: the loader's callback, handed the records of the ring
  in order, prints one line for every hit whose event the ring took, and nothing for the others (a
  full ring, a break of a thread without memory). The line has the time in milliseconds, the process
  and the command name; the thread, but 0 for \<open>mmap\<close> and \<open>brk\<close>; the size in kilobytes; the flags of a
  page allocation, else 0; and FREE for the two hits of a free and ALLOC for the others, a \<open>brk\<close>
  that shrinks the heap among them. The padding of the records does not matter. (The loader defines
  the callback but registers it nowhere.)\<close>

theorem ebpf_events_end_to_end:
  assumes "length pad1 = 4" and "length pad2 = 4" and "list_all named hs"
  shows "map (\<lambda>e. printed (event_bytes pad1 pad2 e)) (uroam_events (fold run_probe hs bpf_boot)) =
    map (\<lambda>h. Some (hit_line h)) (filter reports hs)"
  using assms by (simp add: probes_events bpf_boot_def printed_hit list_all_iff)

definition example_ctx :: bpf_ctx where
  "example_ctx = \<lparr>pid_tgid = 0x700000009, ktime = 5000000, cur_comm = [115, 104] @ replicate 14 0,
     ring_takes = True, page_shift = 12, mm_brk = Some 8192\<rparr>"

definition example_hits :: "bpf_hit list" where
  "example_hits = [Sys_brk example_ctx 4096, Alloc_pages example_ctx 3264 1,
     Free_pages (example_ctx\<lparr>ring_takes := False\<rparr>) 0, Free_pages example_ctx 0]"

theorem ebpf_events_end_to_end_witness:
  "map (\<lambda>e. printed (event_bytes [0, 0, 0, 0] [0, 0, 0, 0] e))
     (uroam_events (fold run_probe example_hits bpf_boot)) =
   [Some (5, ''ALLOC'', 7, 0, 4, 0, [115, 104]), Some (5, ''ALLOC'', 7, 9, 8, 3264, [115, 104]),
    Some (5, ''FREE'', 7, 9, 4, 0, [115, 104])]"
  using ebpf_events_end_to_end [of "[0, 0, 0, 0]" "[0, 0, 0, 0]" example_hits]
  by (simp add: example_hits_def example_ctx_def named_def hit_line_def this_tid_def bpf_shl_def
      UROAM_ALLOC_def UROAM_FREE_def)

text \<open>C39: end to end: after a successful initialisation, when libbpf finds the statistics map, the loader's statistics call reports the sum
  of the page allocations the probes have seen as the allocated total, from which no free is ever
  subtracted, and leaves the freed total as the caller passed it.\<close>

theorem ebpf_stats_end_to_end:
  assumes "fst (ebpf_init b path s) = 0" and "0 \<le> find_map_fd b' ''uroam_stats''"
  shows "ebpf_get_stats b' (stats_lookup (fold run_probe hs bpf_boot)) (snd (ebpf_init b path s))
      (Some x) (Some y) = (0, Some (sum_list (map counted hs)), Some y)"
proof -
  have "obj (g_ebpf_ctx (snd (ebpf_init b path s))) \<noteq> None"
    using assms(1)
    by (cases "open_ok b (case path of None \<Rightarrow> default_path | Some p \<Rightarrow> p)";
        cases "load_ok b (case path of None \<Rightarrow> default_path | Some p \<Rightarrow> p)")
       (simp_all add: ebpf_init_def ebpf_load_object_def bpf_object_open_def Let_def)
  moreover have "stats_lookup (fold run_probe hs bpf_boot) 0 = Inr (sum_list (map counted hs))"
    using probes_stats [of bpf_boot 0 hs] by (simp add: stats_lookup_def bpf_boot_def)
  ultimately show ?thesis
    using assms(2) by (simp add: ebpf_get_stats_def)
qed

definition example_libbpf :: libbpf_env where
  "example_libbpf = \<lparr>open_ok = (\<lambda>p. True), load_ok = (\<lambda>p. True), prog_fds = [4], attach_result = (\<lambda>i. 1),
     find_map_fd = (\<lambda>n. 5)\<rparr>"

theorem ebpf_stats_end_to_end_witness:
  "ebpf_get_stats example_libbpf (stats_lookup (fold run_probe example_hits bpf_boot))
     (snd (ebpf_init example_libbpf None loader_boot)) (Some 7) (Some 9) = (0, Some 8192, Some 9)"
  using ebpf_stats_end_to_end [of example_libbpf None loader_boot example_libbpf example_hits 7 9]
  by (simp add: example_libbpf_def ebpf_init_def ebpf_load_object_def bpf_object_open_def Let_def
      example_hits_def example_ctx_def bpf_shl_def)

end
